(* ===== verification/Synno_Prelude.thy ===== *)
theory Synno_Prelude
  imports Main "HOL-Library.AList" "HOL-Library.Char_ord" "HOL-Library.List_Lexorder"
begin

text \<open>
  Shared vocabulary of the development.

  \<^item> Python strings are \<^typ>\<open>string\<close>s: lists of characters, read as ASCII code points.
    Case mapping, digits and whitespace are the ASCII ones.
  \<^item> Python dictionaries keep insertion order: an association list with
    \<open>AList.update\<close> (replaces in place, appends a new key at the end), \<open>AList.delete\<close>
    and \<open>map_of\<close>.
  \<^item> A call that may raise returns \<open>error + 'a\<close>, \<open>Inl\<close> for the exception.
\<close>

section \<open>Collections of facts\<close>

named_theorems py_str_simps \<open>definitions of the Python string operations\<close>
named_theorems dict_simps \<open>facts about association lists used as dictionaries\<close>

section \<open>Exceptions\<close>

datatype py_error =
    ValueError string
  | TypeError string
  | KeyError string
  | OverflowError string
  | ZeroDivisionError
  | OSError string
  | RuntimeError string
  | IndexError
  | SynnoError string
  | SynnoUnsupportedQuery "string list"
  | EngineExecutionError string
  | EngineResourceError string
  | WriteNotSupportedError string
  | EngineException string
  | InvalidOperation string
  | ReceiptRejected string
  | StructError string
  | AssertionError string

section \<open>Characters and strings\<close>

definition is_upper_char :: "char \<Rightarrow> bool" where
  "is_upper_char c \<longleftrightarrow> 65 \<le> (of_char c :: nat) \<and> (of_char c :: nat) \<le> 90"

definition is_lower_char :: "char \<Rightarrow> bool" where
  "is_lower_char c \<longleftrightarrow> 97 \<le> (of_char c :: nat) \<and> (of_char c :: nat) \<le> 122"

definition is_digit_char :: "char \<Rightarrow> bool" where
  "is_digit_char c \<longleftrightarrow> 48 \<le> (of_char c :: nat) \<and> (of_char c :: nat) \<le> 57"

definition is_space_char :: "char \<Rightarrow> bool" where
  "is_space_char c \<longleftrightarrow>
     (9 \<le> (of_char c :: nat) \<and> (of_char c :: nat) \<le> 13) \<or>
     (28 \<le> (of_char c :: nat) \<and> (of_char c :: nat) \<le> 32)"

definition lower_char :: "char \<Rightarrow> char" where
  "lower_char c = (if is_upper_char c then char_of ((of_char c :: nat) + 32) else c)"

definition upper_char :: "char \<Rightarrow> char" where
  "upper_char c = (if is_lower_char c then char_of ((of_char c :: nat) - 32) else c)"

definition py_lower :: "string \<Rightarrow> string" where
  "py_lower s = map lower_char s"

definition py_upper :: "string \<Rightarrow> string" where
  "py_upper s = map upper_char s"

definition py_strip :: "string \<Rightarrow> string" where
  "py_strip s = rev (dropWhile is_space_char (rev (dropWhile is_space_char s)))"

definition py_startswith :: "string \<Rightarrow> string \<Rightarrow> bool" where
  "py_startswith s p \<longleftrightarrow> take (length p) s = p"

definition py_endswith :: "string \<Rightarrow> string \<Rightarrow> bool" where
  "py_endswith s p \<longleftrightarrow> length p \<le> length s \<and> drop (length s - length p) s = p"

text \<open>Python's \<open>sep.join(parts)\<close>.\<close>

fun py_join :: "string \<Rightarrow> string list \<Rightarrow> string" where
  "py_join sep [] = []"
| "py_join sep [x] = x"
| "py_join sep (x # y # xs) = x @ sep @ py_join sep (y # xs)"

text \<open>\<open>s.split(c)\<close> on one character: always at least one piece.\<close>

fun py_split_char :: "char \<Rightarrow> string \<Rightarrow> string list" where
  "py_split_char c [] = [[]]"
| "py_split_char c (x # xs) =
     (if x = c then [] # py_split_char c xs
      else (case py_split_char c xs of [] \<Rightarrow> [[x]] | p # ps \<Rightarrow> (x # p) # ps))"

text \<open>\<open>s.split()\<close>: the maximal runs of non-space characters.\<close>

function py_split_ws :: "string \<Rightarrow> string list" where
  "py_split_ws [] = []"
| "py_split_ws (x # xs) =
     (if is_space_char x then py_split_ws xs
      else (x # takeWhile (\<lambda>c. \<not> is_space_char c) xs)
           # py_split_ws (dropWhile (\<lambda>c. \<not> is_space_char c) xs))"
  by pat_completeness auto
termination
  by (relation "measure length") (auto simp: less_Suc_eq_le length_dropWhile_le)

text \<open>\<open>s.replace(c, r)\<close> for a one-character pattern.\<close>

definition py_replace_char :: "char \<Rightarrow> string \<Rightarrow> string \<Rightarrow> string" where
  "py_replace_char c r s = concat (map (\<lambda>x. if x = c then r else [x]) s)"

text \<open>\<open>s.replace(p, r)\<close> for a non-empty pattern: leftmost, non-overlapping occurrences.\<close>

function py_replace :: "string \<Rightarrow> string \<Rightarrow> string \<Rightarrow> string" where
  "py_replace p r [] = []"
| "py_replace p r (c # s) =
     (if p \<noteq> [] \<and> py_startswith (c # s) p then r @ py_replace p r (drop (length p) (c # s))
      else c # py_replace p r s)"
  by pat_completeness auto
termination
  by (relation "measure (\<lambda>(p, r, s). length s)") (auto simp: neq_Nil_conv)

text \<open>\<open>s.rstrip(c)\<close> and \<open>s.lstrip(cs)\<close>.\<close>

definition py_rstrip_char :: "char \<Rightarrow> string \<Rightarrow> string" where
  "py_rstrip_char c s = rev (dropWhile (\<lambda>x. x = c) (rev s))"

definition py_lstrip_chars :: "char list \<Rightarrow> string \<Rightarrow> string" where
  "py_lstrip_chars cs s = dropWhile (\<lambda>x. x \<in> set cs) s"

text \<open>Substring test, \<open>p in s\<close>.\<close>

fun py_contains :: "string \<Rightarrow> string \<Rightarrow> bool" where
  "py_contains p [] = (p = [])"
| "py_contains p (x # xs) = (py_startswith (x # xs) p \<or> py_contains p xs)"

text \<open>\<open>str(n)\<close> of an integer.\<close>

definition digit_char :: "nat \<Rightarrow> char" where
  "digit_char n = char_of (48 + n)"

fun str_nat :: "nat \<Rightarrow> string" where
  "str_nat n = (if n < 10 then [digit_char n] else str_nat (n div 10) @ [digit_char (n mod 10)])"

declare str_nat.simps [simp del]

definition str_int :: "int \<Rightarrow> string" where
  "str_int i = (if i < 0 then CHR ''-'' # str_nat (nat (- i)) else str_nat (nat i))"

text \<open>\<open>int(s)\<close> and the digit runs of \<open>float(s)\<close>: underscores may separate digits.\<close>

definition digit_value :: "char \<Rightarrow> nat" where
  "digit_value c = of_char c - 48"

fun digits_us_go :: "nat \<Rightarrow> bool \<Rightarrow> string \<Rightarrow> nat option" where
  "digits_us_go acc prev [] = (if prev then Some acc else None)"
| "digits_us_go acc prev (c # cs) =
     (if is_digit_char c then digits_us_go (10 * acc + digit_value c) True cs
      else if c = CHR ''_'' \<and> prev then digits_us_go acc False cs
      else None)"

definition digits_us :: "string \<Rightarrow> nat option" where
  "digits_us s = digits_us_go 0 False s"

definition split_sign :: "string \<Rightarrow> bool \<times> string" where
  "split_sign s = (case s of [] \<Rightarrow> (False, [])
     | c # cs \<Rightarrow> if c = CHR ''-'' then (True, cs) else if c = CHR ''+'' then (False, cs)
                else (False, c # cs))"

definition py_int_of_str :: "string \<Rightarrow> int option" where
  "py_int_of_str s = (let (neg, body) = split_sign (py_strip s) in
     map_option (\<lambda>n. if neg then - int n else int n) (digits_us body))"

definition py_isdigit :: "string \<Rightarrow> bool" where
  "py_isdigit s \<longleftrightarrow> s \<noteq> [] \<and> list_all is_digit_char s"

lemmas py_char_simps = is_upper_char_def is_lower_char_def is_digit_char_def is_space_char_def
  lower_char_def upper_char_def

declare py_char_simps [py_str_simps] py_lower_def [py_str_simps] py_upper_def [py_str_simps]
  py_strip_def [py_str_simps] py_startswith_def [py_str_simps] py_endswith_def [py_str_simps]
  py_replace_char_def [py_str_simps] py_rstrip_char_def [py_str_simps]
  py_lstrip_chars_def [py_str_simps]

section \<open>Generic lemmas\<close>

subsection \<open>Strings\<close>

lemma of_char_less: "(of_char c :: nat) < 256"
  by (cases c) (simp add: of_char_def horner_sum_simps split: if_splits)

lemma length_py_lower [simp]: "length (py_lower s) = length s"
  by (simp add: py_lower_def)

lemma py_lower_Nil [simp]: "py_lower [] = []"
  by (simp add: py_lower_def)

lemma py_lower_append: "py_lower (s @ t) = py_lower s @ py_lower t"
  by (simp add: py_lower_def)

lemma lower_char_not_upper: "\<not> is_upper_char (lower_char c)"
proof (cases "is_upper_char c")
  case True
  then have "(of_char c :: nat) + 32 < 256"
    by (simp add: is_upper_char_def)
  with True show ?thesis
    by (auto simp: lower_char_def is_upper_char_def of_char_of)
qed (simp add: lower_char_def)

lemma py_lower_idem [simp]: "py_lower (py_lower s) = py_lower s"
  by (simp add: py_lower_def lower_char_def [of "lower_char _"] lower_char_not_upper)

lemma py_startswith_append: "py_startswith (p @ s) p"
  by (simp add: py_startswith_def)

lemma py_startswith_iff: "py_startswith s p \<longleftrightarrow> (\<exists>t. s = p @ t)"
  unfolding py_startswith_def by (metis append_eq_conv_conj append_take_drop_id)

lemma py_replace_skip:
  "hd p \<notin> set u \<Longrightarrow> py_replace p r (u @ s) = u @ py_replace p r s"
proof (induction u)
  case (Cons a u)
  then have "\<not> (p \<noteq> [] \<and> py_startswith (a # u @ s) p)"
    by (auto simp: py_startswith_iff neq_Nil_conv)
  then have "py_replace p r (a # u @ s) = a # py_replace p r (u @ s)"
    unfolding py_replace.simps(2) by (rule if_not_P)
  with Cons show ?case by simp
qed simp

lemma py_replace_hit: "p \<noteq> [] \<Longrightarrow> py_replace p r (p @ s) = r @ py_replace p r s"
  by (cases p) (simp_all add: py_startswith_iff)

lemma py_join_singleton [simp]: "py_join sep [x] = x"
  by simp

lemma py_split_char_not_Nil [simp]: "py_split_char c s \<noteq> []"
  by (cases s) (auto split: list.splits)

lemma py_join_split_char: "py_join [c] (py_split_char c s) = s"
proof (induction s)
  case (Cons x xs)
  then show ?case
    by (cases "py_split_char c xs"; cases "tl (py_split_char c xs)") (auto split: list.splits)
qed simp

lemma py_split_char_no_sep: "p \<in> set (py_split_char c s) \<Longrightarrow> c \<notin> set p"
  by (induction s arbitrary: p) (auto split: if_splits list.splits)

lemma py_split_char_append_sep:
  "c \<notin> set p \<Longrightarrow> py_split_char c (p @ c # s) = p # py_split_char c s"
  by (induction p) auto

lemma py_split_char_none: "c \<notin> set p \<Longrightarrow> py_split_char c p = [p]"
  by (induction p) auto

lemma py_split_join:
  "list_all (\<lambda>p. c \<notin> set p) ps \<Longrightarrow> ps \<noteq> [] \<Longrightarrow> py_split_char c (py_join [c] ps) = ps"
  by (induction "[c]" ps rule: py_join.induct) (simp_all add: py_split_char_append_sep py_split_char_none)

lemma py_join_inject:
  "list_all (\<lambda>p. c \<notin> set p) ps \<Longrightarrow> list_all (\<lambda>p. c \<notin> set p) qs \<Longrightarrow> ps \<noteq> [] \<Longrightarrow> qs \<noteq> [] \<Longrightarrow>
   py_join [c] ps = py_join [c] qs \<longleftrightarrow> ps = qs"
  using py_split_join by metis

subsection \<open>Dictionaries\<close>

lemma dict_get_set [simp, dict_simps]:
  "map_of (AList.update k v d) = (map_of d)(k \<mapsto> v)"
  by (simp add: update_conv')

lemma dict_get_del [simp, dict_simps]: "map_of (AList.delete k d) = (map_of d)(k := None)"
  by (simp add: delete_conv')

lemma dict_update_new: "k \<notin> fst ` set d \<Longrightarrow> AList.update k v d = d @ [(k, v)]"
  by (induction d) auto

text \<open>\<open>d.update(kvs)\<close>.\<close>

definition dict_update :: "('k \<times> 'v) list \<Rightarrow> ('k \<times> 'v) list \<Rightarrow> ('k \<times> 'v) list" where
  "dict_update d kvs = foldl (\<lambda>d kv. AList.update (fst kv) (snd kv) d) d kvs"

lemma dict_update_get: "map_of (dict_update d kvs) = map_of d ++ map_of (rev kvs)"
proof (induction kvs arbitrary: d)
  case (Cons kv kvs)
  then show ?case by (cases kv) (simp add: dict_update_def update_conv fun_eq_iff map_add_def split: option.splits)
qed (simp add: dict_update_def)

lemma dict_update_mem:
  "(j, w) \<in> set (AList.update k v d) \<Longrightarrow> (j, w) = (k, v) \<or> (j, w) \<in> set d"
  by (induction d) (auto split: if_splits)

lemma dict_delete_mem: "p \<in> set (AList.delete k d) \<Longrightarrow> p \<in> set d \<and> fst p \<noteq> k"
  by (induction d) (auto split: if_splits)

lemma map_of_mem: "map_of d k = Some v \<Longrightarrow> (k, v) \<in> set d"
  by (rule map_of_SomeD)

lemma size_list_filter_le: "size_list f (filter P xs) \<le> size_list f xs"
  by (induction xs) auto

subsection \<open>Numbers as strings\<close>

lemma is_digit_digit_char: "n < 10 \<Longrightarrow> is_digit_char (digit_char n)"
  by (simp add: is_digit_char_def digit_char_def of_char_of)

lemma digit_value_digit_char: "n < 10 \<Longrightarrow> digit_value (digit_char n) = n"
  by (simp add: digit_value_def digit_char_def of_char_of)

lemma digits_us_go_append_True:
  "list_all is_digit_char xs \<Longrightarrow>
   digits_us_go acc True (xs @ ys) =
   digits_us_go (foldl (\<lambda>a c. 10 * a + digit_value c) acc xs) True ys"
  by (induction xs arbitrary: acc) (simp_all del: digits_us_go.simps(1))

lemma digits_us_go_append:
  "list_all is_digit_char xs \<Longrightarrow> xs \<noteq> [] \<Longrightarrow>
   digits_us_go acc prev (xs @ ys) =
   digits_us_go (foldl (\<lambda>a c. 10 * a + digit_value c) acc xs) True ys"
  by (cases xs) (simp_all add: digits_us_go_append_True)

lemma str_nat_digits: "list_all is_digit_char (str_nat n)"
proof (induction n rule: str_nat.induct)
  case (1 n)
  then show ?case
    by (subst str_nat.simps) (auto simp: is_digit_digit_char)
qed

lemma str_nat_not_Nil [simp]: "str_nat n \<noteq> []"
  by (subst str_nat.simps) simp

lemma str_nat_value: "foldl (\<lambda>a c. 10 * a + digit_value c) 0 (str_nat n) = n"
proof (induction n rule: str_nat.induct)
  case (1 n)
  then show ?case
    by (subst str_nat.simps) (auto simp: digit_value_digit_char)
qed

lemma digits_us_str_nat: "digits_us (str_nat n) = Some n"
  using digits_us_go_append [OF str_nat_digits str_nat_not_Nil, of 0 False n "[]"]
  by (simp add: digits_us_def str_nat_value)

lemma str_nat_inject: "str_nat m = str_nat n \<Longrightarrow> m = n"
  by (metis digits_us_str_nat option.inject)

lemma py_isdigit_str_nat [simp]: "py_isdigit (str_nat n)"
  by (simp add: py_isdigit_def str_nat_digits)

lemma digit_not_dash: "is_digit_char c \<Longrightarrow> c \<noteq> CHR ''-''"
  by (auto simp: is_digit_char_def)

lemma str_nat_no_dash: "CHR ''-'' \<notin> set (str_nat n)"
  using str_nat_digits [of n] digit_not_dash by (auto simp: list_all_iff)

end
