(* ===== verification/Sql_Text.thy ===== *)
theory Sql_Text
  imports Synno_Prelude
begin

text \<open>
  The parts of \<open>router/normalize.py\<close> that read SQL as text, before any parsing: the leading
  keyword and the read/write classification, the cheap multi-statement test, the quote-aware
  literal scanner, and the renaming of anonymous \<open>?\<close> markers.
\<close>

section \<open>Leading keyword and statement kind\<close>

definition read_keywords :: "string list" where
  "read_keywords = [''select'', ''with'', ''explain'', ''describe'', ''desc'', ''show'',
     ''summarize'', ''values'', ''pragma'', ''table'', ''from'']"

definition write_keywords :: "string list" where
  "write_keywords = [''insert'', ''update'', ''delete'', ''merge'', ''create'', ''drop'', ''alter'',
     ''truncate'', ''replace'', ''attach'', ''detach'', ''copy'', ''import'', ''export'', ''set'',
     ''begin'', ''commit'', ''rollback'', ''checkpoint'', ''vacuum'', ''call'', ''use'', ''load'',
     ''install'']"

definition is_word_char :: "char \<Rightarrow> bool" where
  "is_word_char c \<longleftrightarrow> is_upper_char c \<or> is_lower_char c \<or> c = CHR ''_''"

text \<open>
  The pattern \<open>\s*(?:--[^\n]*\n|/\*.*?\*/|\s)*([A-Za-z_]+)\<close> is matched by backtracking: a line
  comment needs its newline, a block comment ends at the first \<open>*/\<close> from which the rest still
  matches. \<open>after_close\<close> lists the texts after each \<open>*/\<close>, nearest first.
\<close>

fun after_close :: "string \<Rightarrow> string list" where
  "after_close (c # d # s) =
     (if c = CHR ''*'' \<and> d = CHR ''/'' then s # after_close (d # s) else after_close (d # s))"
| "after_close s = []"

lemma after_close_length: "t \<in> set (after_close s) \<Longrightarrow> length t < length s"
  by (induction s rule: after_close.induct) (auto split: if_splits)

fun first_some :: "'a option list \<Rightarrow> 'a option" where
  "first_some [] = None"
| "first_some (None # xs) = first_some xs"
| "first_some (Some x # xs) = Some x"

definition after_newline :: "string \<Rightarrow> string option" where
  "after_newline s = (case dropWhile (\<lambda>c. c \<noteq> CHR 0x0A) s of [] \<Rightarrow> None | _ # t \<Rightarrow> Some t)"

lemma after_newline_length: "after_newline s = Some t \<Longrightarrow> length t < length s"
proof -
  assume "after_newline s = Some t"
  then obtain c where "dropWhile (\<lambda>c. c \<noteq> CHR 0x0A) s = c # t"
    by (auto simp: after_newline_def split: list.splits)
  then show ?thesis
    using length_dropWhile_le [of "\<lambda>c. c \<noteq> CHR 0x0A" s] by simp
qed

definition word_here :: "string \<Rightarrow> string option" where
  "word_here s = (let w = takeWhile is_word_char s in if w = [] then None else Some w)"

function leading_word :: "string \<Rightarrow> string option" where
  "leading_word s =
     first_some
       [(if py_startswith s ''--'' then
           (case after_newline (drop 2 s) of Some t \<Rightarrow> leading_word t | None \<Rightarrow> None)
         else None),
        (if py_startswith s ''/*'' then first_some (map leading_word (after_close (drop 2 s)))
         else None),
        (case s of c # t \<Rightarrow> if is_space_char c then leading_word t else None | [] \<Rightarrow> None),
        word_here s]"
  by pat_completeness auto
termination
proof (relation "measure length", goal_cases)
  case (2 s t)
  then show ?case using after_newline_length [of "drop 2 s" t] by simp
next
  case (3 s t)
  then show ?case using after_close_length [of t "drop 2 s"] by simp
qed auto

declare leading_word.simps [simp del]

definition leading_keyword :: "string \<Rightarrow> string option" where
  "leading_keyword sql = map_option py_lower (leading_word sql)"

datatype stmt_kind = KRead | KWrite | KUnknown

definition statement_kind :: "string \<Rightarrow> stmt_kind" where
  "statement_kind sql = (case leading_keyword sql of
     None \<Rightarrow> KUnknown
   | Some kw \<Rightarrow> if kw \<in> set write_keywords then KWrite
                else if kw \<in> set read_keywords then KRead
                else KUnknown)"

definition has_multiple_statements :: "string \<Rightarrow> bool" where
  "has_multiple_statements sql =
     (let s = py_strip sql;
          s' = (if py_endswith s '';'' then take (length s - 1) s else s)
      in CHR '';'' \<in> set s')"

section \<open>Quote-aware scanning\<close>

definition is_quote :: "char \<Rightarrow> bool" where
  "is_quote c \<longleftrightarrow> c = CHR 0x27 \<or> c = CHR 0x22"

text \<open>
  The inner loop from behind an opening quote \<open>q\<close>: the collected text (doubled quotes
  collapsed) and the number of characters before the closing quote or the end of the input.
\<close>

fun literal_body :: "char \<Rightarrow> string \<Rightarrow> string \<times> nat" where
  "literal_body q [] = ([], 0)"
| "literal_body q [c] = (if c = q then ([], 0) else ([c], 1))"
| "literal_body q (c # d # s) =
     (if c = q then
        (if d = q then (let (b, n) = literal_body q s in (q # b, n + 2)) else ([], 0))
      else (let (b, n) = literal_body q (d # s) in (c # b, n + 1)))"

type_synonym span = "nat \<times> nat \<times> string"

function scan_from :: "nat \<Rightarrow> string \<Rightarrow> span list" where
  "scan_from i [] = []"
| "scan_from i (q # s) =
     (if is_quote q then
        (let (b, n) = literal_body q s
         in (i, i + 1 + n, b) # scan_from (i + n + 2) (drop (n + 1) s))
      else scan_from (i + 1) s)"
  by pat_completeness auto
termination by (relation "measure (\<lambda>(i, s). length s)") auto

definition scan_string_literals :: "string \<Rightarrow> span list" where
  "scan_string_literals sql = scan_from 0 sql"

section \<open>Naming anonymous markers\<close>

text \<open>Python's \<open>s[a:b]\<close> for non-negative bounds.\<close>

definition py_slice :: "string \<Rightarrow> nat \<Rightarrow> nat \<Rightarrow> string" where
  "py_slice s a b = take (b - a) (drop a s)"

definition synp :: "nat \<Rightarrow> string" where
  "synp i = ''synp'' @ str_nat i"

record naming =
  nm_out :: "string list"
  nm_map :: "(string \<times> string) list"
  nm_pi :: nat

text \<open>The loop body of \<open>rewrite_outside\<close> for each piece behind a \<open>?\<close>.\<close>

definition name_piece :: "string list \<Rightarrow> string \<Rightarrow> naming \<Rightarrow> naming" where
  "name_piece names piece st =
     st\<lparr>nm_map := (if nm_pi st < length names
                   then AList.update (synp (nm_pi st)) (names ! nm_pi st) (nm_map st)
                   else nm_map st),
        nm_out := nm_out st @ ['':'' @ synp (nm_pi st), piece],
        nm_pi := nm_pi st + 1\<rparr>"

definition rewrite_outside :: "string list \<Rightarrow> string \<Rightarrow> naming \<Rightarrow> naming" where
  "rewrite_outside names segment st =
     (case py_split_char (CHR ''?'') segment of
        [] \<Rightarrow> st
      | p # ps \<Rightarrow> fold (name_piece names) ps (st\<lparr>nm_out := nm_out st @ [p]\<rparr>))"

fun name_loop :: "string list \<Rightarrow> string \<Rightarrow> nat \<Rightarrow> span list \<Rightarrow> naming \<Rightarrow> naming" where
  "name_loop names sql pos [] st = rewrite_outside names (drop pos sql) st"
| "name_loop names sql pos ((open_i, close_i, b) # spans) st =
     (let st1 = rewrite_outside names (py_slice sql pos open_i) st;
          st2 = st1\<lparr>nm_out := nm_out st1 @ [py_slice sql open_i (close_i + 1)]\<rparr>
      in name_loop names sql (close_i + 1) spans st2)"

definition name_anonymous_placeholders ::
  "string \<Rightarrow> string list \<Rightarrow> (string \<times> (string \<times> string) list) option" where
  "name_anonymous_placeholders sql names =
     (let st = name_loop names sql 0 (scan_string_literals sql)
                 \<lparr>nm_out = [], nm_map = [], nm_pi = 0\<rparr>
      in if nm_pi st \<noteq> length names then None else Some (concat (nm_out st), nm_map st))"

section \<open>Lemmas on the scanner\<close>

lemma literal_body_le: "literal_body q s = (b, n) \<Longrightarrow> n \<le> length s"
  by (induction q s arbitrary: b n rule: literal_body.induct)
    (auto split: if_splits prod.splits)

text \<open>The body stops at a closing quote or at the end of the input.\<close>

lemma literal_body_close:
  "literal_body q s = (b, n) \<Longrightarrow> n < length s \<Longrightarrow> s ! n = q"
  by (induction q s arbitrary: b n rule: literal_body.induct)
    (auto split: if_splits prod.splits simp: numeral_2_eq_2)

text \<open>The body is read only up to and including the closing quote and one look-ahead.\<close>

lemma literal_body_append:
  "literal_body q s = (b, n) \<Longrightarrow> n < length s \<Longrightarrow> (t \<noteq> [] \<Longrightarrow> drop (n + 1) s = [] \<Longrightarrow> hd t \<noteq> q) \<Longrightarrow>
   literal_body q (s @ t) = (b, n)"
proof (induction q s arbitrary: b n rule: literal_body.induct)
  case (2 q c)
  then show ?case by (cases t) (auto split: if_splits)
next
  case (3 q c d s)
  then show ?case by (auto split: if_splits prod.splits)
qed simp

lemma scan_from_shift: "scan_from (i + k) s = map (\<lambda>(a, b, t). (a + k, b + k, t)) (scan_from i s)"
  by (induction i s rule: scan_from.induct)
    (auto split: prod.splits simp: algebra_simps)

lemma scan_from_bounds:
  "(a, b, t) \<in> set (scan_from i s) \<Longrightarrow> i \<le> a \<and> a < b \<and> b \<le> i + length s"
proof (induction i s rule: scan_from.induct)
  case (2 i q s)
  show ?case
  proof (cases "is_quote q")
    case True
    obtain bd n where bd: "literal_body q s = (bd, n)" by fastforce
    then have n: "n \<le> length s" by (rule literal_body_le)
    from "2.prems" True bd consider "(a, b, t) = (i, i + 1 + n, bd)"
      | "(a, b, t) \<in> set (scan_from (i + n + 2) (drop (n + 1) s))"
      by auto
    then show ?thesis
    proof cases
      case 1
      then show ?thesis using n by simp
    next
      case 2
      then have "i + n + 2 \<le> a \<and> a < b \<and> b \<le> i + n + 2 + length (drop (n + 1) s)"
        using "2.IH"(1) [OF True, of "(bd, n)" bd n] bd by simp
      moreover have "length (drop (n + 1) s) + n + 2 \<le> length s + 1 \<or> drop (n + 1) s = []"
        using n by auto
      ultimately show ?thesis using n 2 by (cases "drop (n + 1) s = []") auto
    qed
  next
    case False
    then show ?thesis using "2.IH"(2) "2.prems" by fastforce
  qed
qed simp

text \<open>Spans are in source order and do not overlap.\<close>

lemma scan_from_sorted:
  "sorted_wrt (\<lambda>(a, b, t) (a', b', t'). b < a') (scan_from i s)"
proof (induction i s rule: scan_from.induct)
  case (2 i q s)
  then show ?case
    by (auto split: prod.splits dest!: scan_from_bounds)
qed simp

text \<open>Outside the spans there is no quote character.\<close>

lemma scan_from_no_quote_outside:
  "k < length s \<Longrightarrow> is_quote (s ! k) \<Longrightarrow>
   \<exists>(a, b, t) \<in> set (scan_from i s). a \<le> i + k \<and> i + k \<le> b"
proof (induction i s arbitrary: k rule: scan_from.induct)
  case (2 i q s)
  show ?case
  proof (cases "is_quote q")
    case True
    obtain bd n where bd: "literal_body q s = (bd, n)" by fastforce
    show ?thesis
    proof (cases "k \<le> n + 1")
      case k: True
      with True bd show ?thesis by auto
    next
      case k: False
      have e: "i + n + 2 + (k - (n + 2)) = i + k" using k by simp
      have "(q # s) ! k = drop (n + 1) s ! (k - (n + 2))"
        using k "2.prems"(1)
        by (simp add: nth_Cons' nth_drop Suc_diff_le numeral_2_eq_2 Suc_diff_Suc)
      then have "\<exists>(a, b, t) \<in> set (scan_from (i + n + 2) (drop (n + 1) s)).
          a \<le> i + k \<and> i + k \<le> b"
        using "2.IH"(1) [OF True, of "(bd, n)" bd n "k - (n + 2)"] bd "2.prems" k
        unfolding e by auto
      then show ?thesis using True bd by simp
    qed
  next
    case False
    then obtain j where j: "k = Suc j" using "2.prems" by (cases k) auto
    then show ?thesis using False "2.IH"(2) [of j] "2.prems" by auto
  qed
qed simp

section \<open>Renaming in one pass\<close>

text \<open>
  The reference: walk the text once, copy literals verbatim, replace the \<open>k\<close>-th marker outside
  them by \<open>:synpk\<close>.
\<close>

function renamed :: "nat \<Rightarrow> string \<Rightarrow> string" where
  "renamed p [] = []"
| "renamed p (q # s) =
     (if is_quote q then
        (let n = snd (literal_body q s)
         in take (n + 2) (q # s) @ renamed p (drop (n + 1) s))
      else if q = CHR ''?'' then '':'' @ synp p @ renamed (p + 1) s
      else q # renamed p s)"
  by pat_completeness auto
termination by (relation "measure (\<lambda>(p, s). length s)") auto

function markers :: "string \<Rightarrow> nat" where
  "markers [] = 0"
| "markers (q # s) =
     (if is_quote q then markers (drop (snd (literal_body q s) + 1) s)
      else if q = CHR ''?'' then Suc (markers s)
      else markers s)"
  by pat_completeness auto
termination by (relation "measure length") auto

definition named_so_far :: "string list \<Rightarrow> nat \<Rightarrow> (string \<times> string) list" where
  "named_so_far names p = map (\<lambda>j. (synp j, names ! j)) [0..<min p (length names)]"

fun glue :: "nat \<Rightarrow> string list \<Rightarrow> string" where
  "glue p [] = []"
| "glue p (x # xs) = '':'' @ synp p @ x @ glue (p + 1) xs"

lemma synp_inject [simp]: "synp i = synp j \<longleftrightarrow> i = j"
  by (auto simp: synp_def dest: str_nat_inject)

lemma named_so_far_step:
  "named_so_far names (Suc p) =
     (if p < length names then AList.update (synp p) (names ! p) (named_so_far names p)
      else named_so_far names p)"
proof (cases "p < length names")
  case True
  then have "synp p \<notin> fst ` set (named_so_far names p)"
    by (auto simp: named_so_far_def)
  then have "AList.update (synp p) (names ! p) (named_so_far names p)
      = named_so_far names p @ [(synp p, names ! p)]"
    by (rule dict_update_new)
  with True show ?thesis by (simp add: named_so_far_def)
qed (simp add: named_so_far_def)

lemma fold_name_piece:
  "nm_map st = named_so_far names (nm_pi st) \<Longrightarrow>
   concat (nm_out (fold (name_piece names) ps st)) = concat (nm_out st) @ glue (nm_pi st) ps \<and>
   nm_pi (fold (name_piece names) ps st) = nm_pi st + length ps \<and>
   nm_map (fold (name_piece names) ps st) = named_so_far names (nm_pi st + length ps)"
proof (induction ps arbitrary: st)
  case (Cons x xs)
  have "nm_map (name_piece names x st) = named_so_far names (nm_pi (name_piece names x st))"
    using Cons.prems by (simp add: name_piece_def named_so_far_step)
  from Cons.IH [OF this] show ?case by (simp add: name_piece_def)
qed simp

lemma renamed_pieces:
  "list_all (\<lambda>c. \<not> is_quote c) seg \<Longrightarrow> py_split_char (CHR ''?'') seg = x # xs \<Longrightarrow>
   renamed p seg = x @ glue p xs \<and> markers seg = length xs"
proof (induction seg arbitrary: p x xs)
  case (Cons a seg)
  obtain y ys where sp: "py_split_char (CHR ''?'') seg = y # ys"
    by (meson neq_Nil_conv py_split_char_not_Nil)
  have ih: "renamed p' seg = y @ glue p' ys" "markers seg = length ys" for p'
    using Cons.prems(1) Cons.IH [OF _ sp] by simp_all
  show ?case
    using Cons.prems by (cases "a = CHR ''?''") (auto simp: sp ih)
qed simp

lemma rewrite_outside_spec:
  assumes "list_all (\<lambda>c. \<not> is_quote c) seg" and "nm_map st = named_so_far names (nm_pi st)"
  shows "concat (nm_out (rewrite_outside names seg st)) = concat (nm_out st) @ renamed (nm_pi st) seg
    \<and> nm_pi (rewrite_outside names seg st) = nm_pi st + markers seg
    \<and> nm_map (rewrite_outside names seg st) = named_so_far names (nm_pi st + markers seg)"
proof -
  obtain x xs where sp: "py_split_char (CHR ''?'') seg = x # xs"
    by (meson neq_Nil_conv py_split_char_not_Nil)
  from renamed_pieces [OF assms(1) sp]
  have r: "renamed (nm_pi st) seg = x @ glue (nm_pi st) xs" "markers seg = length xs"
    by auto
  from assms(2) fold_name_piece [of "st\<lparr>nm_out := nm_out st @ [x]\<rparr>" names xs] sp r
  show ?thesis by (simp add: rewrite_outside_def)
qed

lemma renamed_append:
  "list_all (\<lambda>c. \<not> is_quote c) seg \<Longrightarrow>
   renamed p (seg @ s) = renamed p seg @ renamed (p + markers seg) s \<and>
   markers (seg @ s) = markers seg + markers s"
  by (induction seg arbitrary: p) auto

lemma name_loop_spec:
  assumes "sql = pre @ seg @ s" and "list_all (\<lambda>c. \<not> is_quote c) seg"
    and "nm_map st = named_so_far names (nm_pi st)"
  shows "concat (nm_out (name_loop names sql (length pre) (scan_from (length pre + length seg) s) st))
       = concat (nm_out st) @ renamed (nm_pi st) (seg @ s) \<and>
     nm_pi (name_loop names sql (length pre) (scan_from (length pre + length seg) s) st)
       = nm_pi st + markers (seg @ s) \<and>
     nm_map (name_loop names sql (length pre) (scan_from (length pre + length seg) s) st)
       = named_so_far names (nm_pi st + markers (seg @ s))"
  using assms
proof (induction "length s" arbitrary: pre seg s st rule: less_induct)
  case less
  show ?case
  proof (cases s)
    case Nil
    with less.prems show ?thesis by (simp add: rewrite_outside_spec)
  next
    case (Cons q t)
    show ?thesis
    proof (cases "is_quote q")
      case False
      have eq: "scan_from (length pre + length seg) s = scan_from (length pre + length (seg @ [q])) t"
        using Cons False by simp
      show ?thesis
        unfolding eq using less.hyps [of t pre "seg @ [q]" st] Cons False less.prems by simp
    next
      case True
      obtain bd n where bd: "literal_body q t = (bd, n)" by fastforce
      define st1 where "st1 = rewrite_outside names seg st"
      define st2 where "st2 = st1\<lparr>nm_out := nm_out st1 @ [take (n + 2) (q # t)]\<rparr>"
      let ?pre = "pre @ seg @ take (n + 2) (q # t)"
      note r1 = rewrite_outside_spec [OF less.prems(2,3), folded st1_def]
      have s2: "nm_map st2 = named_so_far names (nm_pi st2)"
        and p2: "nm_pi st2 = nm_pi st + markers seg"
        and o2: "concat (nm_out st2) = concat (nm_out st) @ renamed (nm_pi st) seg @ take (n + 2) (q # t)"
        using r1 by (simp_all add: st2_def)
      have sql: "sql = ?pre @ [] @ drop (n + 1) t"
        using less.prems(1) Cons by (simp add: append_take_drop_id)
      have sl1: "py_slice sql (length pre) (length pre + length seg) = seg"
        using less.prems(1) by (simp add: py_slice_def)
      have sl2: "py_slice sql (length pre + length seg) (length pre + length seg + 1 + n + 1)
          = take (n + 2) (q # t)"
        using less.prems(1) Cons by (simp add: py_slice_def)
      have n: "n \<le> length t" using bd by (rule literal_body_le)
      have step: "name_loop names sql (length pre) (scan_from (length pre + length seg) s) st
          = name_loop names sql (length pre + length seg + n + 2)
              (scan_from (length pre + length seg + n + 2) (drop (n + 1) t)) st2"
        using Cons True bd sl1 sl2 by (simp add: Let_def st1_def st2_def)
      have ren: "renamed (nm_pi st) (seg @ s) = renamed (nm_pi st) seg @ take (n + 2) (q # t)
            @ renamed (nm_pi st2) (drop (n + 1) t)"
          "markers (seg @ s) = markers seg + markers (drop (n + 1) t)"
        using renamed_append [OF less.prems(2), of "nm_pi st" s] Cons True bd p2 by simp_all
      show ?thesis
      proof (cases "n + 1 \<le> length t")
        case le: True
        then have len: "length ?pre = length pre + length seg + n + 2" by simp
        have "length (drop (n + 1) t) < length s" using Cons by simp
        from less.hyps [OF this sql _ s2] len show ?thesis
          unfolding step ren by (simp add: o2 p2 add.assoc)
      next
        case False
        then have "drop (n + 1) t = []" by simp
        moreover have "drop (length pre + length seg + n + 2) sql = []"
          using less.prems(1) Cons False by simp
        ultimately show ?thesis
          unfolding step ren using s2 p2 o2
          by (simp add: rewrite_outside_def)
      qed
    qed
  qed
qed

text \<open>The slice-based loop computes the one-pass renaming.\<close>

lemma name_anonymous_placeholders_eq:
  "name_anonymous_placeholders sql names =
     (if markers sql = length names then Some (renamed 0 sql, named_so_far names (length names))
      else None)"
  using name_loop_spec [of sql "[]" "[]" sql "\<lparr>nm_out = [], nm_map = [], nm_pi = 0\<rparr>" names]
  by (simp add: name_anonymous_placeholders_def scan_string_literals_def Let_def named_so_far_def)

subsection \<open>Literals survive\<close>

definition literal_texts :: "string \<Rightarrow> string list" where
  "literal_texts s = map (\<lambda>(a, b, t). t) (scan_string_literals s)"

lemma literal_texts_Cons:
  "literal_texts (q # s) =
     (if is_quote q then fst (literal_body q s) # literal_texts (drop (snd (literal_body q s) + 1) s)
      else literal_texts s)"
proof -
  have "map (\<lambda>(a, b, t). t) (scan_from i s) = literal_texts s" for i s
    using scan_from_shift [of 0 i s] by (simp add: literal_texts_def scan_string_literals_def split_def)
  then show ?thesis
    by (simp add: literal_texts_def [of "_ # _"] scan_string_literals_def split_def Let_def)
qed

lemma literal_texts_Nil [simp]: "literal_texts [] = []"
  by (simp add: literal_texts_def scan_string_literals_def)

lemma literal_body_take:
  "literal_body q s = (b, n) \<Longrightarrow> literal_body q (take (n + 1) s) = (b, n)"
proof (induction q s arbitrary: b n rule: literal_body.induct)
  case (2 q c)
  then show ?case by (auto split: if_splits)
next
  case (3 q c d s)
  show ?case
  proof (cases "c = q")
    case True
    with 3 show ?thesis by (auto split: prod.splits if_splits)
  next
    case False
    obtain b' n' where bn: "literal_body q (d # s) = (b', n')" by fastforce
    with "3.IH"(2) [OF False bn] False "3.prems" show ?thesis
      by (cases "take n' s") auto
  qed
qed simp

lemma literal_body_lookahead:
  "literal_body q s = (b, n) \<Longrightarrow> drop (n + 1) s = x # t \<Longrightarrow> x \<noteq> q"
  by (induction q s arbitrary: b n rule: literal_body.induct)
    (auto split: if_splits prod.splits)

lemma hd_renamed: "hd (renamed p (x # t)) = (if x = CHR ''?'' then CHR '':'' else x)"
  by (auto simp: is_quote_def Let_def)

lemma literal_texts_noquote:
  "list_all (\<lambda>c. \<not> is_quote c) xs \<Longrightarrow> literal_texts (xs @ s) = literal_texts s"
  by (induction xs) (auto simp: literal_texts_Cons)

lemma str_nat_noquote: "list_all (\<lambda>c. \<not> is_quote c) (str_nat p)"
  using str_nat_digits [of p] by (auto simp: list_all_iff is_quote_def is_digit_char_def)

lemma literal_texts_renamed: "literal_texts (renamed p s) = literal_texts s"
proof (induction "length s" arbitrary: p s rule: less_induct)
  case less
  show ?case
  proof (cases s)
    case (Cons q t)
    show ?thesis
    proof (cases "is_quote q")
      case False
      have "list_all (\<lambda>c. \<not> is_quote c) ('':'' @ synp p)"
        by (simp add: synp_def str_nat_noquote) (simp add: is_quote_def)
      from literal_texts_noquote [OF this] less.hyps Cons False show ?thesis
        by (simp add: literal_texts_Cons)
    next
      case True
      obtain b n where bd: "literal_body q t = (b, n)" by fastforce
      let ?rest = "renamed p (drop (n + 1) t)"
      have body: "literal_body q (take (n + 1) t @ ?rest) = (b, n)"
      proof (cases "n < length t")
        case True
        show ?thesis
        proof (rule literal_body_append [OF literal_body_take [OF bd]])
          assume "?rest \<noteq> []"
          then obtain x u where "drop (n + 1) t = x # u" by (cases "drop (n + 1) t") auto
          with literal_body_lookahead [OF bd this] hd_renamed [of p x u] \<open>is_quote q\<close>
          show "hd ?rest \<noteq> q" by (auto simp: is_quote_def)
        qed (use True in simp)
      next
        case False
        with bd show ?thesis by simp
      qed
      have split: "renamed p s = q # (take (n + 1) t @ ?rest)"
        using Cons True bd by simp
      have "literal_texts ?rest = literal_texts (drop (n + 1) t)"
        using less.hyps Cons by simp
      moreover have "drop (n + 1) (take (n + 1) t @ ?rest) = ?rest"
        using literal_body_le [OF bd] by (cases "n < length t") auto
      ultimately show ?thesis
        unfolding split using Cons True bd body by (simp add: literal_texts_Cons)
    qed
  qed simp
qed

section \<open>Properties\<close>

text \<open>
  Naming the anonymous markers is exact: the slice-based loop over the scanned literals
  succeeds iff the number of \<open>?\<close> outside quoted text equals the number of names, then yields
  the one-pass renaming with the positional mapping, and every quoted literal of the rewritten
  text has the same contents, in the same order, as in the original.
\<close>

theorem naming_exact:
  "name_anonymous_placeholders sql names =
     (if markers sql = length names
      then Some (renamed 0 sql, zip (map synp [0..<length names]) names) else None)
   \<and> literal_texts (renamed 0 sql) = literal_texts sql"
proof -
  have "named_so_far names (length names) = zip (map synp [0..<length names]) names"
    by (rule nth_equalityI) (simp_all add: named_so_far_def)
  then show ?thesis
    by (simp add: name_anonymous_placeholders_eq literal_texts_renamed)
qed

text \<open>
  The literal scanner is a correct tokeniser for quotes: its spans are non-empty, inside the
  text, in source order without overlap, and every quote character of the text lies inside one
  of them.
\<close>

theorem scan_covers_quotes:
  "sorted_wrt (\<lambda>(a, b, t) (a', b', t'). b < a') (scan_string_literals sql) \<and>
   list_all (\<lambda>(a, b, t). a < b \<and> b \<le> length sql) (scan_string_literals sql) \<and>
   list_all (\<lambda>k. is_quote (sql ! k) = False \<or>
       list_ex (\<lambda>(a, b, t). a \<le> k \<and> k \<le> b) (scan_string_literals sql)) [0..<length sql]"
  using scan_from_sorted [of 0 sql] scan_from_bounds [of _ _ _ 0 sql]
    scan_from_no_quote_outside [of _ sql 0]
  by (fastforce simp: scan_string_literals_def list_all_iff list_ex_iff)

end
