(* ===== verification/Py_Values.thy ===== *)
theory Py_Values
  imports Complex_Main Synno_Prelude
begin

text \<open>
  The Python values the program moves around: cells of result rows, SQL constants, bound
  parameters. A float is NaN or an extended number; a finite float is its exact rational value
  and float arithmetic is exact (rounding of intermediate results is not modelled). A
  \<open>Decimal\<close> is coefficient and exponent, a date its ordinal.
\<close>

section \<open>Extended numbers, linearly ordered\<close>

datatype xnum = NegInf | Fin rat | PosInf

instantiation xnum :: linorder
begin

fun less_eq_xnum :: "xnum \<Rightarrow> xnum \<Rightarrow> bool" where
  "less_eq_xnum NegInf y = True"
| "less_eq_xnum (Fin x) NegInf = False"
| "less_eq_xnum (Fin x) (Fin y) = (x \<le> y)"
| "less_eq_xnum (Fin x) PosInf = True"
| "less_eq_xnum PosInf y = (y = PosInf)"

definition less_xnum :: "xnum \<Rightarrow> xnum \<Rightarrow> bool" where
  "less_xnum x y \<longleftrightarrow> x \<le> y \<and> \<not> y \<le> x"

instance
proof
  fix x y z :: xnum
  show "x < y \<longleftrightarrow> x \<le> y \<and> \<not> y \<le> x" by (rule less_xnum_def)
  show "x \<le> x" by (cases x) auto
  show "x \<le> y \<Longrightarrow> y \<le> z \<Longrightarrow> x \<le> z" by (cases x; cases y; cases z) auto
  show "x \<le> y \<Longrightarrow> y \<le> x \<Longrightarrow> x = y" by (cases x; cases y) auto
  show "x \<le> y \<or> y \<le> x" by (cases x; cases y) auto
qed

end

datatype pyfloat = NaN | Num xnum

text \<open>Float comparisons: anything compared with NaN is false.\<close>

definition float_le :: "pyfloat \<Rightarrow> pyfloat \<Rightarrow> bool" where
  "float_le a b = (case (a, b) of (Num x, Num y) \<Rightarrow> x \<le> y | _ \<Rightarrow> False)"

definition float_lt :: "pyfloat \<Rightarrow> pyfloat \<Rightarrow> bool" where
  "float_lt a b = (case (a, b) of (Num x, Num y) \<Rightarrow> x < y | _ \<Rightarrow> False)"

definition float_eq :: "pyfloat \<Rightarrow> pyfloat \<Rightarrow> bool" where
  "float_eq a b = (case (a, b) of (Num x, Num y) \<Rightarrow> x = y | _ \<Rightarrow> False)"

text \<open>
  \<open>math.isclose(a, b, rel_tol=tol, abs_tol=tol)\<close>: \<open>None\<close> is the \<open>ValueError\<close> of a
  negative tolerance.
\<close>

definition isclose :: "rat \<Rightarrow> pyfloat \<Rightarrow> pyfloat \<Rightarrow> bool option" where
  "isclose tol a b =
     (if tol < 0 then None
      else Some (float_eq a b \<or>
        (case (a, b) of
           (Num (Fin x), Num (Fin y)) \<Rightarrow>
             \<bar>y - x\<bar> \<le> \<bar>tol * y\<bar> \<or> \<bar>y - x\<bar> \<le> \<bar>tol * x\<bar> \<or> \<bar>y - x\<bar> \<le> tol
         | _ \<Rightarrow> False)))"

text \<open>\<open>float(s)\<close> of a string.\<close>

definition pow10 :: "int \<Rightarrow> rat" where
  "pow10 e = (if 0 \<le> e then 10 ^ nat e else 1 / 10 ^ nat (- e))"

definition opt_digits :: "string \<Rightarrow> nat option" where
  "opt_digits s = (if s = [] then Some 0 else digits_us s)"

definition float_mantissa :: "string \<Rightarrow> rat option" where
  "float_mantissa s =
     (let ip = takeWhile (\<lambda>c. c \<noteq> CHR ''.'') s;
          fp = drop (Suc (length ip)) s
      in if ip = [] \<and> fp = [] then None
         else (case (opt_digits ip, opt_digits fp) of
             (Some i, Some f) \<Rightarrow>
               Some (of_nat i + of_nat f * pow10 (- int (length (filter is_digit_char fp))))
           | _ \<Rightarrow> None))"

definition float_unsigned :: "string \<Rightarrow> pyfloat option" where
  "float_unsigned s =
     (if s = ''inf'' \<or> s = ''infinity'' then Some (Num PosInf)
      else if s = ''nan'' then Some NaN
      else
        (let m = takeWhile (\<lambda>c. c \<noteq> CHR ''e'') s; ex = drop (length m) s
         in case float_mantissa m of
              None \<Rightarrow> None
            | Some r \<Rightarrow>
                (case ex of
                   [] \<Rightarrow> Some (Num (Fin r))
                 | _ # es \<Rightarrow>
                     (let (neg, ds) = split_sign es in
                        map_option (\<lambda>n. Num (Fin (r * pow10 (if neg then - int n else int n))))
                          (digits_us ds)))))"

definition float_neg :: "pyfloat \<Rightarrow> pyfloat" where
  "float_neg a = (case a of NaN \<Rightarrow> NaN | Num NegInf \<Rightarrow> Num PosInf | Num PosInf \<Rightarrow> Num NegInf
     | Num (Fin r) \<Rightarrow> Num (Fin (- r)))"

definition py_float_of_str :: "string \<Rightarrow> pyfloat option" where
  "py_float_of_str s = (let (neg, body) = split_sign (py_lower (py_strip s)) in
     map_option (\<lambda>a. if neg then float_neg a else a) (float_unsigned body))"

section \<open>Values\<close>

datatype pyval =
    PNone
  | PBool bool
  | PInt int
  | PFloat pyfloat
  | PDec int int
  | PStr string
  | PDate int
  | PTuple "pyval list"
  | PList "pyval list"

definition is_float :: "pyval \<Rightarrow> bool" where
  "is_float v = (case v of PFloat _ \<Rightarrow> True | _ \<Rightarrow> False)"

definition is_str :: "pyval \<Rightarrow> bool" where
  "is_str v = (case v of PStr _ \<Rightarrow> True | _ \<Rightarrow> False)"

text \<open>The numeric value of a number; \<open>bool\<close> is an \<open>int\<close> in Python.\<close>

definition num_of :: "pyval \<Rightarrow> xnum option" where
  "num_of v = (case v of
     PBool b \<Rightarrow> Some (Fin (if b then 1 else 0))
   | PInt i \<Rightarrow> Some (Fin (of_int i))
   | PDec c e \<Rightarrow> Some (Fin (of_int c * pow10 e))
   | PFloat (Num x) \<Rightarrow> Some x
   | _ \<Rightarrow> None)"

text \<open>\<open>x == y\<close>: numbers across types by exact value, NaN equal to nothing.\<close>

primrec py_eq :: "pyval \<Rightarrow> pyval \<Rightarrow> bool" where
  "py_eq PNone y = (y = PNone)"
| "py_eq (PBool b) y = (num_of y = num_of (PBool b))"
| "py_eq (PInt i) y = (num_of y = num_of (PInt i))"
| "py_eq (PFloat a) y = (num_of (PFloat a) \<noteq> None \<and> num_of y = num_of (PFloat a))"
| "py_eq (PDec c e) y = (num_of y = num_of (PDec c e))"
| "py_eq (PStr s) y = (y = PStr s)"
| "py_eq (PDate d) y = (y = PDate d)"
| "py_eq (PTuple xs) y =
     (case y of PTuple ys \<Rightarrow> list_all2 (\<lambda>f. f) (map py_eq xs) ys | _ \<Rightarrow> False)"
| "py_eq (PList xs) y =
     (case y of PList ys \<Rightarrow> list_all2 (\<lambda>f. f) (map py_eq xs) ys | _ \<Rightarrow> False)"

primrec py_hashable :: "pyval \<Rightarrow> bool" where
  "py_hashable PNone = True"
| "py_hashable (PBool b) = True"
| "py_hashable (PInt i) = True"
| "py_hashable (PFloat a) = True"
| "py_hashable (PDec c e) = True"
| "py_hashable (PStr s) = True"
| "py_hashable (PDate d) = True"
| "py_hashable (PTuple xs) = list_all (\<lambda>b. b) (map py_hashable xs)"
| "py_hashable (PList xs) = False"

text \<open>\<open>float(v)\<close>.\<close>

definition to_float :: "pyval \<Rightarrow> py_error + pyfloat" where
  "to_float v = (case v of
     PFloat a \<Rightarrow> Inr a
   | PStr s \<Rightarrow> (case py_float_of_str s of
        Some a \<Rightarrow> Inr a | None \<Rightarrow> Inl (ValueError ''could not convert string to float''))
   | _ \<Rightarrow> (case num_of v of
        Some x \<Rightarrow> Inr (Num x)
      | None \<Rightarrow> Inl (TypeError ''float() argument must be a string or a real number'')))"

section \<open>Text of a value\<close>

text \<open>
  \<open>str(v)\<close>. The shortest decimal text of a float and the ISO text of a date are the
  parameters \<open>frepr\<close> and \<open>drepr\<close>; a \<open>Decimal\<close> is printed in plain notation when its
  exponent is not positive and its adjusted exponent is at least -6, else in scientific
  notation, as the decimal specification says.
\<close>

definition dec_str :: "int \<Rightarrow> int \<Rightarrow> string" where
  "dec_str c e =
     (let ds = str_nat (nat \<bar>c\<bar>); n = int (length ds); adj = e + n - 1;
          sign = (if c < 0 then ''-'' else '''')
      in if e = 0 then sign @ ds
         else if e < 0 \<and> -6 \<le> adj then
           (if 0 < n + e then sign @ take (nat (n + e)) ds @ ''.'' @ drop (nat (n + e)) ds
            else sign @ ''0.'' @ replicate (nat (- (n + e))) (CHR ''0'') @ ds)
         else sign @ take 1 ds @ (if length ds > 1 then ''.'' @ drop 1 ds else '''') @ ''E''
              @ (if adj < 0 then '''' else ''+'') @ str_int adj)"

definition repr_str :: "string \<Rightarrow> string" where
  "repr_str s =
     (let q = (if CHR 0x27 \<in> set s \<and> CHR 0x22 \<notin> set s then CHR 0x22 else CHR 0x27)
      in q # concat (map (\<lambda>c. if c = q \<or> c = CHR 0x5C then [CHR 0x5C, c] else [c]) s) @ [q])"

primrec py_text :: "(pyfloat \<Rightarrow> string) \<Rightarrow> (int \<Rightarrow> string) \<Rightarrow> pyval \<Rightarrow> bool \<Rightarrow> string" where
  "py_text frepr drepr PNone r = ''None''"
| "py_text frepr drepr (PBool b) r = (if b then ''True'' else ''False'')"
| "py_text frepr drepr (PInt i) r = str_int i"
| "py_text frepr drepr (PFloat a) r = frepr a"
| "py_text frepr drepr (PDec c e) r =
     (if r then ''Decimal('' @ repr_str (dec_str c e) @ '')'' else dec_str c e)"
| "py_text frepr drepr (PStr s) r = (if r then repr_str s else s)"
| "py_text frepr drepr (PDate d) r = drepr d"
| "py_text frepr drepr (PTuple xs) r =
     ''('' @ py_join '', '' (map (\<lambda>f. f True) (map (py_text frepr drepr) xs))
       @ (if length xs = 1 then '','' else '''') @ '')''"
| "py_text frepr drepr (PList xs) r =
     ''['' @ py_join '', '' (map (\<lambda>f. f True) (map (py_text frepr drepr) xs)) @ '']''"

definition py_str :: "(pyfloat \<Rightarrow> string) \<Rightarrow> (int \<Rightarrow> string) \<Rightarrow> pyval \<Rightarrow> string" where
  "py_str frepr drepr v = py_text frepr drepr v False"

section \<open>Equality is a partial equivalence\<close>

lemma float_eq_sym: "float_eq a b = float_eq b a"
  by (auto simp: float_eq_def split: pyfloat.splits)

lemma isclose_sym: "isclose tol a b = isclose tol b a"
proof -
  have "\<bar>y - x\<bar> = \<bar>x - y\<bar>" for x y :: rat by simp
  then show ?thesis
    by (auto simp: isclose_def float_eq_sym split: pyfloat.splits xnum.splits)
qed

lemma isclose_refl: "0 \<le> tol \<Longrightarrow> a \<noteq> NaN \<Longrightarrow> isclose tol a a = Some True"
  by (cases a) (auto simp: isclose_def float_eq_def)

lemma list_all2_map_id: "list_all2 (\<lambda>f. f) (map p xs) ys = list_all2 p xs ys"
  by (simp add: list_all2_map1)

lemma py_eq_sym: "py_eq x y \<Longrightarrow> py_eq y x"
proof (induction x arbitrary: y)
  case (PTuple xs)
  then obtain ys where y: "y = PTuple ys" and "list_all2 py_eq xs ys"
    by (auto simp: list_all2_map_id split: pyval.splits)
  with PTuple.IH have "list_all2 py_eq ys xs"
    by (simp add: list_all2_conv_all_nth)
  with y show ?case by (simp add: list_all2_map_id)
next
  case (PList xs)
  then obtain ys where y: "y = PList ys" and "list_all2 py_eq xs ys"
    by (auto simp: list_all2_map_id split: pyval.splits)
  with PList.IH have "list_all2 py_eq ys xs"
    by (simp add: list_all2_conv_all_nth)
  with y show ?case by (simp add: list_all2_map_id)
qed (auto simp: num_of_def split: pyval.splits pyfloat.splits)

lemma py_eq_trans: "py_eq x y \<Longrightarrow> py_eq y z \<Longrightarrow> py_eq x z"
proof (induction x arbitrary: y z)
  case (PTuple xs)
  then obtain ys zs where y: "y = PTuple ys" and z: "z = PTuple zs"
    and "list_all2 py_eq xs ys" "list_all2 py_eq ys zs"
    by (auto simp: list_all2_map_id split: pyval.splits)
  with PTuple.IH have "list_all2 py_eq xs zs"
    by (auto simp: list_all2_conv_all_nth)
  with z show ?case by (simp add: list_all2_map_id)
next
  case (PList xs)
  then obtain ys zs where y: "y = PList ys" and z: "z = PList zs"
    and "list_all2 py_eq xs ys" "list_all2 py_eq ys zs"
    by (auto simp: list_all2_map_id split: pyval.splits)
  with PList.IH have "list_all2 py_eq xs zs"
    by (auto simp: list_all2_conv_all_nth)
  with z show ?case by (simp add: list_all2_map_id)
qed (auto simp: num_of_def split: pyval.splits pyfloat.splits if_splits)

lemma py_eq_refl_exact: "\<not> is_float v \<Longrightarrow> (\<And>xs. v \<noteq> PTuple xs) \<Longrightarrow> (\<And>xs. v \<noteq> PList xs) \<Longrightarrow> py_eq v v"
  by (cases v) (auto simp: is_float_def)

end
