(* ===== verification/Template_Registry.thy ===== *)
theory Template_Registry
  imports Py_Values
begin

text \<open>
  The template registry (\<open>router/registry.py\<close>): the dictionary from normalised SQL to engine
  bindings with the sets of dirty tables and quarantined templates. An engine handle is a
  number (its object identity); the lock makes each operation one step. The locale
  \<open>binding_store\<close> is what the router relies on; the registry interprets it.
\<close>

section \<open>Data\<close>

record column_spec =
  col_name :: string
  col_type :: string

record placeholder_spec =
  ph_name :: string
  ph_type :: string
  ph_prefix :: string
  ph_suffix :: string
  ph_group :: int

definition plain_placeholder :: "string \<Rightarrow> string \<Rightarrow> placeholder_spec" where
  "plain_placeholder n t =
     \<lparr>ph_name = n, ph_type = t, ph_prefix = '''', ph_suffix = '''', ph_group = -1\<rparr>"

type_synonym engine_ref = nat

record engine_binding =
  template_id :: string
  normalized_sql :: string
  query_id :: string
  engine_id :: string
  placeholders :: "placeholder_spec list"
  output_schema :: "column_spec list"
  tables :: "string set"
  schema_fingerprint :: string
  scale_factor :: "pyfloat option"
  storage_mode :: string
  engine :: "engine_ref option"
  template_sql :: "string option"

definition runnable :: "engine_binding \<Rightarrow> bool" where
  "runnable b \<longleftrightarrow> engine b \<noteq> None"

record registry =
  by_norm :: "(string \<times> engine_binding) list"
  dirty_tables :: "string set"
  quarantined :: "string set"

definition empty_registry :: registry where
  "empty_registry = \<lparr>by_norm = [], dirty_tables = {}, quarantined = {}\<rparr>"

section \<open>Operations\<close>

definition reg_register :: "engine_binding \<Rightarrow> registry \<Rightarrow> registry" where
  "reg_register b r = r\<lparr>by_norm := AList.update (normalized_sql b) b (by_norm r)\<rparr>"

text \<open>Whether \<open>register\<close> warns that a different binding loses its key.\<close>

definition reg_collision :: "engine_binding \<Rightarrow> registry \<Rightarrow> bool" where
  "reg_collision b r = (case map_of (by_norm r) (normalized_sql b) of
     None \<Rightarrow> False | Some prior \<Rightarrow> template_id prior \<noteq> template_id b)"

definition reg_unregister :: "string \<Rightarrow> registry \<Rightarrow> registry" where
  "reg_unregister k r = r\<lparr>by_norm := AList.delete k (by_norm r)\<rparr>"

definition reg_len :: "registry \<Rightarrow> nat" where
  "reg_len r = length (by_norm r)"

definition reg_bindings :: "registry \<Rightarrow> engine_binding list" where
  "reg_bindings r = map snd (by_norm r)"

definition reg_match :: "registry \<Rightarrow> string \<Rightarrow> engine_binding option" where
  "reg_match r k = (case map_of (by_norm r) k of
     None \<Rightarrow> None
   | Some b \<Rightarrow> if template_id b \<in> quarantined r then None else Some b)"

definition reg_quarantined_binding :: "registry \<Rightarrow> string \<Rightarrow> engine_binding option" where
  "reg_quarantined_binding r k = (case map_of (by_norm r) k of
     None \<Rightarrow> None
   | Some b \<Rightarrow> if template_id b \<in> quarantined r then Some b else None)"

definition reg_mark_dirty :: "string list \<Rightarrow> registry \<Rightarrow> registry" where
  "reg_mark_dirty ts r = r\<lparr>dirty_tables := dirty_tables r \<union> set (map py_lower ts)\<rparr>"

definition reg_clear_dirty :: "string set option \<Rightarrow> registry \<Rightarrow> registry" where
  "reg_clear_dirty ts r = (case ts of
     None \<Rightarrow> r\<lparr>dirty_tables := {}\<rparr>
   | Some ts \<Rightarrow> r\<lparr>dirty_tables := dirty_tables r - py_lower ` ts\<rparr>)"

definition reg_is_dirty :: "registry \<Rightarrow> engine_binding \<Rightarrow> bool" where
  "reg_is_dirty r b \<longleftrightarrow> (\<exists>t \<in> tables b. py_lower t \<in> dirty_tables r)"

definition reg_quarantine :: "string \<Rightarrow> registry \<Rightarrow> registry" where
  "reg_quarantine t r = r\<lparr>quarantined := insert t (quarantined r)\<rparr>"

definition reg_is_quarantined :: "registry \<Rightarrow> string \<Rightarrow> bool" where
  "reg_is_quarantined r t \<longleftrightarrow> t \<in> quarantined r"

definition reg_reset_quarantine :: "string option \<Rightarrow> registry \<Rightarrow> registry" where
  "reg_reset_quarantine t r = (case t of
     None \<Rightarrow> r\<lparr>quarantined := {}\<rparr>
   | Some t \<Rightarrow> r\<lparr>quarantined := quarantined r - {t}\<rparr>)"

record registry_stats =
  st_templates :: nat
  st_dirty_tables :: "string list"
  st_quarantined :: "string list"

definition reg_stats :: "registry \<Rightarrow> registry_stats" where
  "reg_stats r = \<lparr>st_templates = length (by_norm r),
     st_dirty_tables = sorted_list_of_set (dirty_tables r),
     st_quarantined = sorted_list_of_set (quarantined r)\<rparr>"

lemmas reg_defs = reg_register_def reg_unregister_def reg_mark_dirty_def reg_clear_dirty_def
  reg_quarantine_def reg_reset_quarantine_def

section \<open>The interface the router uses\<close>

locale binding_store =
  fixes lookup :: "'s \<Rightarrow> string \<Rightarrow> 'b option"
    and add :: "'b \<Rightarrow> 's \<Rightarrow> 's"
    and sideline :: "string \<Rightarrow> 's \<Rightarrow> 's"
    and sidelined :: "'s \<Rightarrow> string set"
    and ident :: "'b \<Rightarrow> string"
    and key :: "'b \<Rightarrow> string"
  assumes lookup_add: "lookup (add b s) k =
      (if k = key b then (if ident b \<in> sidelined s then None else Some b) else lookup s k)"
    and sidelined_add: "sidelined (add b s) = sidelined s"
    and lookup_sideline: "lookup (sideline t s) k =
      (case lookup s k of None \<Rightarrow> None | Some b \<Rightarrow> if ident b = t then None else Some b)"
    and sidelined_sideline: "sidelined (sideline t s) = insert t (sidelined s)"
    and lookup_not_sidelined: "lookup s k = Some b \<Longrightarrow> ident b \<notin> sidelined s"
begin

lemma lookup_sidelined_None:
  "t \<in> sidelined s \<Longrightarrow> lookup s k = Some b \<Longrightarrow> ident b \<noteq> t"
  using lookup_not_sidelined by blast

lemma lookup_add_same: "ident b \<notin> sidelined s \<Longrightarrow> lookup (add b s) (key b) = Some b"
  by (simp add: lookup_add)

lemma fold_add_sidelined: "sidelined (fold add bs s) = sidelined s"
  by (induction bs arbitrary: s) (simp_all add: sidelined_add)

lemma sticky:
  "lookup (fold add bs (sideline t s)) k = Some b \<Longrightarrow> ident b \<noteq> t"
  using lookup_not_sidelined [of "fold add bs (sideline t s)" k b]
  by (auto simp: fold_add_sidelined sidelined_sideline)

end

interpretation reg: binding_store reg_match reg_register reg_quarantine quarantined
    template_id normalized_sql
  by unfold_locales (auto simp: reg_match_def reg_defs split: option.splits if_splits)

section \<open>Invariant\<close>

text \<open>Every key is its binding's normalised SQL, keys are distinct, dirty names lower-case.\<close>

definition registry_inv :: "registry \<Rightarrow> bool" where
  "registry_inv r \<longleftrightarrow>
     distinct (map fst (by_norm r)) \<and>
     (\<forall>(k, b) \<in> set (by_norm r). normalized_sql b = k) \<and>
     finite (dirty_tables r) \<and> finite (quarantined r) \<and>
     (\<forall>t \<in> dirty_tables r. py_lower t = t)"

datatype registry_op =
    Register engine_binding
  | Unregister string
  | MarkDirty "string list"
  | ClearDirty "string set option"
  | Quarantine string
  | ResetQuarantine "string option"

fun registry_step :: "registry \<Rightarrow> registry_op \<Rightarrow> registry" where
  "registry_step r (Register b) = reg_register b r"
| "registry_step r (Unregister k) = reg_unregister k r"
| "registry_step r (MarkDirty ts) = reg_mark_dirty ts r"
| "registry_step r (ClearDirty ts) = reg_clear_dirty ts r"
| "registry_step r (Quarantine t) = reg_quarantine t r"
| "registry_step r (ResetQuarantine t) = reg_reset_quarantine t r"

definition registry_run :: "registry \<Rightarrow> registry_op list \<Rightarrow> registry" where
  "registry_run r ops = foldl registry_step r ops"

lemma registry_inv_empty: "registry_inv empty_registry"
  by (simp add: registry_inv_def empty_registry_def)

lemma registry_inv_register: "registry_inv r \<Longrightarrow> registry_inv (reg_register b r)"
  using dict_update_mem [of _ _ "normalized_sql b" b "by_norm r"]
  by (fastforce simp: registry_inv_def reg_register_def distinct_update)

lemma registry_inv_unregister: "registry_inv r \<Longrightarrow> registry_inv (reg_unregister k r)"
  by (auto simp: registry_inv_def reg_unregister_def distinct_delete
      dest: dict_delete_mem)

lemma registry_step_inv: "registry_inv r \<Longrightarrow> registry_inv (registry_step r x)"
proof (cases x)
  case (Register b)
  then show "registry_inv r \<Longrightarrow> ?thesis" by (simp add: registry_inv_register)
next
  case (Unregister k)
  then show "registry_inv r \<Longrightarrow> ?thesis" by (simp add: registry_inv_unregister)
qed (auto simp: registry_inv_def reg_defs split: option.splits)

lemma registry_inv_map_of:
  "registry_inv r \<Longrightarrow> map_of (by_norm r) k = Some b \<Longrightarrow> normalized_sql b = k"
  by (auto simp: registry_inv_def dest: map_of_mem)

lemma reg_match_Some:
  "reg_match r k = Some b \<longleftrightarrow> map_of (by_norm r) k = Some b \<and> template_id b \<notin> quarantined r"
  by (auto simp: reg_match_def split: option.splits if_splits)

lemma reg_match_in_bindings: "reg_match r k = Some b \<Longrightarrow> b \<in> set (reg_bindings r)"
  by (force simp: reg_match_Some reg_bindings_def dest: map_of_mem)

lemma reg_len_0_match: "reg_len r = 0 \<Longrightarrow> reg_match r k = None"
  by (simp add: reg_len_def reg_match_def)

lemma quarantined_step:
  "t \<in> quarantined r \<Longrightarrow> x \<noteq> ResetQuarantine None \<Longrightarrow> x \<noteq> ResetQuarantine (Some t) \<Longrightarrow>
   t \<in> quarantined (registry_step r x)"
  by (cases x) (auto simp: reg_defs split: option.splits)

lemma reg_is_dirty_mark:
  "reg_is_dirty (reg_mark_dirty ts r) b \<longleftrightarrow>
     reg_is_dirty r b \<or> (\<exists>t \<in> tables b. py_lower t \<in> py_lower ` set ts)"
  by (auto simp: reg_is_dirty_def reg_mark_dirty_def)

lemma reg_is_dirty_clear_tables [simp]:
  "\<not> reg_is_dirty (reg_clear_dirty (Some (tables b)) r) b"
  by (auto simp: reg_is_dirty_def reg_clear_dirty_def)

lemma reg_clear_dirty_by_norm [simp]: "by_norm (reg_clear_dirty ts r) = by_norm r"
  by (simp add: reg_clear_dirty_def split: option.splits)

lemma reg_clear_dirty_quarantined [simp]: "quarantined (reg_clear_dirty ts r) = quarantined r"
  by (simp add: reg_clear_dirty_def split: option.splits)

section \<open>Properties\<close>

text \<open>
  Any sequence of registry operations from the empty registry keeps the registry well
  formed: one binding per structural key, stored under its own key, finite state sets, dirty
  tables in lower case.
\<close>

theorem registry_run_inv: "registry_inv (registry_run empty_registry ops)"
proof -
  have "registry_inv r \<Longrightarrow> registry_inv (foldl registry_step r ops)" for r
    by (induction ops arbitrary: r) (simp_all add: registry_step_inv)
  then show ?thesis by (simp add: registry_run_def registry_inv_empty)
qed

text \<open>
  Quarantine is sticky: once a template is quarantined, no sequence of registrations,
  removals, dirty marks, dirty resets and further quarantines makes \<open>match\<close> return a binding
  of that template again; only a reset of the quarantine does.
\<close>

theorem quarantine_sticky:
  assumes "t \<in> quarantined r"
    and "\<forall>x \<in> set ops. x \<noteq> ResetQuarantine None \<and> x \<noteq> ResetQuarantine (Some t)"
    and "reg_match (registry_run r ops) k = Some b"
  shows "template_id b \<noteq> t"
proof -
  have "t \<in> quarantined (foldl registry_step r ops)"
    using assms(1,2) by (induction ops arbitrary: r) (simp_all add: quarantined_step)
  with assms(3) show ?thesis
    by (auto simp: registry_run_def dest: reg.lookup_not_sidelined)
qed

definition demo_binding :: "string \<Rightarrow> string \<Rightarrow> engine_binding" where
  "demo_binding t k =
     \<lparr>template_id = t, normalized_sql = k, query_id = ''1'', engine_id = ''eng'',
      placeholders = [], output_schema = [], tables = {''t''}, schema_fingerprint = ''fp'',
      scale_factor = None, storage_mode = ''flat'', engine = Some 0, template_sql = None\<rparr>"

theorem quarantine_sticky_witness:
  "reg_match (registry_run (reg_quarantine ''x'' empty_registry)
      [Register (demo_binding ''x'' ''k''), Register (demo_binding ''y'' ''k'')]) ''k''
     = Some (demo_binding ''y'' ''k'') \<and> template_id (demo_binding ''y'' ''k'') \<noteq> ''x''"
proof -
  let ?r = "registry_run (reg_quarantine ''x'' empty_registry)
      [Register (demo_binding ''x'' ''k''), Register (demo_binding ''y'' ''k'')]"
  have m: "reg_match ?r ''k'' = Some (demo_binding ''y'' ''k'')"
    by (simp add: registry_run_def reg_defs reg_match_def demo_binding_def empty_registry_def)
  show ?thesis
    using m quarantine_sticky [OF _ _ m, of "''x''"] by (simp add: reg_quarantine_def)
qed

text \<open>
  Dirtiness is exactly case-insensitive overlap: after marking tables, a binding is dirty
  iff it was or it reads one of the marked tables up to case, and clearing the binding's own
  tables makes it clean whatever was marked before.
\<close>

theorem dirty_exact:
  "(reg_is_dirty (reg_mark_dirty ts r) b \<longleftrightarrow>
      reg_is_dirty r b \<or> (\<exists>t \<in> tables b. \<exists>u \<in> set ts. py_lower t = py_lower u))
   \<and> \<not> reg_is_dirty (reg_clear_dirty (Some (tables b)) (reg_mark_dirty ts r)) b"
  by (auto simp: reg_is_dirty_mark)

end
