(* ===== verification/Placeholder_Binding.thy ===== *)
theory Placeholder_Binding
  imports Template_Registry
begin

text \<open>
  Binding groups and string-embedded parameters (\<open>binding_groups\<close>, \<open>split_literal\<close>,
  \<open>merge_split\<close> and \<open>_loose_eq\<close> of \<open>router/normalize.py\<close>). A group is the list of specs that
  share one \<open>?\<close>; its bound literal carries the constants of the specs around the parameters.
\<close>

section \<open>Loose equality\<close>

record py_fmt =
  frepr :: "pyfloat \<Rightarrow> string"
  drepr :: "int \<Rightarrow> string"

definition loose_eq :: "py_fmt \<Rightarrow> pyval \<Rightarrow> pyval \<Rightarrow> bool" where
  "loose_eq fmt a b \<longleftrightarrow> py_eq a b \<or> py_str (frepr fmt) (drepr fmt) a = py_str (frepr fmt) (drepr fmt) b"

lemma loose_eq_refl [simp]: "loose_eq fmt a a"
  by (simp add: loose_eq_def)

lemma loose_eq_sym: "loose_eq fmt a b \<Longrightarrow> loose_eq fmt b a"
  by (auto simp: loose_eq_def dest: py_eq_sym)

section \<open>Binding groups\<close>

definition add_to_groups ::
  "placeholder_spec list list \<Rightarrow> placeholder_spec \<Rightarrow> placeholder_spec list list" where
  "add_to_groups groups s =
     (if 0 \<le> ph_group s \<and> groups \<noteq> [] \<and> ph_group (hd (last groups)) = ph_group s
      then butlast groups @ [last groups @ [s]]
      else groups @ [[s]])"

definition binding_groups :: "placeholder_spec list \<Rightarrow> placeholder_spec list list" where
  "binding_groups specs = foldl add_to_groups [] specs"

section \<open>Splitting one literal\<close>

definition is_wildcard :: "char \<Rightarrow> bool" where
  "is_wildcard c \<longleftrightarrow> c = CHR ''%'' \<or> c = CHR ''_''"

text \<open>
  \<open>re.fullmatch("([^%_]*)".join(escaped consts), value)\<close>: each core is greedy and backtracks to
  shorter runs until the rest matches.
\<close>

fun first_match :: "(nat \<Rightarrow> 'a option) \<Rightarrow> nat \<Rightarrow> 'a option" where
  "first_match f 0 = f 0"
| "first_match f (Suc k) = (case f (Suc k) of Some x \<Rightarrow> Some x | None \<Rightarrow> first_match f k)"

fun match_cores :: "string list \<Rightarrow> string \<Rightarrow> string list option" where
  "match_cores [] v = None"
| "match_cores [c] v = (if v = c then Some [] else None)"
| "match_cores (c # d # cs) v =
     (if py_startswith v c then
        (let rest = drop (length c) v;
             run = length (takeWhile (\<lambda>x. \<not> is_wildcard x) rest)
         in first_match (\<lambda>k. map_option (\<lambda>cores. take k rest # cores)
                               (match_cores (d # cs) (drop k rest))) run)
      else None)"

definition group_consts :: "placeholder_spec list \<Rightarrow> string list" where
  "group_consts g = ph_prefix (hd g) # map ph_suffix g"

text \<open>The loop that gathers the cores by name, refusing two different cores for one name.\<close>

fun gather_cores ::
  "(string \<times> string) list \<Rightarrow> (string \<times> pyval) list \<Rightarrow> (string \<times> pyval) list option" where
  "gather_cores [] out = Some out"
| "gather_cores ((n, core) # ps) out =
     (case map_of out n of
        Some v \<Rightarrow> if v \<noteq> PStr core then None
                  else gather_cores ps (AList.update n (PStr core) out)
      | None \<Rightarrow> gather_cores ps (AList.update n (PStr core) out))"

definition split_literal :: "pyval \<Rightarrow> placeholder_spec list \<Rightarrow> (string \<times> pyval) list option" where
  "split_literal v g =
     (if length g = 1 \<and> ph_prefix (hd g) = [] \<and> ph_suffix (hd g) = [] then Some [(ph_name (hd g), v)]
      else (case v of
          PStr s \<Rightarrow>
            (case match_cores (group_consts g) s of
               None \<Rightarrow> None
             | Some cores \<Rightarrow> gather_cores (zip (map ph_name g) cores) [])
        | _ \<Rightarrow> None))"

section \<open>Merging the groups\<close>

fun merge_parts ::
  "py_fmt \<Rightarrow> (string \<times> pyval) list \<Rightarrow> (string \<times> pyval) list \<Rightarrow> (string \<times> pyval) list option" where
  "merge_parts fmt [] out = Some out"
| "merge_parts fmt ((n, v) # ps) out =
     (case map_of out n of
        Some w \<Rightarrow> if \<not> loose_eq fmt w v then None else merge_parts fmt ps (AList.update n v out)
      | None \<Rightarrow> merge_parts fmt ps (AList.update n v out))"

fun merge_groups ::
  "py_fmt \<Rightarrow> (placeholder_spec list \<times> pyval) list \<Rightarrow> (string \<times> pyval) list
     \<Rightarrow> (string \<times> pyval) list option" where
  "merge_groups fmt [] out = Some out"
| "merge_groups fmt ((g, v) # gs) out =
     (case split_literal v g of
        None \<Rightarrow> None
      | Some parts \<Rightarrow>
          (case merge_parts fmt parts out of
             None \<Rightarrow> None
           | Some out' \<Rightarrow> merge_groups fmt gs out'))"

definition merge_split ::
  "py_fmt \<Rightarrow> placeholder_spec list list \<Rightarrow> pyval list \<Rightarrow> (string \<times> pyval) list option" where
  "merge_split fmt groups vals = merge_groups fmt (zip groups vals) []"

section \<open>Lemmas: groups\<close>

lemma add_to_groups_concat [simp]: "concat (add_to_groups gs s) = concat gs @ [s]"
  by (cases gs rule: rev_cases) (auto simp: add_to_groups_def)

lemma foldl_groups_concat: "concat (foldl add_to_groups gs ss) = concat gs @ ss"
  by (induction ss arbitrary: gs) auto

lemma foldl_groups_nonempty: "[] \<notin> set gs \<Longrightarrow> [] \<notin> set (foldl add_to_groups gs ss)"
proof (induction ss arbitrary: gs)
  case (Cons s ss)
  have "[] \<notin> set (add_to_groups gs s)"
    using Cons.prems by (auto simp: add_to_groups_def dest: in_set_butlastD)
  then show ?case using Cons.IH by simp
qed simp

definition group_ok :: "placeholder_spec list \<Rightarrow> bool" where
  "group_ok g \<longleftrightarrow> g \<noteq> [] \<and> (length g = 1 \<or> 0 \<le> ph_group (hd g))
     \<and> list_all (\<lambda>s. ph_group s = ph_group (hd g)) g"

lemma add_to_groups_ok: "list_all group_ok gs \<Longrightarrow> list_all group_ok (add_to_groups gs s)"
  by (cases gs rule: rev_cases) (auto simp: add_to_groups_def group_ok_def)

lemma foldl_groups_ok: "list_all group_ok gs \<Longrightarrow> list_all group_ok (foldl add_to_groups gs ss)"
  by (induction ss arbitrary: gs) (auto simp: add_to_groups_ok)

lemma binding_groups_all_plain:
  "list_all (\<lambda>s. ph_group s = -1) ss \<Longrightarrow> binding_groups ss = map (\<lambda>s. [s]) ss"
proof -
  have "list_all (\<lambda>s. ph_group s = -1) ss \<Longrightarrow> foldl add_to_groups gs ss = gs @ map (\<lambda>s. [s]) ss"
    for gs
    by (induction ss arbitrary: gs) (auto simp: add_to_groups_def)
  then show "list_all (\<lambda>s. ph_group s = -1) ss \<Longrightarrow> ?thesis" by (simp add: binding_groups_def)
qed

section \<open>Lemmas: matching cores\<close>

text \<open>A literal with the constants around the cores, the encoder of \<open>match_cores\<close>.\<close>

fun embed_cores :: "string list \<Rightarrow> string list \<Rightarrow> string" where
  "embed_cores (c # cs) (x # xs) = c @ x @ embed_cores cs xs"
| "embed_cores cs xs = concat cs"

lemma first_match_Some: "first_match f n = Some x \<Longrightarrow> \<exists>k \<le> n. f k = Some x"
  by (induction n) (auto split: option.splits simp: le_Suc_eq)

lemma first_match_None: "first_match f n = None \<Longrightarrow> k \<le> n \<Longrightarrow> f k = None"
  by (induction n) (auto split: option.splits simp: le_Suc_eq)

lemma take_run_no_wildcard:
  "k \<le> length (takeWhile (\<lambda>x. \<not> P x) xs) \<Longrightarrow> list_all (\<lambda>x. \<not> P x) (take k xs)"
  by (metis list_all_iff set_take_subset_set_take set_takeWhileD subset_iff takeWhile_eq_take take_take min.absorb1)

lemma match_cores_sound:
  "match_cores cs v = Some cores \<Longrightarrow>
   embed_cores cs cores = v \<and> length cs = Suc (length cores) \<and>
   list_all (list_all (\<lambda>x. \<not> is_wildcard x)) cores"
proof (induction cs v arbitrary: cores rule: match_cores.induct)
  case (3 c d cs v)
  let ?rest = "drop (length c) v"
  from "3.prems" have st: "py_startswith v c" by (simp split: if_splits)
  with "3.prems" obtain k where k: "k \<le> length (takeWhile (\<lambda>x. \<not> is_wildcard x) ?rest)"
    and "map_option (\<lambda>cores. take k ?rest # cores) (match_cores (d # cs) (drop k ?rest)) = Some cores"
    by (auto simp: Let_def dest: first_match_Some)
  then obtain cores' where c': "match_cores (d # cs) (drop k ?rest) = Some cores'"
    and cores: "cores = take k ?rest # cores'"
    by auto
  note ih = "3.IH" [OF st refl refl c']
  have "v = c @ take k ?rest @ drop k ?rest"
    using st by (metis append_take_drop_id py_startswith_def)
  then show ?case
    using ih cores take_run_no_wildcard [OF k] by (simp del: drop_drop)
qed (auto split: if_splits)

lemma match_cores_complete:
  "list_all (list_all (\<lambda>x. \<not> is_wildcard x)) cores \<Longrightarrow> length cs = Suc (length cores) \<Longrightarrow>
   \<exists>cores'. match_cores cs (embed_cores cs cores) = Some cores'"
proof (induction cores arbitrary: cs)
  case Nil
  then obtain c where "cs = [c]" by (cases cs) auto
  then show ?case by simp
next
  case (Cons x xs)
  from Cons.prems(2) obtain c d ds where cs: "cs = c # d # ds"
    by (cases cs; cases "tl cs") auto
  let ?rest = "x @ embed_cores (d # ds) xs"
  let ?f = "\<lambda>k. map_option (\<lambda>cores. take k ?rest # cores) (match_cores (d # ds) (drop k ?rest))"
  let ?n = "length (takeWhile (\<lambda>x. \<not> is_wildcard x) ?rest)"
  have le: "length x \<le> ?n"
    using Cons.prems(1) by (simp add: takeWhile_append list_all_iff)
  obtain cores' where "match_cores (d # ds) (embed_cores (d # ds) xs) = Some cores'"
    using Cons.IH [of "d # ds"] Cons.prems cs by auto
  then have found: "?f (length x) \<noteq> None" by simp
  have "first_match ?f ?n \<noteq> None"
  proof
    assume "first_match ?f ?n = None"
    then have "?f (length x) = None" using le by (rule first_match_None)
    with found show False by contradiction
  qed
  moreover have "match_cores cs (embed_cores cs (x # xs)) =
      first_match ?f ?n"
    by (simp only: cs embed_cores.simps match_cores.simps py_startswith_def Let_def
        append_eq_conv_conj) simp
  ultimately show ?case by (simp only: not_None_eq)
qed

text \<open>When every constant between two parameters holds a wildcard, the split is unique.\<close>

lemma no_wildcard_prefix_unique:
  "list_all (\<lambda>x. \<not> is_wildcard x) a \<Longrightarrow> list_all (\<lambda>x. \<not> is_wildcard x) b \<Longrightarrow>
   list_ex is_wildcard w \<Longrightarrow> a @ w @ s = b @ w @ t \<Longrightarrow> a = b"
proof (induction a arbitrary: b)
  case Nil
  show ?case
  proof (cases b)
    case (Cons y ys)
    let ?n = "length (takeWhile (\<lambda>x. \<not> is_wildcard x) w)"
    have eq: "w @ s = b @ w @ t" using Nil by simp
    have run: "takeWhile (\<lambda>x. \<not> is_wildcard x) (w @ u) = takeWhile (\<lambda>x. \<not> is_wildcard x) w" for u
      using Nil.prems(3) by (auto simp: takeWhile_append list_ex_iff)
    have "takeWhile (\<lambda>x. \<not> is_wildcard x) (b @ w @ t) = b @ takeWhile (\<lambda>x. \<not> is_wildcard x) w"
      using Nil.prems(2) run by (simp add: takeWhile_append2 list_all_iff)
    with run [of s] eq have "takeWhile (\<lambda>x. \<not> is_wildcard x) w = b @ takeWhile (\<lambda>x. \<not> is_wildcard x) w"
      by simp
    then show ?thesis by simp
  qed simp
next
  case (Cons x xs)
  show ?case
  proof (cases b)
    case Nil
    let ?tw = "takeWhile (\<lambda>x. \<not> is_wildcard x)"
    have run: "?tw (w @ u) = ?tw w" for u
      using Cons.prems(3) by (auto simp: takeWhile_append list_ex_iff)
    have "?tw ((x # xs) @ w @ s) = (x # xs) @ ?tw w"
      using Cons.prems(1) run by (simp add: takeWhile_append2 list_all_iff)
    with Cons.prems(4) Nil run [of t] have "?tw w = (x # xs) @ ?tw w" by simp
    then show ?thesis by simp
  next
    case (Cons y ys)
    with Cons.prems Cons.IH [of ys] show ?thesis by simp
  qed
qed

definition wild_between :: "string list \<Rightarrow> bool" where
  "wild_between cs \<longleftrightarrow> list_all (list_ex is_wildcard) (butlast (tl cs))"

lemma embed_cores_unique:
  "length cs = Suc (length xs) \<Longrightarrow> length cs = Suc (length ys) \<Longrightarrow> wild_between cs \<Longrightarrow>
   list_all (list_all (\<lambda>x. \<not> is_wildcard x)) xs \<Longrightarrow>
   list_all (list_all (\<lambda>x. \<not> is_wildcard x)) ys \<Longrightarrow>
   embed_cores cs xs = embed_cores cs ys \<Longrightarrow> xs = ys"
proof (induction xs arbitrary: cs ys)
  case (Cons x xs)
  from Cons.prems(1,2) obtain c d ds y ys' where cs: "cs = c # d # ds" and ys: "ys = y # ys'"
    by (cases cs; cases "tl cs"; cases ys) auto
  have tails: "length (d # ds) = Suc (length xs)" "length (d # ds) = Suc (length ys')"
    using Cons.prems(1,2) cs ys by auto
  show ?case
  proof (cases ds)
    case Nil
    with tails have "xs = []" "ys' = []" by auto
    with Cons.prems cs ys Nil show ?thesis by simp
  next
    case (Cons e es)
    have emb: "\<exists>u. embed_cores (d # ds) zs = d @ u" for zs
      by (cases zs) auto
    obtain u w where u: "embed_cores (d # ds) xs = d @ u" and w: "embed_cores (d # ds) ys' = d @ w"
      using emb by metis
    have wb: "list_ex is_wildcard d" "wild_between (d # ds)"
      using Cons.prems(3) cs Cons by (auto simp: wild_between_def)
    have "x @ d @ u = y @ d @ w"
      using Cons.prems(6) cs ys u w by simp
    with no_wildcard_prefix_unique [OF _ _ wb(1) this] Cons.prems(4,5) ys have xy: "x = y" by simp
    then have "embed_cores (d # ds) xs = embed_cores (d # ds) ys'"
      using Cons.prems(6) cs ys by simp
    from Cons.IH [OF tails wb(2) _ _ this] Cons.prems(4,5) ys xy show ?thesis by simp
  qed
qed simp

lemma match_cores_roundtrip:
  assumes "length cs = Suc (length cores)" and "wild_between cs"
    and "list_all (list_all (\<lambda>x. \<not> is_wildcard x)) cores"
  shows "match_cores cs (embed_cores cs cores) = Some cores"
proof -
  obtain cores' where m: "match_cores cs (embed_cores cs cores) = Some cores'"
    using match_cores_complete assms(1,3) by blast
  from match_cores_sound [OF m] have "cores' = cores"
    using assms embed_cores_unique [of cs cores' cores] by auto
  with m show ?thesis by simp
qed

section \<open>Lemmas: merging\<close>

lemma gather_cores_map:
  "gather_cores ps out = Some r \<Longrightarrow>
   (\<forall>(n, core) \<in> set ps. map_of r n = Some (PStr core)) \<and>
   (\<forall>n v. map_of out n = Some v \<longrightarrow> map_of r n = Some v)"
proof (induction ps out rule: gather_cores.induct)
  case (2 n core ps out)
  have new: "map_of out n = None \<or> map_of out n = Some (PStr core)"
    using "2.prems" by (auto split: option.splits if_splits)
  have ih: "(\<forall>(n, core) \<in> set ps. map_of r n = Some (PStr core)) \<and>
      (\<forall>m v. ((map_of out)(n \<mapsto> PStr core)) m = Some v \<longrightarrow> map_of r m = Some v)"
  proof (cases "map_of out n")
    case None
    with "2.IH"(1) "2.prems" show ?thesis by simp
  next
    case (Some v)
    with "2.IH"(2) [of v] "2.prems" show ?thesis by (simp split: if_splits)
  qed
  then have "map_of r n = Some (PStr core)" by simp
  moreover have "map_of out m = Some v \<Longrightarrow> map_of r m = Some v" for m v
    using ih new by (cases "m = n") auto
  ultimately show ?case using ih by auto
qed auto

lemma gather_cores_distinct:
  "distinct (map fst ps) \<Longrightarrow> fst ` set ps \<inter> fst ` set out = {} \<Longrightarrow>
   gather_cores ps out = Some (out @ map (\<lambda>(n, c). (n, PStr c)) ps)"
proof (induction ps out rule: gather_cores.induct)
  case (2 n core ps out)
  then have n: "n \<notin> fst ` set out" by auto
  then have "map_of out n = None" by (simp add: map_of_eq_None_iff)
  moreover have "gather_cores ps (AList.update n (PStr core) out)
      = Some (AList.update n (PStr core) out @ map (\<lambda>(n, c). (n, PStr c)) ps)"
    using "2.prems" by (intro "2.IH"(1) [OF \<open>map_of out n = None\<close>]) (auto simp: dict_update_new [OF n])
  ultimately show ?case by (simp add: dict_update_new [OF n])
qed simp

section \<open>Properties\<close>

text \<open>
  Grouping is a partition in order: concatenating the groups gives back the specs, no group
  is empty, and a group of several specs shares one non-negative group id.
\<close>

theorem binding_groups_partition:
  "concat (binding_groups specs) = specs \<and> list_all group_ok (binding_groups specs)"
  using foldl_groups_concat [of "[]" specs] foldl_groups_ok [of "[]" specs]
  by (simp add: binding_groups_def)

text \<open>
  Splitting a literal inverts embedding: for a group of distinctly named parameters whose
  inner delimiters each hold a wildcard, and any wildcard-free cores, the literal built from the
  constants around the cores splits back into exactly those cores.
\<close>

theorem split_literal_roundtrip:
  assumes "g \<noteq> []" and "length cores = length g" and "distinct (map ph_name g)"
    and "wild_between (group_consts g)" and "list_all (list_all (\<lambda>x. \<not> is_wildcard x)) cores"
    and "\<not> (length g = 1 \<and> ph_prefix (hd g) = [] \<and> ph_suffix (hd g) = [])"
  shows "split_literal (PStr (embed_cores (group_consts g) cores)) g
       = Some (zip (map ph_name g) (map PStr cores))"
proof -
  have len: "length (group_consts g) = Suc (length cores)"
    using assms(2) by (simp add: group_consts_def)
  have "match_cores (group_consts g) (embed_cores (group_consts g) cores) = Some cores"
    using len assms(4,5) by (rule match_cores_roundtrip)
  moreover have "gather_cores (zip (map ph_name g) cores) [] =
      Some (map (\<lambda>(n, c). (n, PStr c)) (zip (map ph_name g) cores))"
    using gather_cores_distinct [of "zip (map ph_name g) cores" "[]"] assms(2,3) by simp
  ultimately show ?thesis
    using assms(6) by (auto simp: split_literal_def zip_map2)
qed

definition q13_group :: "placeholder_spec list" where
  "q13_group =
     [\<lparr>ph_name = ''WORD1'', ph_type = ''VARCHAR'', ph_prefix = ''%'', ph_suffix = ''%'', ph_group = 0\<rparr>,
      \<lparr>ph_name = ''WORD2'', ph_type = ''VARCHAR'', ph_prefix = ''%'', ph_suffix = ''%'', ph_group = 0\<rparr>]"

theorem split_literal_roundtrip_witness:
  "split_literal (PStr ''%special%requests%'') q13_group
     = Some [(''WORD1'', PStr ''special''), (''WORD2'', PStr ''requests'')]"
  using split_literal_roundtrip [of q13_group "[''special'', ''requests'']"]
  by (simp add: q13_group_def group_consts_def wild_between_def is_wildcard_def)

text \<open>
  A literal is bound only when it carries the constants: a successful split returns cores
  without wildcards whose embedding between the group's constants is the literal itself, so a
  look-alike literal (a missing affix, a pattern inside a core) never binds.
\<close>

theorem split_literal_sound:
  assumes "split_literal v g = Some parts"
    and "\<not> (length g = 1 \<and> ph_prefix (hd g) = [] \<and> ph_suffix (hd g) = [])"
  shows "\<exists>s cores. v = PStr s \<and> embed_cores (group_consts g) cores = s
      \<and> length cores = length g \<and> list_all (list_all (\<lambda>x. \<not> is_wildcard x)) cores
      \<and> list_all (\<lambda>(n, c). map_of parts n = Some (PStr c)) (zip (map ph_name g) cores)"
proof -
  from assms obtain s cores where v: "v = PStr s"
    and m: "match_cores (group_consts g) s = Some cores"
    and gather: "gather_cores (zip (map ph_name g) cores) [] = Some parts"
    by (auto simp: split_literal_def split: pyval.splits option.splits)
  from match_cores_sound [OF m] have "embed_cores (group_consts g) cores = s"
    "length cores = length g" "list_all (list_all (\<lambda>x. \<not> is_wildcard x)) cores"
    by (simp_all add: group_consts_def)
  moreover have "list_all (\<lambda>(n, c). map_of parts n = Some (PStr c)) (zip (map ph_name g) cores)"
    using gather_cores_map [OF gather] by (simp add: list_all_iff)
  ultimately show ?thesis using v by blast
qed

theorem split_literal_sound_witness:
  "\<exists>s cores. PStr ''%a%b%'' = PStr s \<and> embed_cores (group_consts q13_group) cores = s
      \<and> length cores = length q13_group \<and> list_all (list_all (\<lambda>x. \<not> is_wildcard x)) cores
      \<and> list_all (\<lambda>(n, c). map_of [(''WORD1'', PStr ''a''), (''WORD2'', PStr ''b'')] n = Some (PStr c))
          (zip (map ph_name q13_group) cores)"
proof -
  have "split_literal (PStr ''%a%b%'') q13_group = Some [(''WORD1'', PStr ''a''), (''WORD2'', PStr ''b'')]"
    by code_simp
  from split_literal_sound [OF this] show ?thesis by (simp add: q13_group_def)
qed

text \<open>
  C29. Outside the wildcard-delimiter case the split is not determined by the literal: with the
  delimiter \<open>-\<close>, two different pairs of wildcard-free words give the same literal and the greedy
  split returns only one of them.
\<close>

definition dash_group :: "placeholder_spec list" where
  "dash_group =
     [\<lparr>ph_name = ''A'', ph_type = ''VARCHAR'', ph_prefix = '''', ph_suffix = ''-'', ph_group = 0\<rparr>,
      \<lparr>ph_name = ''B'', ph_type = ''VARCHAR'', ph_prefix = ''-'', ph_suffix = '''', ph_group = 0\<rparr>]"

theorem split_ambiguous_delimiter:
  "embed_cores (group_consts dash_group) [''1'', ''2-3''] = embed_cores (group_consts dash_group) [''1-2'', ''3'']
   \<and> split_literal (PStr (embed_cores (group_consts dash_group) [''1'', ''2-3''])) dash_group
       = Some [(''A'', PStr ''1-2''), (''B'', PStr ''3'')]"
  by code_simp

end
