(* ===== verification/Sql_Tree.thy ===== *)
theory Sql_Tree
  imports Sql_Text Placeholder_Binding
begin

text \<open>
  The tree-based half of \<open>router/normalize.py\<close>. \<open>sqlglot\<close> is third-party: its parser,
  renderer, tokenizer, class hierarchy, traversals and tree equality are the fields of the
  record \<open>sqlglot\<close>, a parameter of every definition here. A tree node is its class name with
  its argument dictionary. \<open>render\<close> is \<open>node.sql(...)\<close> where the source does not guard it.
\<close>

section \<open>Trees\<close>

datatype node = Node (node_class: string) (node_args: "(string \<times> arg) list")
  and arg = ANode node | AList "arg list" | AStr string | ABool bool | ANone

record token =
  tok_type :: string
  tok_text :: string
  tok_start :: nat
  tok_end :: nat

record sqlglot =
  parse_one :: "string \<Rightarrow> node option"
  parse_all :: "string \<Rightarrow> node option list option"
  tokenize :: "string \<Rightarrow> token list option"
  render :: "node \<Rightarrow> string"
  render_guarded :: "node \<Rightarrow> string option"
  render_key :: "node \<Rightarrow> string option"
  is_subclass :: "string \<Rightarrow> string \<Rightarrow> bool"
  walk :: "node \<Rightarrow> node list"
  find_all :: "node \<Rightarrow> string \<Rightarrow> node list"
  tree_eq :: "node \<Rightarrow> node \<Rightarrow> bool"
  transform :: "(node \<Rightarrow> node) \<Rightarrow> node \<Rightarrow> node option"
  literal_to_py :: "node \<Rightarrow> pyval"
  name_of :: "node \<Rightarrow> string"
  table_of :: "node \<Rightarrow> string"
  alias_or_name :: "node \<Rightarrow> string"

definition isinstance :: "sqlglot \<Rightarrow> node \<Rightarrow> string \<Rightarrow> bool" where
  "isinstance L n c = is_subclass L (node_class n) c"

definition isinstance_any :: "sqlglot \<Rightarrow> node \<Rightarrow> string list \<Rightarrow> bool" where
  "isinstance_any L n cs = list_ex (isinstance L n) cs"

text \<open>\<open>node.args.get(k)\<close>, \<open>node.this\<close> and \<open>node.expressions\<close>.\<close>

definition get_arg :: "node \<Rightarrow> string \<Rightarrow> arg" where
  "get_arg n k = (case map_of (node_args n) k of Some a \<Rightarrow> a | None \<Rightarrow> ANone)"

definition arg_node :: "arg \<Rightarrow> node option" where
  "arg_node a = (case a of ANode n \<Rightarrow> Some n | _ \<Rightarrow> None)"

definition this_node :: "node \<Rightarrow> node option" where
  "this_node n = arg_node (get_arg n ''this'')"

definition node_list :: "arg \<Rightarrow> node list" where
  "node_list a = (case a of AList xs \<Rightarrow> List.map_filter arg_node xs | _ \<Rightarrow> [])"

definition expressions :: "node \<Rightarrow> node list" where
  "expressions n = node_list (get_arg n ''expressions'')"

definition set_arg :: "node \<Rightarrow> string \<Rightarrow> arg \<Rightarrow> node" where
  "set_arg n k a = Node (node_class n) (AList.update k a (node_args n))"

definition truthy_arg :: "arg \<Rightarrow> bool" where
  "truthy_arg a = (case a of ANone \<Rightarrow> False | ABool b \<Rightarrow> b | AStr s \<Rightarrow> s \<noteq> [] | AList xs \<Rightarrow> xs \<noteq> []
     | ANode n \<Rightarrow> True)"

abbreviation placeholder_node :: node where
  "placeholder_node \<equiv> Node ''Placeholder'' []"

definition unwrap_with :: "sqlglot \<Rightarrow> node \<Rightarrow> node option" where
  "unwrap_with L t = (if isinstance L t ''With'' then this_node t else Some t)"

section \<open>Statement classification\<close>

definition is_select :: "sqlglot \<Rightarrow> string \<Rightarrow> bool" where
  "is_select L sql = (case parse_one L sql of
     None \<Rightarrow> False
   | Some tree \<Rightarrow> isinstance_any L tree [''Select'', ''Union'', ''Subquery''] \<or>
       (isinstance L tree ''With'' \<and>
        (case this_node tree of None \<Rightarrow> False
         | Some t \<Rightarrow> isinstance_any L t [''Select'', ''Union''])))"

definition select_family :: "sqlglot \<Rightarrow> node \<Rightarrow> bool" where
  "select_family L stmt = (case unwrap_with L stmt of
     None \<Rightarrow> False | Some inner \<Rightarrow> isinstance_any L inner [''Select'', ''Union'', ''Subquery''])"

fun all_select :: "sqlglot \<Rightarrow> node option list \<Rightarrow> bool" where
  "all_select L [] = True"
| "all_select L (None # ss) = all_select L ss"
| "all_select L (Some s # ss) = (if \<not> select_family L s then False else all_select L ss)"

definition all_statements_are_select :: "sqlglot \<Rightarrow> string \<Rightarrow> bool" where
  "all_statements_are_select L sql = (case parse_all L sql of
     None \<Rightarrow> False | Some stmts \<Rightarrow> if stmts = [] then False else all_select L stmts)"

definition is_read_only_query :: "sqlglot \<Rightarrow> string \<Rightarrow> bool" where
  "is_read_only_query L sql = (case statement_kind sql of
     KWrite \<Rightarrow> False
   | KRead \<Rightarrow>
       (if leading_keyword sql = Some ''with'' \<or> has_multiple_statements sql
        then all_statements_are_select L sql else True)
   | KUnknown \<Rightarrow> is_select L sql)"

section \<open>The structural key\<close>

definition constant_classes :: "string list" where
  "constant_classes = [''Literal'', ''Boolean'', ''Null'', ''Parameter'', ''Placeholder'']"

text \<open>
  \<open>_placeholder\<close> either returns a new \<open>Placeholder\<close> or its own argument, an \<open>IN\<close> node with a
  constant member list mutated first. The test \<open>_placeholder(m) is not m\<close> on the members asks
  which of the two happens.
\<close>

definition is_child :: "sqlglot \<Rightarrow> node \<Rightarrow> string list \<Rightarrow> bool" where
  "is_child L n cs = (case this_node n of None \<Rightarrow> False | Some t \<Rightarrow> isinstance_any L t cs)"

text \<open>Whether \<open>_placeholder\<close> returns a new node rather than its argument.\<close>

definition replaced :: "sqlglot \<Rightarrow> node \<Rightarrow> bool" where
  "replaced L n \<longleftrightarrow>
     isinstance_any L n constant_classes
     \<or> (isinstance L n ''Cast'' \<and> is_child L n [''Literal'', ''Boolean'', ''Null'', ''Placeholder''])
     \<or> (isinstance L n ''Neg'' \<and> is_child L n [''Literal'', ''Placeholder''])"

definition placeholder_of :: "sqlglot \<Rightarrow> node \<Rightarrow> node" where
  "placeholder_of L n =
     (if replaced L n then placeholder_node
      else if isinstance L n ''In'' \<and>
        ((expressions n \<noteq> [] \<and> list_all (replaced L) (expressions n)) \<or>
         (case arg_node (get_arg n ''field'') of
            None \<Rightarrow> False | Some f \<Rightarrow> isinstance L f ''Placeholder''))
      then set_arg (set_arg n ''field'' ANone) ''expressions'' (AList [ANode placeholder_node])
      else n)"

definition normalize_sql :: "sqlglot \<Rightarrow> string \<Rightarrow> string option" where
  "normalize_sql L sql = (case parse_one L sql of
     None \<Rightarrow> None
   | Some tree \<Rightarrow>
       (case transform L (placeholder_of L) tree of
          None \<Rightarrow> None | Some t \<Rightarrow> render_key L t))"

section \<open>Exact-statement test\<close>

definition string_token_kinds :: "string list" where
  "string_token_kinds = [''STRING'', ''RAW_STRING'', ''NATIONAL_STRING'', ''BYTE_STRING'',
     ''HEREDOC_STRING'', ''UNICODE_STRING'']"

definition string_literal_tokens :: "sqlglot \<Rightarrow> string \<Rightarrow> (string \<times> string) list option" where
  "string_literal_tokens L sql = (case tokenize L sql of
     None \<Rightarrow> None
   | Some toks \<Rightarrow> Some (map (\<lambda>t. (tok_type t, tok_text t))
       (filter (\<lambda>t. tok_type t \<in> set string_token_kinds) toks)))"

definition same_statement :: "sqlglot \<Rightarrow> string \<Rightarrow> string \<Rightarrow> bool" where
  "same_statement L a b = (case (parse_one L a, parse_one L b) of
     (Some ta, Some tb) \<Rightarrow>
       (if \<not> tree_eq L ta tb then False
        else (case string_literal_tokens L a of
            None \<Rightarrow> False | Some toks \<Rightarrow> string_literal_tokens L b = Some toks))
   | _ \<Rightarrow> False)"

section \<open>Order, limit and offset of the top-level query\<close>

definition has_order_by :: "sqlglot \<Rightarrow> string \<Rightarrow> bool" where
  "has_order_by L sql = (case parse_one L sql of
     None \<Rightarrow> False
   | Some tree \<Rightarrow> (case unwrap_with L tree of
        None \<Rightarrow> False
      | Some t \<Rightarrow> isinstance L t ''Select'' \<and> truthy_arg (get_arg t ''order'')))"

definition literal_is_string :: "node \<Rightarrow> bool" where
  "literal_is_string n = truthy_arg (get_arg n ''is_string'')"

definition literal_text :: "node \<Rightarrow> string option" where
  "literal_text n = (case get_arg n ''this'' of AStr s \<Rightarrow> Some s | _ \<Rightarrow> None)"

definition literal_int :: "node \<Rightarrow> int option" where
  "literal_int n = (case literal_text n of None \<Rightarrow> None | Some s \<Rightarrow> py_int_of_str s)"

text \<open>The index one \<open>ORDER BY\<close> key resolves to; \<open>None\<close> makes the caller compare strictly.\<close>

definition order_key_index :: "sqlglot \<Rightarrow> string list \<Rightarrow> node \<Rightarrow> nat option" where
  "order_key_index L lower key =
     (if isinstance L key ''Literal'' \<and> \<not> literal_is_string key then
        (case literal_int key of
           None \<Rightarrow> None
         | Some p \<Rightarrow> if 0 \<le> p - 1 \<and> p - 1 < int (length lower) then Some (nat (p - 1)) else None)
      else if isinstance L key ''Column'' \<and> table_of L key = [] then
        (let nm = py_lower (name_of L key)
         in if count_list lower nm = 1 then Some (length (takeWhile (\<lambda>x. x \<noteq> nm) lower)) else None)
      else None)"

fun collect_keys :: "(node \<Rightarrow> nat option) \<Rightarrow> node list \<Rightarrow> nat list option" where
  "collect_keys f [] = Some []"
| "collect_keys f (ordered # os) =
     (case Option.bind (this_node ordered) f of
        None \<Rightarrow> None
      | Some i \<Rightarrow> map_option (\<lambda>is. i # is) (collect_keys f os))"

definition some_nonempty :: "'a list option \<Rightarrow> 'a list option" where
  "some_nonempty r = (if r = Some [] then None else r)"

definition order_by_key_indices :: "sqlglot \<Rightarrow> string \<Rightarrow> string list \<Rightarrow> nat list option" where
  "order_by_key_indices L sql output_names = (case parse_one L sql of
     None \<Rightarrow> None
   | Some tree \<Rightarrow> (case unwrap_with L tree of
        None \<Rightarrow> None
      | Some t \<Rightarrow>
          (if \<not> isinstance L t ''Select'' then None
           else (case get_arg t ''order'' of
               ANode order \<Rightarrow>
                 some_nonempty
                   (collect_keys (order_key_index L (map py_lower output_names)) (expressions order))
             | _ \<Rightarrow> None))))"

definition clause_count :: "sqlglot \<Rightarrow> arg \<Rightarrow> int option" where
  "clause_count L a = (case a of
     ANode n \<Rightarrow>
       (case (if isinstance_any L n [''Limit'', ''Offset''] then arg_node (get_arg n ''expression'')
              else Some n) of
          None \<Rightarrow> None
        | Some v \<Rightarrow> if \<not> isinstance L v ''Literal'' \<or> literal_is_string v then None else literal_int v)
   | _ \<Rightarrow> None)"

definition top_level_limit_offset :: "sqlglot \<Rightarrow> string \<Rightarrow> int option \<times> int" where
  "top_level_limit_offset L sql = (case Option.bind (parse_one L sql) (unwrap_with L) of
     None \<Rightarrow> (None, 0)
   | Some t \<Rightarrow>
       (if \<not> isinstance L t ''Select'' then (None, 0)
        else (clause_count L (get_arg t ''limit''),
              (case clause_count L (get_arg t ''offset'') of None \<Rightarrow> 0 | Some n \<Rightarrow> n))))"

definition number_literal :: "int \<Rightarrow> node" where
  "number_literal n = Node ''Literal'' [(''this'', AStr (str_int n)), (''is_string'', ABool False)]"

definition widen_target :: "int \<Rightarrow> node \<Rightarrow> node" where
  "widen_target limit t =
     set_arg (set_arg t ''limit'' (ANode (Node ''Limit'' [(''expression'', ANode (number_literal limit))])))
       ''offset'' ANone"

definition widened_query :: "sqlglot \<Rightarrow> string \<Rightarrow> int \<Rightarrow> string option" where
  "widened_query L sql limit = (case parse_one L sql of
     None \<Rightarrow> None
   | Some tree \<Rightarrow> (case unwrap_with L tree of
        None \<Rightarrow> None
      | Some target \<Rightarrow>
          (if \<not> isinstance L target ''Select'' \<or> get_arg target ''limit'' = ANone then None
           else render_guarded L
             (if isinstance L tree ''With'' then set_arg tree ''this'' (ANode (widen_target limit target))
              else widen_target limit target))))"

section \<open>Tables, literals, arities, markers\<close>

definition tables_in :: "sqlglot \<Rightarrow> string \<Rightarrow> string list" where
  "tables_in L sql = (case parse_one L sql of
     None \<Rightarrow> []
   | Some tree \<Rightarrow>
       (let cte_names = map (\<lambda>c. py_lower (alias_or_name L c))
              (filter (\<lambda>c. alias_or_name L c \<noteq> []) (find_all L tree ''CTE''))
        in map (\<lambda>t. py_lower (name_of L t))
             (filter (\<lambda>t. name_of L t \<noteq> [] \<and> py_lower (name_of L t) \<notin> set cte_names)
               (find_all L tree ''Table''))))"

definition node_value :: "sqlglot \<Rightarrow> node \<Rightarrow> pyval" where
  "node_value L n =
     (if isinstance L n ''Literal'' then literal_to_py L n
      else if isinstance L n ''Boolean'' then PBool (truthy_arg (get_arg n ''this''))
      else PNone)"

definition extract_literals :: "sqlglot \<Rightarrow> string \<Rightarrow> pyval list" where
  "extract_literals L sql = (case parse_one L sql of
     None \<Rightarrow> []
   | Some tree \<Rightarrow> map (node_value L)
       (filter (\<lambda>n. isinstance_any L n [''Literal'', ''Boolean'', ''Null'']) (walk L tree)))"

lemma get_arg_size: "get_arg n k = a \<Longrightarrow> a \<noteq> ANone \<Longrightarrow> size a < size n"
proof -
  assume "get_arg n k = a" "a \<noteq> ANone"
  then have m: "(k, a) \<in> set (node_args n)"
    by (auto simp: get_arg_def split: option.splits dest: map_of_SomeD)
  then show ?thesis
    by (cases n) (use m in \<open>force dest: size_list_estimation' [where f = "size_prod (\<lambda>x. 0) size"]\<close>)
qed

lemma this_node_size: "this_node n = Some m \<Longrightarrow> size m < size n"
  using get_arg_size [of n "''this''" "ANode m"]
  by (auto simp: this_node_def arg_node_def split: arg.splits)

function is_constant :: "sqlglot \<Rightarrow> node \<Rightarrow> bool" where
  "is_constant L n =
     (if isinstance_any L n [''Literal'', ''Boolean'', ''Null''] then True
      else if isinstance L n ''Neg'' then
        (case this_node n of None \<Rightarrow> False | Some m \<Rightarrow> is_constant L m)
      else if isinstance L n ''Cast'' then is_child L n [''Literal'', ''Boolean'', ''Null'']
      else False)"
  by pat_completeness auto
termination by (relation "measure (\<lambda>(L, n). size n)") (auto dest: this_node_size)

declare is_constant.simps [simp del]

definition constant_in_arities :: "sqlglot \<Rightarrow> string \<Rightarrow> nat list option" where
  "constant_in_arities L sql = (case parse_one L sql of
     None \<Rightarrow> None
   | Some tree \<Rightarrow> Some (map (\<lambda>n. length (expressions n))
       (filter (\<lambda>n. expressions n \<noteq> [] \<and> list_all (is_constant L) (expressions n))
         (find_all L tree ''In''))))"

definition has_param_markers :: "sqlglot \<Rightarrow> string \<Rightarrow> bool" where
  "has_param_markers L template = (case parse_one L template of
     None \<Rightarrow> False
   | Some tree \<Rightarrow> find_all L tree ''Placeholder'' \<noteq> [] \<or> find_all L tree ''Parameter'' \<noteq> [])"

section \<open>Lemmas\<close>

lemma takeWhile_neq_less: "x \<in> set xs \<Longrightarrow> length (takeWhile (\<lambda>y. y \<noteq> x) xs) < length xs"
  by (induction xs) auto

lemma find_index:
  "count_list xs x = Suc 0 \<Longrightarrow> length (takeWhile (\<lambda>y. y \<noteq> x) xs) < length xs"
  by (rule takeWhile_neq_less) (metis count_notin nat.distinct(1))

lemma order_key_index_range: "order_key_index L lower k = Some i \<Longrightarrow> i < length lower"
  by (auto simp: order_key_index_def Let_def dest: find_index split: if_splits option.splits)

lemma collect_keys_all:
  "collect_keys f os = Some is \<Longrightarrow>
   length is = length os \<and> list_all2 (\<lambda>n i. Option.bind (this_node n) f = Some i) os is"
proof (induction os arbitrary: "is")
  case (Cons n os)
  then obtain i js where "Option.bind (this_node n) f = Some i" "collect_keys f os = Some js"
    "is = i # js"
    by (auto split: option.splits)
  with Cons.IH [of js] show ?case by simp
qed simp

lemma all_select_iff: "all_select L ss \<longleftrightarrow> list_all (\<lambda>s. case s of None \<Rightarrow> True | Some t \<Rightarrow> select_family L t) ss"
  by (induction L ss rule: all_select.induct) auto

lemma get_set_arg [simp]:
  "get_arg (set_arg n k a) j = (if j = k then a else get_arg n j)"
  by (simp add: get_arg_def set_arg_def)

lemma node_class_set_arg [simp]: "node_class (set_arg n k a) = node_class n"
  by (simp add: set_arg_def)

lemma isinstance_set_arg [simp]: "isinstance L (set_arg n k a) c = isinstance L n c"
  by (simp add: isinstance_def)

section \<open>A one-node parser for examples\<close>

definition tiny_sqlglot :: sqlglot where
  "tiny_sqlglot =
     \<lparr>parse_one = (\<lambda>s. Some (Node ''Literal'' [(''this'', AStr s)])), parse_all = (\<lambda>s. None),
      tokenize = (\<lambda>s. None), render = (\<lambda>n. case get_arg n ''this'' of AStr s \<Rightarrow> s | _ \<Rightarrow> []),
      render_guarded = (\<lambda>n. None), render_key = (\<lambda>n. Some (node_class n)), is_subclass = (=),
      walk = (\<lambda>n. [n]), find_all = (\<lambda>n c. if node_class n = c then [n] else []), tree_eq = (=),
      transform = (\<lambda>f n. Some (f n)),
      literal_to_py = (\<lambda>n. case get_arg n ''this'' of AStr s \<Rightarrow> PStr s | _ \<Rightarrow> PNone),
      name_of = (\<lambda>n. case get_arg n ''this'' of AStr s \<Rightarrow> s | _ \<Rightarrow> []),
      table_of = (\<lambda>n. []), alias_or_name = (\<lambda>n. [])\<rparr>"

definition plain_fmt :: py_fmt where
  "plain_fmt = \<lparr>frepr = (\<lambda>a. ''f''), drepr = str_int\<rparr>"

section \<open>Properties\<close>


definition hidden_delete :: string where
  "hidden_delete = '' -- x'' @ [CHR 0x0A] @ ''DELETE FROM t''"


text \<open>
  \<open>EXPLAIN ANALYZE\<close> and \<open>PRAGMA\<close> statements are classified by their first word alone: a
  profiled \<open>DELETE\<close> and a session-changing \<open>PRAGMA\<close> pass the write block under every parser.
\<close>

theorem read_only_first_word_gap:
  "is_read_only_query L ''EXPLAIN ANALYZE DELETE FROM t'' \<and>
   is_read_only_query L ''pragma threads=4''"
proof -
  have "statement_kind ''EXPLAIN ANALYZE DELETE FROM t'' = KRead \<and>
      leading_keyword ''EXPLAIN ANALYZE DELETE FROM t'' \<noteq> Some ''with'' \<and>
      \<not> has_multiple_statements ''EXPLAIN ANALYZE DELETE FROM t''" by code_simp
  moreover have "statement_kind ''pragma threads=4'' = KRead \<and>
      leading_keyword ''pragma threads=4'' \<noteq> Some ''with'' \<and>
      \<not> has_multiple_statements ''pragma threads=4''" by code_simp
  ultimately show ?thesis by (simp add: is_read_only_query_def)
qed

text \<open>
  Resolved \<open>ORDER BY\<close> keys are usable column indices: there is one per sort key, none is
  out of range, the list is not empty, and the statement is a top-level \<open>SELECT\<close> with an
  \<open>ORDER BY\<close>, so the tie-aware comparison is never entered for an unordered result.
\<close>

theorem order_keys_valid:
  assumes "order_by_key_indices L sql names = Some ks"
  shows "ks \<noteq> [] \<and> list_all (\<lambda>i. i < length names) ks \<and> has_order_by L sql"
proof -
  from assms obtain tree t order where p: "parse_one L sql = Some tree" "unwrap_with L tree = Some t"
      "isinstance L t ''Select''" "get_arg t ''order'' = ANode order"
    and c: "collect_keys (order_key_index L (map py_lower names)) (expressions order) = Some ks"
    and ne: "ks \<noteq> []"
    by (auto simp: order_by_key_indices_def some_nonempty_def
        split: option.splits if_splits arg.splits)
  have "list_all (\<lambda>i. i < length names) ks"
  proof (simp add: list_all_length, intro allI impI)
    fix j
    assume j: "j < length ks"
    from collect_keys_all [OF c]
    have "list_all2 (\<lambda>n i. Option.bind (this_node n) (order_key_index L (map py_lower names)) = Some i)
        (expressions order) ks" by (rule conjunct2)
    from list_all2_nthD2 [OF this j]
    obtain k where "order_key_index L (map py_lower names) k = Some (ks ! j)"
      unfolding bind_eq_Some_conv by blast
    from order_key_index_range [OF this] show "ks ! j < length names" by simp
  qed
  with p ne show ?thesis by (simp add: has_order_by_def truthy_arg_def)
qed

definition ordered_select :: node where
  "ordered_select = Node ''Select'' [(''order'', ANode (Node ''Order''
     [(''expressions'', AList [ANode (Node ''Ordered'' [(''this'', ANode (number_literal 2))])])]))]"

theorem order_keys_valid_witness:
  "order_by_key_indices (tiny_sqlglot\<lparr>parse_one := (\<lambda>s. Some ordered_select)\<rparr>) ''q'' [''a'', ''b''] = Some [1] \<and>
   has_order_by (tiny_sqlglot\<lparr>parse_one := (\<lambda>s. Some ordered_select)\<rparr>) ''q''"
proof -
  have k: "order_by_key_indices (tiny_sqlglot\<lparr>parse_one := (\<lambda>s. Some ordered_select)\<rparr>) ''q'' [''a'', ''b''] = Some [1]"
    by code_simp
  from order_keys_valid [OF k] k show ?thesis by blast
qed

text \<open>
  Widening keeps the ranking and only moves the window: the widened tree has the new limit
  and no offset, and every other clause of the original target is unchanged.
\<close>

theorem widen_target_window:
  assumes "is_subclass L ''Limit'' ''Limit''" and "is_subclass L ''Literal'' ''Literal''"
    and "0 \<le> n"
  shows "clause_count L (get_arg (widen_target n t) ''limit'') = Some n \<and>
     clause_count L (get_arg (widen_target n t) ''offset'') = None \<and>
     node_class (widen_target n t) = node_class t \<and>
     (\<forall>k. k \<noteq> ''limit'' \<and> k \<noteq> ''offset'' \<longrightarrow> get_arg (widen_target n t) k = get_arg t k)"
proof -
  have "py_int_of_str (str_int n) = Some n"
  proof -
    have "dropWhile is_space_char (str_nat m) = str_nat m" for m
      using str_nat_digits [of m] str_nat_not_Nil [of m]
      by (cases "str_nat m") (auto simp: is_space_char_def is_digit_char_def)
    moreover have "dropWhile is_space_char (rev (str_nat m)) = rev (str_nat m)" for m
      using str_nat_digits [of m] str_nat_not_Nil [of m]
      by (cases "rev (str_nat m)") (auto simp: is_space_char_def is_digit_char_def list_all_iff
          dest!: arg_cong [of "rev _" _ set])
    ultimately have "py_strip (str_nat m) = str_nat m" for m by (simp add: py_strip_def)
    moreover have "split_sign (str_nat m) = (False, str_nat m)" for m
      using str_nat_digits [of m]
      by (cases "str_nat m") (auto simp: split_sign_def is_digit_char_def)
    ultimately show ?thesis
      using assms(3) by (simp add: py_int_of_str_def str_int_def digits_us_str_nat)
  qed
  then show ?thesis
    using assms(1,2)
    by (simp add: widen_target_def clause_count_def isinstance_any_def isinstance_def arg_node_def
        get_arg_def [of "Node _ _"] number_literal_def literal_is_string_def truthy_arg_def
        literal_int_def literal_text_def)
qed

theorem widen_target_window_witness:
  "clause_count tiny_sqlglot (get_arg (widen_target 40 ordered_select) ''limit'') = Some 40 \<and>
   get_arg (widen_target 40 ordered_select) ''order'' = get_arg ordered_select ''order''"
proof -
  have "is_subclass tiny_sqlglot ''Limit'' ''Limit''" "is_subclass tiny_sqlglot ''Literal'' ''Literal''"
    by (simp_all add: tiny_sqlglot_def)
  from widen_target_window [OF this, of 40 ordered_select] show ?thesis by simp
qed

end
