(* ===== verification/Sql_Unify.thy ===== *)
theory Sql_Unify
  imports Sql_Tree
begin

text \<open>
  Structural unification of a template tree with an incoming tree and the two binders built on
  it (\<open>_value_of\<close>, \<open>_record\<close>, \<open>_bind_placeholder\<close>, \<open>_unify\<close>, \<open>_unify_arg\<close>,
  \<open>unify_and_bind\<close>, \<open>bind_template\<close> of \<open>router/normalize.py\<close>). The positional counter and the
  dictionary the Python mutates are threaded; \<open>None\<close> is the answer \<open>False\<close>.
\<close>

type_synonym bindings = "(string \<times> pyval) list"

section \<open>Values at a placeholder\<close>

function strip_parens :: "sqlglot \<Rightarrow> node \<Rightarrow> node" where
  "strip_parens L n =
     (if isinstance L n ''Paren'' then
        (case this_node n of None \<Rightarrow> n | Some m \<Rightarrow> strip_parens L m)
      else n)"
  by pat_completeness auto
termination by (relation "measure (\<lambda>(L, n). size n)") (auto dest: this_node_size)

declare strip_parens.simps [simp del]

lemma strip_parens_size: "size (strip_parens L n) \<le> size n"
proof (induction L n rule: strip_parens.induct)
  case (1 L n)
  then show ?case
    by (subst strip_parens.simps) (force split: option.splits dest: this_node_size)
qed

lemma strip_parens_id: "\<not> isinstance L n ''Paren'' \<Longrightarrow> strip_parens L n = n"
  by (subst strip_parens.simps) simp

text \<open>Unary minus; \<open>None\<close> is the \<open>TypeError\<close> of a value that is not a number.\<close>

definition py_negate :: "pyval \<Rightarrow> pyval option" where
  "py_negate v = (case v of
     PInt i \<Rightarrow> Some (PInt (- i))
   | PBool b \<Rightarrow> Some (PInt (if b then -1 else 0))
   | PFloat a \<Rightarrow> Some (PFloat (float_neg a))
   | PDec c e \<Rightarrow> Some (PDec (- c) e)
   | _ \<Rightarrow> None)"

function value_of :: "sqlglot \<Rightarrow> node \<Rightarrow> pyval" where
  "value_of L n0 =
     (let n = strip_parens L n0 in
      if isinstance L n ''Neg'' then
        (case this_node n of
           None \<Rightarrow> PStr (render L n)
         | Some m \<Rightarrow> (case py_negate (value_of L m) of Some v \<Rightarrow> v | None \<Rightarrow> PStr (render L n)))
      else if isinstance_any L n [''Literal'', ''Boolean'', ''Null''] then node_value L n
      else (case find_all L n ''Literal'' of
          [l] \<Rightarrow> node_value L l
        | _ \<Rightarrow> PStr (render L n)))"
  by pat_completeness auto
termination
proof (relation "measure (\<lambda>(L, n). size n)", goal_cases)
  case (2 L n0 x m)
  then show ?case using strip_parens_size [of L n0] by (auto dest!: this_node_size)
qed simp

declare value_of.simps [simp del]

section \<open>Recording a binding\<close>

definition record_binding :: "py_fmt \<Rightarrow> string \<Rightarrow> pyval \<Rightarrow> bindings \<Rightarrow> bindings option" where
  "record_binding fmt name v bound = (case map_of bound name of
     Some w \<Rightarrow> if \<not> loose_eq fmt w v then None else Some (AList.update name v bound)
   | None \<Rightarrow> Some (AList.update name v bound))"

type_synonym ustate = "nat \<times> bindings"

definition bind_placeholder ::
  "sqlglot \<Rightarrow> py_fmt \<Rightarrow> string list \<Rightarrow> node \<Rightarrow> pyval \<Rightarrow> ustate \<Rightarrow> ustate option" where
  "bind_placeholder L fmt names ph v st =
     (let nm = name_of L ph; (counter, bound) = st in
      if nm \<noteq> [] \<and> nm \<noteq> ''?'' then map_option (\<lambda>b. (counter, b)) (record_binding fmt nm v bound)
      else if length names \<le> counter then None
      else map_option (\<lambda>b. (counter + 1, b)) (record_binding fmt (names ! counter) v bound))"

section \<open>Unification\<close>

definition present_args :: "node \<Rightarrow> (string \<times> arg) list" where
  "present_args n = filter (\<lambda>(k, a). a \<noteq> ANone) (node_args n)"

text \<open>A whole-list \<open>IN ?\<close> marker of the template facing a list of bindable constants.\<close>

definition in_marker :: "sqlglot \<Rightarrow> node \<Rightarrow> node \<Rightarrow> node option" where
  "in_marker L t i =
     (if isinstance L t ''In'' then
        (case arg_node (get_arg t ''field'') of
           None \<Rightarrow> None
         | Some f \<Rightarrow>
             if isinstance L f ''Placeholder'' \<and> expressions i \<noteq> []
                \<and> list_all (is_constant L) (expressions i)
                \<and> \<not> list_ex (\<lambda>m. find_all L m ''Null'' \<noteq> [] \<or> find_all L m ''Boolean'' \<noteq> []) (expressions i)
             then Some f else None)
      else None)"

lemma present_args_size:
  "size_list (size_prod (\<lambda>x. 0) size) (present_args n) < size n"
  by (cases n) (simp add: present_args_def size_list_filter_le less_Suc_eq_le)

lemma present_args_mem_size: "map_of (present_args n) k = Some a \<Longrightarrow> size a < size n"
proof -
  assume "map_of (present_args n) k = Some a"
  then have "(k, a) \<in> set (present_args n)" by (rule map_of_SomeD)
  then have "size_prod (\<lambda>x. 0) size (k, a) \<le> size_list (size_prod (\<lambda>x. 0) size) (present_args n)"
    by (metis size_list_estimation' order_refl)
  then show ?thesis using present_args_size [of n] by simp
qed

lemma this_strip_size: "this_node (strip_parens L t) = Some a \<Longrightarrow> size a < size t"
  using strip_parens_size [of L t] by (auto dest!: this_node_size)

lemma present_strip_size:
  "size_list (size_prod (\<lambda>x. 0) size) (present_args (strip_parens L t)) < size t"
  using strip_parens_size [of L t] present_args_size [of "strip_parens L t"] by simp

text \<open>
  \<open>type(t) is not type(i)\<close> compares class names exactly. Arguments are compared key by key in
  the template's order; both sides must have the same keys.
\<close>

function (sequential) unify ::
    "sqlglot \<Rightarrow> py_fmt \<Rightarrow> string list \<Rightarrow> node \<Rightarrow> node \<Rightarrow> ustate \<Rightarrow> ustate option"
  and unify_arg ::
    "sqlglot \<Rightarrow> py_fmt \<Rightarrow> string list \<Rightarrow> arg \<Rightarrow> arg \<Rightarrow> ustate \<Rightarrow> ustate option"
  and unify_list ::
    "sqlglot \<Rightarrow> py_fmt \<Rightarrow> string list \<Rightarrow> arg list \<Rightarrow> arg list \<Rightarrow> ustate \<Rightarrow> ustate option"
  and unify_fields ::
    "sqlglot \<Rightarrow> py_fmt \<Rightarrow> string list \<Rightarrow> (string \<times> arg) list \<Rightarrow> node \<Rightarrow> ustate \<Rightarrow> ustate option"
where
  "unify L fmt names t0 i0 st =
     (let t = strip_parens L t0; i = strip_parens L i0 in
      if isinstance L t ''Placeholder'' then bind_placeholder L fmt names t (value_of L i) st
      else if isinstance L t ''Parameter'' then
        map_option (\<lambda>b. (fst st, b)) (record_binding fmt (name_of L t) (value_of L i) (snd st))
      else if node_class t \<noteq> node_class i then None
      else if isinstance_any L t [''Literal'', ''Boolean'', ''Null''] then
        (if render L t = render L i then Some st else None)
      else (case in_marker L t i of
          Some field \<Rightarrow>
            (case (this_node t, this_node i) of
               (Some a, Some b) \<Rightarrow>
                 (case unify L fmt names a b st of
                    None \<Rightarrow> None
                  | Some st1 \<Rightarrow>
                      bind_placeholder L fmt names field (PTuple (map (value_of L) (expressions i))) st1)
             | _ \<Rightarrow> None)
        | None \<Rightarrow>
            (if set (map fst (present_args t)) \<noteq> set (map fst (present_args i)) then None
             else unify_fields L fmt names (present_args t) i st)))"
| "unify_arg L fmt names (AList xs) (AList ys) st =
     (if length xs \<noteq> length ys then None else unify_list L fmt names xs ys st)"
| "unify_arg L fmt names (AList [x]) iv st = unify_arg L fmt names x iv st"
| "unify_arg L fmt names (AList xs) iv st = None"
| "unify_arg L fmt names tv (AList [y]) st = unify_arg L fmt names tv y st"
| "unify_arg L fmt names tv (AList ys) st = None"
| "unify_arg L fmt names (ANode t) (ANode i) st = unify L fmt names t i st"
| "unify_arg L fmt names (ANode t) iv st = None"
| "unify_arg L fmt names tv iv st = (if tv = iv then Some st else None)"
| "unify_list L fmt names (x # xs) (y # ys) st =
     (case unify_arg L fmt names x y st of
        None \<Rightarrow> None | Some st1 \<Rightarrow> unify_list L fmt names xs ys st1)"
| "unify_list L fmt names xs ys st = Some st"
| "unify_fields L fmt names [] i st = Some st"
| "unify_fields L fmt names ((k, tv) # fs) i st =
     (case map_of (present_args i) k of
        None \<Rightarrow> None
      | Some iv \<Rightarrow>
          (case unify_arg L fmt names tv iv st of
             None \<Rightarrow> None | Some st1 \<Rightarrow> unify_fields L fmt names fs i st1))"
  by pat_completeness auto
termination
proof (relation "measure (case_sum
      (case_sum (\<lambda>(L, fmt, ns, t, i, st). size t + size i)
                (\<lambda>(L, fmt, ns, t, i, st). size t + size i))
      (case_sum (\<lambda>(L, fmt, ns, xs, ys, st). size_list size xs + size_list size ys)
                (\<lambda>(L, fmt, ns, fs, i, st). size_list (size_prod (\<lambda>x. 0) size) fs + size i)))")
qed (auto dest: present_args_mem_size this_strip_size this_strip_size [OF sym]
    intro: add_less_le_mono add_strict_mono present_strip_size strip_parens_size)

declare unify.simps [simp del]

section \<open>The binders\<close>

text \<open>The loop that maps the synthetic names back to the user's.\<close>

fun remap_names ::
  "py_fmt \<Rightarrow> (string \<times> string) list \<Rightarrow> bindings \<Rightarrow> bindings \<Rightarrow> bindings option" where
  "remap_names fmt mapping [] out = Some out"
| "remap_names fmt mapping ((key, v) # ps) out =
     (let user = (case map_of mapping key of Some u \<Rightarrow> u | None \<Rightarrow> key)
      in case map_of out user of
           Some w \<Rightarrow> if \<not> loose_eq fmt w v then None
                     else remap_names fmt mapping ps (AList.update user v out)
         | None \<Rightarrow> remap_names fmt mapping ps (AList.update user v out))"

definition unify_and_bind ::
  "sqlglot \<Rightarrow> py_fmt \<Rightarrow> string \<Rightarrow> string \<Rightarrow> string list \<Rightarrow> bindings option" where
  "unify_and_bind L fmt template incoming names =
     (case name_anonymous_placeholders template names of
        None \<Rightarrow> None
      | Some (rewritten, mapping) \<Rightarrow>
          (case (parse_one L rewritten, parse_one L incoming) of
             (Some t, Some i) \<Rightarrow>
               (case unify L fmt [] t i (0, []) of
                  None \<Rightarrow> None
                | Some (_, bound) \<Rightarrow>
                    (case remap_names fmt mapping bound [] of
                       None \<Rightarrow> None
                     | Some final \<Rightarrow>
                         (let distinct_names = (if mapping \<noteq> [] then snd ` set mapping else set names)
                          in if distinct_names - fst ` set final \<noteq> {} then None else Some final)))
           | _ \<Rightarrow> None))"

definition group_name :: "nat \<Rightarrow> string" where
  "group_name i = ''__grp'' @ str_nat i"

definition bind_template ::
  "sqlglot \<Rightarrow> py_fmt \<Rightarrow> string \<Rightarrow> string \<Rightarrow> placeholder_spec list \<Rightarrow> bindings option" where
  "bind_template L fmt template incoming specs =
     (let groups = binding_groups specs;
          group_names = map group_name [0..<length groups]
      in case unify_and_bind L fmt template incoming group_names of
           None \<Rightarrow> None
         | Some raw \<Rightarrow>
             merge_split fmt groups
               (map (\<lambda>n. case map_of raw n of Some v \<Rightarrow> v | None \<Rightarrow> PNone) group_names))"

section \<open>Bindings grow consistently\<close>

text \<open>
  \<open>b'\<close> extends \<open>b\<close>: every bound name stays bound, and its value is reached from the old one
  through loosely equal values (loose equality itself is not transitive).
\<close>

definition extends :: "py_fmt \<Rightarrow> bindings \<Rightarrow> bindings \<Rightarrow> bool" where
  "extends fmt b b' \<longleftrightarrow>
     (\<forall>n w. map_of b n = Some w \<longrightarrow> (\<exists>v. map_of b' n = Some v \<and> (loose_eq fmt)\<^sup>*\<^sup>* w v))"

lemma extends_refl [simp]: "extends fmt b b"
  by (auto simp: extends_def)

lemma extends_trans: "extends fmt a b \<Longrightarrow> extends fmt b c \<Longrightarrow> extends fmt a c"
  by (meson extends_def rtranclp_trans)

lemma record_binding_Some:
  "record_binding fmt n v b = Some b' \<longleftrightarrow>
     b' = AList.update n v b \<and> (\<forall>w. map_of b n = Some w \<longrightarrow> loose_eq fmt w v)"
  by (auto simp: record_binding_def split: option.splits if_splits)

lemma record_binding_extends: "record_binding fmt n v b = Some b' \<Longrightarrow> extends fmt b b'"
  by (auto simp: record_binding_Some extends_def)

lemma bind_placeholder_extends:
  "bind_placeholder L fmt names ph v st = Some st' \<Longrightarrow> extends fmt (snd st) (snd st')"
  by (auto simp: bind_placeholder_def Let_def split: if_splits prod.splits
      dest!: record_binding_extends)

lemma unify_extends:
  "unify L fmt names t i st = Some st' \<Longrightarrow> extends fmt (snd st) (snd st')"
  "unify_arg L fmt names tv iv st = Some st' \<Longrightarrow> extends fmt (snd st) (snd st')"
  "unify_list L fmt names xs ys st = Some st' \<Longrightarrow> extends fmt (snd st) (snd st')"
  "unify_fields L fmt names fs i st = Some st' \<Longrightarrow> extends fmt (snd st) (snd st')"
proof (induction L fmt names t i st and L fmt names tv iv st and L fmt names xs ys st
    and L fmt names fs i st arbitrary: st' and st' and st' and st'
    rule: unify_unify_arg_unify_list_unify_fields.induct)
  case (1 L fmt names t0 i0 st)
  let ?t = "strip_parens L t0" and ?i = "strip_parens L i0"
  note ih2 = "1.IH"(1) [OF refl refl] and ih1 = "1.IH"(2) [OF refl refl]
  note eq = "1.prems" [unfolded unify.simps [of L fmt names t0 i0] Let_def]
  show ?case
  proof (cases "isinstance L ?t ''Placeholder'' \<or> isinstance L ?t ''Parameter'' \<or>
      isinstance_any L ?t [''Literal'', ''Boolean'', ''Null'']")
    case True
    with eq show ?thesis
      by (auto split: if_splits dest!: record_binding_extends bind_placeholder_extends)
  next
    case False
    show ?thesis
    proof (cases "in_marker L ?t ?i")
      case None
      with eq False have "unify_fields L fmt names (present_args ?t) ?i st = Some st'"
        "node_class ?t = node_class ?i"
        "set (map fst (present_args ?t)) = set (map fst (present_args ?i))"
        by (simp_all split: if_splits)
      with False None show ?thesis using ih2 by blast
    next
      case (Some field)
      with eq False obtain a b st1 where "this_node ?t = Some a" "this_node ?i = Some b"
        "unify L fmt names a b st = Some st1"
        "bind_placeholder L fmt names field (PTuple (map (value_of L) (expressions ?i))) st1 = Some st'"
        by (auto split: if_splits option.splits)
      moreover from eq False have "node_class ?t = node_class ?i" by (simp split: if_splits)
      ultimately have "extends fmt (snd st) (snd st1)"
        using False Some by (intro ih1) auto
      then show ?thesis
        using bind_placeholder_extends extends_trans
          \<open>bind_placeholder L fmt names field _ st1 = Some st'\<close> by blast
    qed
  qed
next
  case (10 L fmt names x xs y ys st)
  then obtain st1 where "unify_arg L fmt names x y st = Some st1"
    "unify_list L fmt names xs ys st1 = Some st'" by (auto split: option.splits)
  with "10.IH" show ?case by (blast intro: extends_trans)
next
  case (13 L fmt names k tv fs i st)
  then obtain iv st1 where "map_of (present_args i) k = Some iv"
    "unify_arg L fmt names tv iv st = Some st1" "unify_fields L fmt names fs i st1 = Some st'"
    by (auto split: option.splits)
  with "13.IH" show ?case by (blast intro: extends_trans)
qed (auto split: if_splits option.splits)

lemmas unify_grows = unify_extends(1) unify_extends(4)

section \<open>A template without markers matches itself and binds nothing\<close>

text \<open>No placeholder, parameter or parenthesis anywhere, and argument keys are distinct.\<close>

fun plain_node :: "sqlglot \<Rightarrow> node \<Rightarrow> bool" and plain_arg :: "sqlglot \<Rightarrow> arg \<Rightarrow> bool" where
  "plain_node L (Node c args) \<longleftrightarrow>
     \<not> is_subclass L c ''Placeholder'' \<and> \<not> is_subclass L c ''Parameter'' \<and> \<not> is_subclass L c ''Paren''
     \<and> distinct (map fst args) \<and> (\<forall>p \<in> set args. plain_arg L (snd p))"
| "plain_arg L (ANode n) = plain_node L n"
| "plain_arg L (AList xs) = (\<forall>x \<in> set xs. plain_arg L x)"
| "plain_arg L (AStr s) = True"
| "plain_arg L (ABool b) = True"
| "plain_arg L ANone = True"

lemma plain_node_class:
  "plain_node L n \<Longrightarrow> \<not> isinstance L n ''Placeholder'' \<and> \<not> isinstance L n ''Parameter'' \<and>
     \<not> isinstance L n ''Paren'' \<and> distinct (map fst (node_args n))"
  by (cases n) (simp add: isinstance_def)

lemma plain_node_get_arg: "plain_node L n \<Longrightarrow> plain_arg L (get_arg n k)"
  by (cases n) (auto simp: get_arg_def split: option.splits dest: map_of_SomeD)

lemma plain_in_marker: "plain_node L t \<Longrightarrow> in_marker L t i = None"
  using plain_node_get_arg [of L t "''field''"]
  by (auto simp: in_marker_def arg_node_def dest: plain_node_class split: option.splits arg.splits)

lemma plain_present:
  "plain_node L n \<Longrightarrow> (k, a) \<in> set (present_args n) \<Longrightarrow>
   map_of (present_args n) k = Some a \<and> plain_arg L a"
proof (cases n)
  case (Node c args)
  assume p: "plain_node L n" and m: "(k, a) \<in> set (present_args n)"
  have "distinct (map fst (present_args n))"
    using p Node by (simp add: present_args_def distinct_map_filter)
  with p m Node show ?thesis
    by (auto simp: present_args_def)
qed

lemma unify_refl:
  "plain_node L n \<Longrightarrow> unify L fmt names n n st = Some st"
  "plain_arg L a \<Longrightarrow> unify_arg L fmt names a a st = Some st"
proof (induction n and a arbitrary: st and st)
  case (Node c args)
  let ?n = "Node c args"
  note cl = plain_node_class [OF Node.prems]
  have strip: "strip_parens L ?n = ?n" using cl by (intro strip_parens_id) simp
  have args: "unify_arg L fmt names a a s = Some s" if "(k, a) \<in> set (present_args ?n)" for k a s
  proof -
    have "(k, a) \<in> set args" "plain_arg L a"
      using that plain_present [OF Node.prems that] by (auto simp: present_args_def)
    then show ?thesis using Node.IH [of "(k, a)" a] by (simp add: prod_set_simps)
  qed
  have "unify_fields L fmt names fs ?n s = Some s" if "set fs \<subseteq> set (present_args ?n)" for fs s
    using that
  proof (induction fs arbitrary: s)
    case (Cons f fs)
    obtain k a where f: "f = (k, a)" by fastforce
    with Cons.prems have "(k, a) \<in> set (present_args ?n)" by simp
    with plain_present [OF Node.prems this] args [OF this] Cons.IH Cons.prems f show ?case by simp
  qed simp
  then show ?case
    using cl plain_in_marker [OF Node.prems] strip
    by (subst unify.simps) (simp add: Let_def)
next
  case (AList xs)
  have "unify_list L fmt names ys ys s = Some s" if "set ys \<subseteq> set xs" for ys s
    using that AList by (induction ys arbitrary: s) auto
  then show ?case by simp
qed simp_all

section \<open>Properties\<close>

text \<open>
  Unification never forgets a binding and never rebinds a name to a conflicting value: every
  name bound before is bound after, to a value connected to the old one by loose equality.
\<close>

theorem unify_bindings_consistent:
  assumes "unify L fmt names t i st = Some st'" and "map_of (snd st) n = Some w"
  shows "\<exists>v. map_of (snd st') n = Some v \<and> (loose_eq fmt)\<^sup>*\<^sup>* w v"
  using unify_extends(1) [OF assms(1)] assms(2) by (auto simp: extends_def)

theorem unify_bindings_consistent_witness:
  "\<exists>v. map_of [(''d'', PStr ''1'')] ''d'' = Some v \<and> (loose_eq plain_fmt)\<^sup>*\<^sup>* (PInt 1) v"
proof -
  have "unify tiny_sqlglot plain_fmt [] (Node ''Placeholder'' [(''this'', AStr ''d'')])
      (Node ''Literal'' [(''this'', AStr ''1'')]) (0, [(''d'', PInt 1)])
     = Some (0, [(''d'', PStr ''1'')])"
    by code_simp
  from unify_bindings_consistent [OF this, of "''d''" "PInt 1"] show ?thesis by simp
qed

text \<open>
  A statement without markers unifies with itself under any parser and any bindings, and
  binds nothing: binding a constant template to its own text never falls back.
\<close>

theorem constant_template_self_match:
  assumes "parse_one L sql = Some t" and "plain_node L t" and "markers sql = 0"
    and "renamed 0 sql = sql"
  shows "unify_and_bind L fmt sql sql [] = Some []"
  using assms unify_refl(1) [OF assms(2)]
  by (simp add: unify_and_bind_def name_anonymous_placeholders_eq named_so_far_def)

theorem constant_template_self_match_witness:
  "unify_and_bind tiny_sqlglot plain_fmt ''select 1'' ''select 1'' [] = Some []"
proof (rule constant_template_self_match)
  show "parse_one tiny_sqlglot ''select 1'' = Some (Node ''Literal'' [(''this'', AStr ''select 1'')])"
    by (simp add: tiny_sqlglot_def)
qed code_simp+

text \<open>
  A successful binding is total: the template has exactly one marker per name, and every
  name has a value in the result.
\<close>

theorem unify_and_bind_total:
  assumes "unify_and_bind L fmt template incoming names = Some final"
  shows "markers template = length names \<and> set names \<subseteq> fst ` set final"
proof -
  from assms have m: "markers template = length names"
    by (auto simp: unify_and_bind_def name_anonymous_placeholders_eq split: option.splits if_splits)
  have img: "snd ` set (named_so_far names (length names)) = set names"
    by (auto simp: named_so_far_def image_image in_set_conv_nth)
  from assms m img show ?thesis
    by (cases "names = []")
      (auto simp: unify_and_bind_def name_anonymous_placeholders_eq Let_def
        split: option.splits if_splits)
qed

theorem unify_and_bind_total_witness:
  "markers ''?'' = length [''a''] \<and> set [''a''] \<subseteq> fst ` set [(''a'', PStr '':synp0'')]"
proof -
  let ?L = "tiny_sqlglot\<lparr>parse_one := (\<lambda>s. Some (Node (if s = ''x'' then ''Literal'' else ''Placeholder'')
      [(''this'', AStr (if s = ''x'' then s else ''synp0''))]))\<rparr>"
  have "unify_and_bind ?L plain_fmt ''?'' ''x'' [''a''] = Some [(''a'', PStr ''x'')]"
    by code_simp
  from unify_and_bind_total [OF this] show ?thesis by simp
qed

end
