(* ===== verification/Route_Trace.thy ===== *)
theory Route_Trace
  imports Py_Values
begin

text \<open>
  The per-query decision record of \<open>router/observe.py\<close>: \<open>RouteTrace\<close>, its mutation helpers, the
  speedup, the summary line and the level \<open>emit\<close> logs at.
\<close>

section \<open>The trace\<close>

datatype decision_kind = Pending | Bespoke | Fallback | WritePassthrough

datatype server = ServedEngine | ServedDuckDB

type_synonym guard_result = "string \<times> bool \<times> string"

record route_trace =
  t_sql :: string
  t_decision :: decision_kind
  t_reason :: string
  t_template :: "string option"
  t_guards :: "guard_result list"
  t_bespoke_ms :: "pyfloat option"
  t_duckdb_ms :: "pyfloat option"
  t_cross_checked :: bool
  t_results_match :: "bool option"
  t_served_by :: "server option"

definition new_trace :: "string \<Rightarrow> route_trace" where
  "new_trace sql =
     \<lparr>t_sql = sql, t_decision = Pending, t_reason = '''', t_template = None, t_guards = [],
      t_bespoke_ms = None, t_duckdb_ms = None, t_cross_checked = False, t_results_match = None,
      t_served_by = None\<rparr>"

definition fell_back :: "string \<Rightarrow> route_trace \<Rightarrow> route_trace" where
  "fell_back reason t = t\<lparr>t_decision := Fallback, t_reason := reason\<rparr>"

definition write_passthrough :: "string \<Rightarrow> route_trace \<Rightarrow> route_trace" where
  "write_passthrough reason t = t\<lparr>t_decision := WritePassthrough, t_reason := reason\<rparr>"

definition routed_to :: "string \<Rightarrow> route_trace \<Rightarrow> route_trace" where
  "routed_to template t =
     t\<lparr>t_decision := Bespoke, t_template := Some template, t_reason := ''template match''\<rparr>"

definition add_guard :: "guard_result \<Rightarrow> route_trace \<Rightarrow> route_trace" where
  "add_guard g t = t\<lparr>t_guards := t_guards t @ [g]\<rparr>"

text \<open>The truth of an optional float: present and not zero (NaN counts).\<close>

definition truthy_ms :: "pyfloat option \<Rightarrow> bool" where
  "truthy_ms a = (case a of None \<Rightarrow> False | Some x \<Rightarrow> x \<noteq> Num (Fin 0))"

text \<open>Division of floats with a positive or NaN divisor.\<close>

definition float_div :: "pyfloat \<Rightarrow> pyfloat \<Rightarrow> pyfloat" where
  "float_div a b = (case (a, b) of
     (Num (Fin x), Num (Fin y)) \<Rightarrow> Num (Fin (x / y))
   | (Num (Fin x), Num PosInf) \<Rightarrow> Num (Fin 0)
   | (Num PosInf, Num (Fin y)) \<Rightarrow> Num PosInf
   | (Num NegInf, Num (Fin y)) \<Rightarrow> Num NegInf
   | _ \<Rightarrow> NaN)"

definition speedup :: "route_trace \<Rightarrow> pyfloat option" where
  "speedup t =
     (if truthy_ms (t_bespoke_ms t) \<and> truthy_ms (t_duckdb_ms t)
         \<and> float_lt (Num (Fin 0)) (the (t_bespoke_ms t))
      then Some (float_div (the (t_duckdb_ms t)) (the (t_bespoke_ms t))) else None)"

section \<open>The summary line\<close>

text \<open>
  \<open>fmt1\<close> is the \<open>.1f\<close> format of a float. The arrows and marks the source prints as non-ASCII
  characters are written \<open>->\<close>, \<open>OK\<close>, \<open>X\<close>, \<open>!\<close> and \<open>x\<close>.
\<close>

definition ms_text :: "(pyfloat \<Rightarrow> string) \<Rightarrow> pyfloat option \<Rightarrow> string" where
  "ms_text fmt1 a = (case a of None \<Rightarrow> ''?'' | Some x \<Rightarrow> fmt1 x @ ''ms'')"

definition summary_line :: "(pyfloat \<Rightarrow> string) \<Rightarrow> route_trace \<Rightarrow> string" where
  "summary_line fmt1 t = (case t_decision t of
     Bespoke \<Rightarrow>
       (let tmpl = (case t_template t of Some s \<Rightarrow> (if s = [] then ''?'' else s) | None \<Rightarrow> ''?'');
            head = ''routed '' @ tmpl
              @ (if t_served_by t = Some ServedDuckDB then '' -> served DuckDB'' else []);
            sp = (case speedup t of
                 Some x \<Rightarrow> (if x = Num (Fin 0) then ''?'' else fmt1 x @ ''x'') | None \<Rightarrow> ''?'')
        in if t_cross_checked t then
             head @ '': bespoke '' @ ms_text fmt1 (t_bespoke_ms t) @ '' vs duckdb ''
               @ ms_text fmt1 (t_duckdb_ms t) @ '' -> '' @ sp @ '' speedup, results ''
               @ (case t_results_match t of None \<Rightarrow> ''! CHECK-ERROR''
                  | Some ok \<Rightarrow> if ok then ''OK'' else ''X MISMATCH'')
           else head @ '': bespoke '' @ ms_text fmt1 (t_bespoke_ms t))
   | WritePassthrough \<Rightarrow> ''write/DDL -> DuckDB ('' @ t_reason t @ ''); engines marked stale''
   | _ \<Rightarrow> ''fallback -> DuckDB ('' @ t_reason t @ '')'')"

text \<open>\<open>_short_sql\<close>, with its one-character ellipsis written as a dot.\<close>

definition short_sql :: "string \<Rightarrow> nat \<Rightarrow> string" where
  "short_sql sql limit =
     (let one_line = py_join '' '' (py_split_ws sql)
      in if length one_line \<le> limit then one_line else take (limit - 1) one_line @ ''.'')"

section \<open>Logging\<close>

datatype log_level = LDebug | LInfo | LWarning

definition emit_level :: "bool \<Rightarrow> route_trace \<Rightarrow> log_level" where
  "emit_level verb t =
     (if t_results_match t = Some False then LWarning
      else if t_decision t \<in> {Bespoke, WritePassthrough} \<and> verb then LInfo
      else LDebug)"

lemmas trace_defs = new_trace_def fell_back_def routed_to_def add_guard_def

lemma fold_add_guard:
  "fold add_guard gs t = t\<lparr>t_guards := t_guards t @ gs\<rparr>"
  by (induction gs arbitrary: t) (simp_all add: add_guard_def)

lemma short_sql_length: "0 < limit \<Longrightarrow> length (short_sql sql limit) \<le> limit"
  by (auto simp: short_sql_def Let_def)

end
