(* ===== verification/Routing_Guards.thy ===== *)
theory Routing_Guards
  imports Sql_Unify Route_Trace
begin

text \<open>
  The guards of \<open>router/guards.py\<close> in their order and the loop that evaluates them. What a guard
  calls outside the router (the engine's health probe, the connection's schema fingerprint) is a
  field of the record \<open>outside\<close>; each call may change the state \<open>'w\<close> of the outside world.
\<close>

section \<open>The outside world\<close>

text \<open>
  \<open>health\<close> and \<open>fingerprint\<close> are \<open>None\<close> for an object without such a method; \<open>run\<close> is
  \<open>BespokeEngine.run\<close>; \<open>duck\<close> is DuckDB executing a statement with profiling; \<open>clock\<close> is
  \<open>time.perf_counter\<close> in milliseconds and \<open>dice\<close> a draw of \<open>random()\<close>.
\<close>

datatype params = NoParams | SeqParams "pyval list" | MapParams "(string \<times> pyval) list" | OneParam pyval

type_synonym arrow_table = "(string \<times> pyval list) list"

record 'w outside =
  health :: "engine_ref \<Rightarrow> 'w \<Rightarrow> (py_error + bool) option \<times> 'w"
  run :: "engine_ref \<Rightarrow> string \<Rightarrow> bindings \<Rightarrow> 'w \<Rightarrow> (py_error + arrow_table \<times> pyfloat option) \<times> 'w"
  fingerprint :: "string set \<Rightarrow> 'w \<Rightarrow> (py_error + string) option \<times> 'w"
  duck :: "string \<Rightarrow> params \<Rightarrow> 'w \<Rightarrow> (py_error + arrow_table \<times> pyfloat) \<times> 'w"
  clock :: "'w \<Rightarrow> rat \<times> 'w"
  dice :: "'w \<Rightarrow> rat \<times> 'w"
  exc_text :: "py_error \<Rightarrow> string"
  exc_repr :: "py_error \<Rightarrow> string"
  lang :: sqlglot
  pyfmt :: py_fmt

section \<open>The guards\<close>

type_synonym outcome = "bool \<times> string"

record guard_context =
  g_sql :: string
  g_binding :: engine_binding
  g_conn :: bool
  g_registry :: registry
  g_params :: params

definition engine_ready_guard :: "'w outside \<Rightarrow> guard_context \<Rightarrow> 'w \<Rightarrow> outcome \<times> 'w" where
  "engine_ready_guard E ctx w =
     (case engine (g_binding ctx) of
        None \<Rightarrow> ((False, ''no live engine worker bound''), w)
      | Some e \<Rightarrow>
          (case health E e w of
             (None, w') \<Rightarrow> ((True, ''engine ready''), w')
           | (Some (Inl exc), w') \<Rightarrow> ((False, ''engine health check failed: '' @ exc_text E exc), w')
           | (Some (Inr ok), w') \<Rightarrow>
               if \<not> ok then ((False, ''engine unhealthy''), w') else ((True, ''engine ready''), w')))"

definition select_only_guard :: "'w outside \<Rightarrow> guard_context \<Rightarrow> 'w \<Rightarrow> outcome \<times> 'w" where
  "select_only_guard E ctx w =
     (if is_select (lang E) (g_sql ctx) then ((True, ''SELECT''), w) else ((False, ''not a plain SELECT''), w))"

definition dirty_table_guard :: "'w outside \<Rightarrow> guard_context \<Rightarrow> 'w \<Rightarrow> outcome \<times> 'w" where
  "dirty_table_guard E ctx w =
     (if reg_is_dirty (g_registry ctx) (g_binding ctx)
      then ((False, ''a bound table was modified since ingest''), w)
      else ((True, ''tables clean''), w))"

text \<open>A context without a connection has no fingerprint method.\<close>

definition schema_match_guard :: "'w outside \<Rightarrow> guard_context \<Rightarrow> 'w \<Rightarrow> outcome \<times> 'w" where
  "schema_match_guard E ctx w =
     (if \<not> g_conn ctx then ((True, ''schema check not enforced (no live fingerprint)''), w)
      else (case fingerprint E (tables (g_binding ctx)) w of
          (None, w') \<Rightarrow> ((True, ''schema check not enforced (no live fingerprint)''), w')
        | (Some (Inl exc), w') \<Rightarrow> ((False, ''schema introspection failed: '' @ exc_text E exc), w')
        | (Some (Inr fp), w') \<Rightarrow>
            if fp \<noteq> schema_fingerprint (g_binding ctx)
            then ((False, ''schema or session context changed since engine build''), w')
            else ((True, ''schema matches''), w')))"

definition arity_text :: "nat \<Rightarrow> nat \<Rightarrow> string" where
  "arity_text actual expected =
     ''placeholder arity '' @ str_nat actual @ '' != expected '' @ str_nat expected"

text \<open>The part of the arity guard that runs when no explicit parameters decided it.\<close>

definition inline_arity :: "'w outside \<Rightarrow> guard_context \<Rightarrow> nat \<Rightarrow> outcome" where
  "inline_arity E ctx expected =
     (if expected = 0 then
        (case template_sql (g_binding ctx) of
           None \<Rightarrow> (False, ''constant template with no template_sql to compare against'')
         | Some t \<Rightarrow>
             if same_statement (lang E) (g_sql ctx) t
             then (True, ''constant template, exact statement match'')
             else (False, ''constant template serves only its exact statement''))
      else if (case template_sql (g_binding ctx) of None \<Rightarrow> False | Some t \<Rightarrow> has_param_markers (lang E) t)
      then (True, ''structural bind'')
      else
        (let actual = length (extract_literals (lang E) (g_sql ctx)) in
         if actual = expected then (True, str_nat actual @ '' placeholders'')
         else (False, arity_text actual expected)))"

definition placeholder_arity_guard :: "'w outside \<Rightarrow> guard_context \<Rightarrow> 'w \<Rightarrow> outcome \<times> 'w" where
  "placeholder_arity_guard E ctx w =
     (let expected = length (binding_groups (placeholders (g_binding ctx))) in
      case g_params ctx of
        NoParams \<Rightarrow> (inline_arity E ctx expected, w)
      | MapParams m \<Rightarrow>
          ((False, ''named (dict) parameters bind by name, not position; not routable''), w)
      | _ \<Rightarrow>
          (let actual = (case g_params ctx of SeqParams vs \<Rightarrow> length vs | _ \<Rightarrow> 1) in
           if actual \<noteq> expected then ((False, arity_text actual expected), w)
           else if expected \<noteq> 0 then ((True, str_nat actual @ '' placeholders''), w)
           else (inline_arity E ctx expected, w)))"

section \<open>Evaluation\<close>

text \<open>A guard may raise; the loop turns that into a failed guard. The default guards never do.\<close>

type_synonym 'w guard = "string \<times> ('w outside \<Rightarrow> guard_context \<Rightarrow> 'w \<Rightarrow> (py_error + outcome) \<times> 'w)"

definition never_raising ::
  "('w outside \<Rightarrow> guard_context \<Rightarrow> 'w \<Rightarrow> outcome \<times> 'w) \<Rightarrow> 'w outside \<Rightarrow> guard_context \<Rightarrow> 'w
     \<Rightarrow> (py_error + outcome) \<times> 'w"
where
  "never_raising g E ctx w = (case g E ctx w of (res, w') \<Rightarrow> (Inr res, w'))"

definition default_guards :: "'w guard list" where
  "default_guards =
     [(''engine_ready_guard'', never_raising engine_ready_guard),
      (''select_only_guard'', never_raising select_only_guard),
      (''dirty_table_guard'', never_raising dirty_table_guard),
      (''schema_match_guard'', never_raising schema_match_guard),
      (''placeholder_arity_guard'', never_raising placeholder_arity_guard)]"

fun evaluate_guards ::
  "'w outside \<Rightarrow> guard_context \<Rightarrow> 'w guard list \<Rightarrow> guard_result list \<Rightarrow> 'w
     \<Rightarrow> (bool \<times> guard_result list) \<times> 'w"
where
  "evaluate_guards E ctx [] acc w = ((True, acc), w)"
| "evaluate_guards E ctx ((name, g) # gs) acc w =
     (case g E ctx w of
        (Inl exc, w') \<Rightarrow>
          ((False, acc @ [(name, False, ''guard raised: '' @ exc_text E exc)]), w')
      | (Inr (ok, detail), w') \<Rightarrow>
          if \<not> ok then ((False, acc @ [(name, ok, detail)]), w')
          else evaluate_guards E ctx gs (acc @ [(name, ok, detail)]) w')"

definition evaluate :: "'w outside \<Rightarrow> guard_context \<Rightarrow> 'w \<Rightarrow> (bool \<times> guard_result list) \<times> 'w" where
  "evaluate E ctx w = evaluate_guards E ctx default_guards [] w"

section \<open>Lemmas\<close>

lemma evaluate_guards_results:
  "evaluate_guards E ctx gs acc w = ((ok, rs), w') \<Longrightarrow>
   \<exists>ts. rs = acc @ ts \<and> length ts \<le> length gs \<and> map fst ts = take (length ts) (map fst gs) \<and>
     (if ok then length ts = length gs \<and> list_all (\<lambda>(n, p, d). p) ts
      else ts \<noteq> [] \<and> list_all (\<lambda>(n, p, d). p) (butlast ts) \<and> \<not> fst (snd (List.last ts)))"
proof (induction gs arbitrary: acc w)
  case (Cons g gs)
  obtain name f where g: "g = (name, f)" by (cases g)
  obtain res w1 where f0: "f E ctx w = (res, w1)" by (metis surj_pair)
  show ?case
  proof (cases res)
    case (Inl exc)
    with Cons.prems g f0 show ?thesis
      by (intro exI [of _ "[(name, False, ''guard raised: '' @ exc_text E exc)]"]) auto
  next
    case (Inr outcome)
    obtain p d where f: "f E ctx w = (Inr (p, d), w1)" using f0 Inr by (cases outcome) auto
    show ?thesis
  proof (cases p)
    case True
    with Cons.prems g f have "evaluate_guards E ctx gs (acc @ [(name, p, d)]) w1 = ((ok, rs), w')" by simp
    from Cons.IH [OF this] obtain ts where ts: "rs = (acc @ [(name, p, d)]) @ ts"
      "length ts \<le> length gs" "map fst ts = take (length ts) (map fst gs)"
      "if ok then length ts = length gs \<and> list_all (\<lambda>(n, p, d). p) ts
       else ts \<noteq> [] \<and> list_all (\<lambda>(n, p, d). p) (butlast ts) \<and> \<not> fst (snd (List.last ts))"
      by blast
    then show ?thesis using True g by (intro exI [of _ "(name, p, d) # ts"]) auto
  next
    case False
    with Cons.prems g f show ?thesis by (intro exI [of _ "[(name, p, d)]"]) auto
  qed
  qed
qed simp

text \<open>A passed stack was evaluated guard by guard, each saying yes.\<close>

lemma evaluate_guards_mem:
  "evaluate_guards E ctx gs acc w = ((True, rs), w') \<Longrightarrow> (name, g) \<in> set gs \<Longrightarrow>
   \<exists>w1 d w2. g E ctx w1 = (Inr (True, d), w2)"
proof (induction gs arbitrary: acc w)
  case (Cons h gs)
  obtain n f where h: "h = (n, f)" by (cases h)
  obtain p d w1 where f: "f E ctx w = (Inr (p, d), w1)"
    using Cons.prems(1) h by (auto split: prod.splits sum.splits)
  with Cons.prems(1) h have p: p "evaluate_guards E ctx gs (acc @ [(n, p, d)]) w1 = ((True, rs), w')"
    by (auto split: if_splits)
  show ?case
  proof (cases "(name, g) = h")
    case True
    with h f p(1) show ?thesis by auto
  qed (use Cons.IH [OF p(2)] Cons.prems(2) in auto)
qed simp

lemma evaluate_passed:
  assumes "evaluate E ctx w = ((True, rs), w')"
  shows "engine (g_binding ctx) \<noteq> None" "is_select (lang E) (g_sql ctx)"
    "\<not> reg_is_dirty (g_registry ctx) (g_binding ctx)"
    "\<And>m. g_params ctx \<noteq> MapParams m"
    "list_all (\<lambda>(n, p, d). p) rs" "length rs = 5"
proof -
  note pass = evaluate_guards_mem [OF assms [unfolded evaluate_def]]
  from pass [of "''engine_ready_guard''" "never_raising engine_ready_guard"]
  show "engine (g_binding ctx) \<noteq> None"
    by (auto simp: default_guards_def never_raising_def engine_ready_guard_def split: option.splits)
  from pass [of "''select_only_guard''" "never_raising select_only_guard"]
  show "is_select (lang E) (g_sql ctx)"
    by (auto simp: default_guards_def never_raising_def select_only_guard_def split: if_splits)
  from pass [of "''dirty_table_guard''" "never_raising dirty_table_guard"]
  show "\<not> reg_is_dirty (g_registry ctx) (g_binding ctx)"
    by (auto simp: default_guards_def never_raising_def dirty_table_guard_def split: if_splits)
  from pass [of "''placeholder_arity_guard''" "never_raising placeholder_arity_guard"]
  show "g_params ctx \<noteq> MapParams m" for m
    by (auto simp: default_guards_def never_raising_def placeholder_arity_guard_def)
  from evaluate_guards_results [OF assms [unfolded evaluate_def]]
  show "list_all (\<lambda>(n, p, d). p) rs" "length rs = 5" by (auto simp: default_guards_def)
qed

end
