(* ===== verification/Router_Policy.thy ===== *)
theory Router_Policy
  imports Py_Values
begin

text \<open>
  The routing policy of a connection (\<open>router/policy.py\<close>): the mode, the immutable knob
  record with its defaults, derived policies, and the policy read from the environment.
  The environment is a function from variable names to optional values.
\<close>

section \<open>Data\<close>

datatype router_mode = OFF | SAMPLED | BESPOKE_ONLY

fun mode_value :: "router_mode \<Rightarrow> string" where
  "mode_value OFF = ''off''"
| "mode_value SAMPLED = ''sampled''"
| "mode_value BESPOKE_ONLY = ''bespoke_only''"

text \<open>\<open>RouterMode(value)\<close>: the member with this value, else \<open>ValueError\<close>.\<close>

definition mode_of_value :: "string \<Rightarrow> py_error + router_mode" where
  "mode_of_value s =
     (if s = ''off'' then Inr OFF
      else if s = ''sampled'' then Inr SAMPLED
      else if s = ''bespoke_only'' then Inr BESPOKE_ONLY
      else Inl (ValueError s))"

definition mode_values :: "string list" where
  "mode_values = [''off'', ''sampled'', ''bespoke_only'']"

record router_policy =
  mode :: router_mode
  enabled :: bool
  block_writes :: bool
  cross_check_rate :: pyfloat
  verify_first_n :: int
  select_only :: bool
  require_schema_match :: bool
  require_sf_match :: bool
  engine_timeout_ms :: int
  breaker_threshold :: int
  max_result_bytes :: int
  allow_templates :: "string set option"
  deny_templates :: "string set"
  verbose :: bool

definition default_policy :: router_policy where
  "default_policy =
     \<lparr>mode = SAMPLED, enabled = True, block_writes = True,
      cross_check_rate = Num (Fin (1 / 10)), verify_first_n = 10, select_only = True,
      require_schema_match = True, require_sf_match = True, engine_timeout_ms = 30000,
      breaker_threshold = 3, max_result_bytes = 512 * 1024 * 1024,
      allow_templates = None, deny_templates = {}, verbose = True\<rparr>"

definition routing_active :: "router_policy \<Rightarrow> bool" where
  "routing_active p \<longleftrightarrow> enabled p \<and> mode p \<noteq> OFF"

section \<open>Derived policies\<close>

text \<open>One keyword argument of \<open>with_\<close>; the mode may be given as a string.\<close>

datatype policy_override =
    SetModeText string
  | SetMode router_mode
  | SetEnabled bool
  | SetBlockWrites bool
  | SetCrossCheckRate pyfloat
  | SetVerifyFirstN int
  | SetBreakerThreshold int
  | SetVerbose bool

fun apply_override :: "router_policy \<Rightarrow> policy_override \<Rightarrow> py_error + router_policy" where
  "apply_override p (SetModeText s) =
     (case mode_of_value s of Inl e \<Rightarrow> Inl e | Inr m \<Rightarrow> Inr (p\<lparr>mode := m\<rparr>))"
| "apply_override p (SetMode m) = Inr (p\<lparr>mode := m\<rparr>)"
| "apply_override p (SetEnabled b) = Inr (p\<lparr>enabled := b\<rparr>)"
| "apply_override p (SetBlockWrites b) = Inr (p\<lparr>block_writes := b\<rparr>)"
| "apply_override p (SetCrossCheckRate r) = Inr (p\<lparr>cross_check_rate := r\<rparr>)"
| "apply_override p (SetVerifyFirstN n) = Inr (p\<lparr>verify_first_n := n\<rparr>)"
| "apply_override p (SetBreakerThreshold n) = Inr (p\<lparr>breaker_threshold := n\<rparr>)"
| "apply_override p (SetVerbose b) = Inr (p\<lparr>verbose := b\<rparr>)"

fun with_overrides :: "router_policy \<Rightarrow> policy_override list \<Rightarrow> py_error + router_policy" where
  "with_overrides p [] = Inr p"
| "with_overrides p (x # xs) =
     (case apply_override p x of Inl e \<Rightarrow> Inl e | Inr p' \<Rightarrow> with_overrides p' xs)"

section \<open>The policy from the environment\<close>

definition true_words :: "string list" where
  "true_words = [''1'', ''true'', ''yes'', ''on'']"

definition false_words :: "string list" where
  "false_words = [''0'', ''false'', ''no'', ''off'']"

definition env_bool :: "(string \<Rightarrow> string option) \<Rightarrow> string \<Rightarrow> bool \<Rightarrow> bool" where
  "env_bool env name dflt =
     (case env name of
        None \<Rightarrow> dflt
      | Some raw \<Rightarrow>
          (let low = py_lower (py_strip raw)
           in if low \<in> set true_words then True
              else if low \<in> set false_words then False
              else dflt))"

definition env_float :: "(string \<Rightarrow> string option) \<Rightarrow> string \<Rightarrow> pyfloat \<Rightarrow> pyfloat" where
  "env_float env name dflt =
     (case env name of
        None \<Rightarrow> dflt
      | Some raw \<Rightarrow> (case py_float_of_str raw of Some v \<Rightarrow> v | None \<Rightarrow> dflt))"

definition env_int :: "(string \<Rightarrow> string option) \<Rightarrow> string \<Rightarrow> int \<Rightarrow> int" where
  "env_int env name dflt =
     (case env name of
        None \<Rightarrow> dflt
      | Some raw \<Rightarrow> (case py_int_of_str raw of Some v \<Rightarrow> v | None \<Rightarrow> dflt))"

definition env_mode :: "(string \<Rightarrow> string option) \<Rightarrow> router_policy \<Rightarrow> bool \<times> router_mode" where
  "env_mode env base =
     (case env ''SYNNODB_ROUTER'' of
        None \<Rightarrow> (enabled base, mode base)
      | Some raw \<Rightarrow>
          (let low = py_lower (py_strip raw)
           in if low \<in> set false_words \<or> low = ''off'' then (False, OFF)
              else if low \<in> set mode_values then
                (enabled base, (case mode_of_value low of Inr m \<Rightarrow> m | Inl _ \<Rightarrow> mode base))
              else if low \<in> set true_words then (enabled base, SAMPLED)
              else (enabled base, mode base)))"

definition policy_from_env ::
  "(string \<Rightarrow> string option) \<Rightarrow> policy_override list \<Rightarrow> py_error + router_policy" where
  "policy_from_env env overrides =
     (let base = default_policy;
          (en, m) = env_mode env base;
          p = base\<lparr>mode := m, enabled := en,
                verbose := env_bool env ''SYNNODB_VERBOSE'' (verbose base),
                cross_check_rate := env_float env ''SYNNODB_CROSS_CHECK'' (cross_check_rate base),
                verify_first_n := env_int env ''SYNNODB_VERIFY_FIRST_N'' (verify_first_n base),
                block_writes := env_bool env ''SYNNODB_BLOCK_WRITES'' (block_writes base)\<rparr>
      in if overrides = [] then Inr p else with_overrides p overrides)"

section \<open>Lemmas\<close>

lemma mode_roundtrip [simp]: "mode_of_value (mode_value m) = Inr m"
  by (cases m) (simp_all add: mode_of_value_def)

lemma mode_of_value_Inr: "mode_of_value s = Inr m \<Longrightarrow> mode_value m = s"
  by (auto simp: mode_of_value_def split: if_splits)

lemma mode_of_value_total: "s \<in> set mode_values \<Longrightarrow> \<exists>m. mode_of_value s = Inr m"
  by (auto simp: mode_values_def mode_of_value_def)

lemma env_bool_default [simp]: "env n = None \<Longrightarrow> env_bool env n d = d"
  by (simp add: env_bool_def)

lemma env_float_default [simp]: "env n = None \<Longrightarrow> env_float env n d = d"
  by (simp add: env_float_def)

lemma env_int_default [simp]: "env n = None \<Longrightarrow> env_int env n d = d"
  by (simp add: env_int_def)

lemma env_mode_off:
  "env ''SYNNODB_ROUTER'' = Some raw \<Longrightarrow> py_lower (py_strip raw) \<in> set false_words \<Longrightarrow>
   env_mode env base = (False, OFF)"
  by (simp add: env_mode_def)

text \<open>The three mode words, as the environment spells them, select that mode.\<close>

lemma env_mode_value:
  "env ''SYNNODB_ROUTER'' = Some raw \<Longrightarrow> py_lower (py_strip raw) = mode_value m \<Longrightarrow> m \<noteq> OFF \<Longrightarrow>
   env_mode env base = (enabled base, m)"
  by (cases m) (simp_all add: env_mode_def false_words_def mode_values_def mode_of_value_def)

lemma with_overrides_append:
  "with_overrides p (xs @ ys) =
     (case with_overrides p xs of Inl e \<Rightarrow> Inl e | Inr p' \<Rightarrow> with_overrides p' ys)"
  by (induction xs arbitrary: p) (auto split: sum.splits)

section \<open>Properties\<close>

text \<open>
  The kill switch works: for every spelling of ``off'' (\<open>0\<close>, \<open>false\<close>, \<open>no\<close>, \<open>off\<close>, any
  case, surrounding blanks) in \<open>SYNNODB_ROUTER\<close>, whatever the other variables say, the
  environment's policy exists and never routes.
\<close>

theorem env_kill_switch:
  assumes "env ''SYNNODB_ROUTER'' = Some raw"
    and "py_lower (py_strip raw) \<in> set false_words"
  shows "\<exists>p. policy_from_env env [] = Inr p \<and> \<not> routing_active p \<and> mode p = OFF \<and> \<not> enabled p"
proof -
  have "env_mode env default_policy = (False, OFF)"
    using assms by (rule env_mode_off)
  then show ?thesis by (simp add: policy_from_env_def routing_active_def)
qed

theorem env_kill_switch_witness:
  "\<exists>p. policy_from_env [''SYNNODB_ROUTER'' \<mapsto> '' No''] [] = Inr p \<and> \<not> routing_active p
       \<and> mode p = OFF \<and> \<not> enabled p"
  by (rule env_kill_switch [where raw = "'' No''"])
    (simp, code_simp)

text \<open>
  An empty environment yields exactly the built-in defaults, which route, block writes, sample
  a tenth of the queries and verify the first ten.
\<close>

lemma env_empty_defaults:
  "policy_from_env (\<lambda>_. None) [] = Inr default_policy"
  by (simp add: policy_from_env_def env_mode_def default_policy_def)

end
