(* ===== verification/Bipartite_Match.thy ===== *)
theory Bipartite_Match
  imports Synno_Prelude "HOL-Library.Multiset"
begin

text \<open>
  The augmenting-path matcher shared by \<open>_match_float_vecs\<close> and \<open>_match_float_vecs_subset\<close>
  (\<open>router/adapt.py\<close>): \<open>augment(i, seen)\<close> with the list \<open>match\<close> it mutates, and the driver that
  augments every left index. \<open>None\<close> in \<open>match\<close> is the code's \<open>-1\<close>. The recursion depth is
  bounded by fuel; \<open>augment_fuel\<close> shows one more than the number of unseen columns is enough.
\<close>

section \<open>Definitions\<close>

type_synonym matching = "nat option list"

fun augment ::
  "bool list list \<Rightarrow> nat \<Rightarrow> nat \<Rightarrow> nat list \<Rightarrow> bool list \<Rightarrow> matching \<Rightarrow> (bool \<times> bool list \<times> matching) option"
where
  "augment cm 0 i js seen m = None"
| "augment cm (Suc f) i [] seen m = Some (False, seen, m)"
| "augment cm (Suc f) i (j # js) seen m =
     (if cm ! i ! j \<and> \<not> seen ! j then
        (let seen1 = seen[j := True] in
         case m ! j of
           None \<Rightarrow> Some (True, seen1, m[j := Some i])
         | Some i' \<Rightarrow>
             (case augment cm f i' [0..<length seen] seen1 m of
                None \<Rightarrow> None
              | Some (ok, seen2, m2) \<Rightarrow>
                  if ok then Some (True, seen2, m2[j := Some i])
                  else augment cm (Suc f) i js seen2 m2))
      else augment cm (Suc f) i js seen m)"

text \<open>\<open>all(augment(i, [False] * n) for i in range(k))\<close> over \<open>n\<close> right-hand entries.\<close>

fun match_all :: "bool list list \<Rightarrow> nat \<Rightarrow> nat list \<Rightarrow> matching \<Rightarrow> (bool \<times> matching) option" where
  "match_all cm n [] m = Some (True, m)"
| "match_all cm n (i # is) m =
     (case augment cm (Suc n) i [0..<n] (replicate n False) m of
        None \<Rightarrow> None
      | Some (ok, seen, m') \<Rightarrow> if ok then match_all cm n is m' else Some (False, m'))"

definition bipartite_ok :: "bool list list \<Rightarrow> nat \<Rightarrow> nat \<Rightarrow> bool" where
  "bipartite_ok cm k n =
     (case match_all cm n [0..<k] (replicate n None) of Some (ok, m) \<Rightarrow> ok | None \<Rightarrow> False)"

section \<open>Fuel\<close>

definition unseen :: "bool list \<Rightarrow> nat" where
  "unseen seen = length (filter Not seen)"

lemma unseen_update: "j < length seen \<Longrightarrow> \<not> seen ! j \<Longrightarrow> Suc (unseen (seen[j := True])) = unseen seen"
  by (induction seen arbitrary: j) (auto simp: unseen_def nth_Cons split: nat.splits)

text \<open>Induction over the calls a finished \<open>augment\<close> made.\<close>

lemma augment_induct [consumes 1, case_names nil skip free hit miss]:
  assumes "augment cm f i js seen m = Some (ok, seen', m')"
    and nil: "\<And>i seen m. P i [] seen m False seen m"
    and skip: "\<And>i j js seen m ok seen' m'. \<not> (cm ! i ! j \<and> \<not> seen ! j) \<Longrightarrow>
      P i js seen m ok seen' m' \<Longrightarrow> P i (j # js) seen m ok seen' m'"
    and free: "\<And>i j js seen m. cm ! i ! j \<Longrightarrow> \<not> seen ! j \<Longrightarrow> m ! j = None \<Longrightarrow>
      P i (j # js) seen m True (seen[j := True]) (m[j := Some i])"
    and hit: "\<And>i j js seen m i' seen' m'. cm ! i ! j \<Longrightarrow> \<not> seen ! j \<Longrightarrow> m ! j = Some i' \<Longrightarrow>
      P i' [0..<length seen] (seen[j := True]) m True seen' m' \<Longrightarrow>
      P i (j # js) seen m True seen' (m'[j := Some i])"
    and miss: "\<And>i j js seen m i' s2 m2 ok seen' m'. cm ! i ! j \<Longrightarrow> \<not> seen ! j \<Longrightarrow>
      m ! j = Some i' \<Longrightarrow> P i' [0..<length seen] (seen[j := True]) m False s2 m2 \<Longrightarrow>
      P i js s2 m2 ok seen' m' \<Longrightarrow> P i (j # js) seen m ok seen' m'"
  shows "P i js seen m ok seen' m'"
proof -
  have "augment c f i js seen m = Some (ok, seen', m') \<Longrightarrow> c = cm \<Longrightarrow> P i js seen m ok seen' m'" for c
  proof (induction c f i js seen m arbitrary: ok seen' m' rule: augment.induct)
  case (3 c f i j js seen m ok seen' m')
  note eq = "3.prems"(1) and [simp] = "3.prems"(2)
  show ?case
  proof (cases "c ! i ! j \<and> \<not> seen ! j")
    case True
    then have T: "cm ! i ! j" "\<not> seen ! j" by auto
    show ?thesis
    proof (cases "m ! j")
      case None
      then show ?thesis using eq True free [OF T None] by auto
    next
      case (Some i')
      then obtain ok2 s2 m2 where a: "augment c f i' [0..<length seen] (seen[j := True]) m = Some (ok2, s2, m2)"
        using eq True by (auto split: option.splits)
      have P1: "P i' [0..<length seen] (seen[j := True]) m ok2 s2 m2"
        using "3.IH"(1) [OF True refl Some a] by simp
      show ?thesis
      proof (cases ok2)
        case ok2: True
        then show ?thesis using hit [OF T Some] P1 eq True Some a by auto
      next
        case False
        then have "augment c (Suc f) i js s2 m2 = Some (ok, seen', m')"
          using eq True Some a by auto
        then have "P i js s2 m2 ok seen' m'"
          using "3.IH"(2) [OF True refl Some a refl refl False] by simp
        then show ?thesis using miss [OF T Some] P1 False by simp
      qed
    qed
  next
    case False
    from eq have "augment c (Suc f) i js seen m = Some (ok, seen', m')"
      by (simp only: augment.simps(3) False if_False)
    then have "P i js seen m ok seen' m'" using "3.IH"(3) [OF False] by simp
    then show ?thesis using skip False by simp
  qed
  qed (use nil in auto)
  with assms(1) show ?thesis by simp
qed

lemma augment_length:
  "augment cm f i js seen m = Some (ok, seen', m') \<Longrightarrow>
   length seen' = length seen \<and> length m' = length m"
  by (induction rule: augment_induct) auto

lemma upd_True: "k < length s \<Longrightarrow> s ! k \<Longrightarrow> s[j := True] ! k"
  by (cases "j = k") auto

lemma augment_mono_aux:
  "augment cm f i js seen m = Some (ok, seen', m') \<Longrightarrow>
   length seen' = length seen \<and> (\<forall>j < length seen. seen ! j \<longrightarrow> seen' ! j)"
  by (induction rule: augment_induct) (auto simp: upd_True)

lemma augment_mono:
  "augment cm f i js seen m = Some (ok, seen', m') \<Longrightarrow> j < length seen \<Longrightarrow> seen ! j \<Longrightarrow> seen' ! j"
  using augment_mono_aux by blast

lemma unseen_le:
  "length a = length b \<Longrightarrow> (\<And>j. j < length a \<Longrightarrow> a ! j \<Longrightarrow> b ! j) \<Longrightarrow> unseen b \<le> unseen a"
proof (induction a b rule: list_induct2)
  case (Cons x xs y ys)
  have "unseen ys \<le> unseen xs" using Cons.prems by (intro Cons.IH) (metis Suc_less_eq length_Cons nth_Cons_Suc)
  moreover have "x \<Longrightarrow> y" using Cons.prems [of 0] by simp
  ultimately show ?case by (auto simp: unseen_def)
qed simp

lemma augment_unseen:
  "augment cm f i js seen m = Some (ok, seen', m') \<Longrightarrow> unseen seen' \<le> unseen seen"
  using augment_length [of cm f i js seen m ok seen' m'] augment_mono [of cm f i js seen m ok seen' m']
  by (intro unseen_le) auto

lemma augment_fuel:
  "unseen seen < f \<Longrightarrow> set js \<subseteq> {0..<length seen} \<Longrightarrow> augment cm f i js seen m \<noteq> None"
proof (induction cm f i js seen m rule: augment.induct)
  case (3 cm f i j js seen m)
  show ?case
  proof (cases "cm ! i ! j \<and> \<not> seen ! j")
    case True
    show ?thesis
    proof (cases "m ! j")
      case (Some i')
      have j: "j < length seen" using "3.prems" by simp
      have "unseen (seen[j := True]) < f"
        using unseen_update [OF j] True "3.prems" by simp
      then obtain ok s m' where a: "augment cm f i' [0..<length seen] (seen[j := True]) m = Some (ok, s, m')"
        using "3.IH"(1) [OF True refl Some] by (cases "augment cm f i' [0..<length seen] (seen[j := True]) m") auto
      show ?thesis
      proof (cases ok)
        case False
        have "unseen s < Suc f" "length s = length seen"
          using augment_unseen [OF a] augment_length [OF a] \<open>unseen (seen[j := True]) < f\<close> by auto
        then show ?thesis
          using "3.IH"(2) [OF True refl Some a refl refl False] "3.prems" True Some a False by simp
      qed (use True Some a in simp)
    qed (use True in simp)
  next
    case False
    then show ?thesis using "3.IH"(3) "3.prems" by auto
  qed
qed auto

section \<open>Soundness: the result is a one-to-one assignment\<close>

definition matched :: "matching \<Rightarrow> nat multiset" where
  "matched m = mset (List.map_filter id m)"

definition matching_ok :: "bool list list \<Rightarrow> matching \<Rightarrow> bool" where
  "matching_ok cm m \<longleftrightarrow> (\<forall>j < length m. \<forall>i. m ! j = Some i \<longrightarrow> cm ! i ! j)"

lemma matched_Cons: "matched (x # m) = (case x of None \<Rightarrow> matched m | Some i \<Rightarrow> add_mset i (matched m))"
  by (auto simp: matched_def map_filter_simps split: option.splits)

lemma matched_update_None:
  "j < length m \<Longrightarrow> m ! j = None \<Longrightarrow> matched (m[j := Some i]) = add_mset i (matched m)"
  by (induction m arbitrary: j) (auto simp: matched_Cons nth_Cons split: nat.splits option.splits)

lemma matched_update_Some:
  "j < length m \<Longrightarrow> m ! j = Some i' \<Longrightarrow> add_mset i' (matched (m[j := Some i])) = add_mset i (matched m)"
  by (induction m arbitrary: j) (auto simp: matched_Cons nth_Cons split: nat.splits option.splits)

lemma matching_ok_update:
  "matching_ok cm m \<Longrightarrow> cm ! i ! j \<Longrightarrow> matching_ok cm (m[j := Some i])"
  unfolding matching_ok_def
proof (intro allI impI)
  fix k l assume *: "\<forall>j<length m. \<forall>i. m ! j = Some i \<longrightarrow> cm ! i ! j" "cm ! i ! j"
    "k < length (m[j := Some i])" "(m[j := Some i]) ! k = Some l"
  then show "cm ! l ! k" by (cases "j = k") auto
qed

lemma augment_sound_aux:
  "augment cm f i js seen m = Some (ok, seen', m') \<Longrightarrow> length m = length seen \<Longrightarrow>
   set js \<subseteq> {0..<length seen} \<Longrightarrow> matching_ok cm m \<Longrightarrow>
   length m' = length m \<and> length seen' = length seen \<and>
   (\<forall>j < length seen. seen ! j \<longrightarrow> m' ! j = m ! j \<and> seen' ! j) \<and>
   matching_ok cm m' \<and> (if ok then matched m' = add_mset i (matched m) else m' = m)"
proof (induction rule: augment_induct)
  case (free i j js seen m)
  then show ?case
    by (auto simp: matched_update_None matching_ok_update nth_list_update)
next
  case (hit i j js seen m i' seen' m')
  then have j: "j < length seen" by simp
  have ih: "length m' = length m" "length seen' = length seen" "matching_ok cm m'"
    "matched m' = add_mset i' (matched m)"
    and fr: "\<And>k. k < length seen \<Longrightarrow> (seen[j := True]) ! k \<Longrightarrow> m' ! k = m ! k \<and> seen' ! k"
    using hit by auto
  have "m' ! j = Some i'" using fr [of j] j hit.hyps(3) by simp
  then have "add_mset i' (matched (m'[j := Some i])) = add_mset i (matched m')"
    using matched_update_Some [of j m' i' i] j ih(1) hit.prems(1) by simp
  then have "matched (m'[j := Some i]) = add_mset i (matched m)"
    using ih(4) by (simp add: add_mset_commute)
  moreover have "(m'[j := Some i]) ! k = m ! k \<and> seen' ! k" if k: "k < length seen" "seen ! k" for k
  proof -
    have "k \<noteq> j" using k hit.hyps(2) by auto
    then show ?thesis using fr [of k] k by (simp add: upd_True)
  qed
  ultimately show ?case using ih hit.hyps(1) hit.prems(1) by (simp add: matching_ok_update)
next
  case (miss i j js seen m i' s2 m2 ok seen' m')
  have ih1: "m2 = m" "length s2 = length seen"
    and fr: "\<And>k. k < length seen \<Longrightarrow> (seen[j := True]) ! k \<Longrightarrow> s2 ! k"
    using miss.IH(1) miss.prems by auto
  have "s2 ! k" if "k < length seen" "seen ! k" for k
    using fr [of k] that by (simp add: upd_True)
  then show ?case using miss.IH(2) miss.prems ih1 by simp
qed auto

lemma augment_sound:
  "augment cm f i js seen m = Some (ok, seen', m') \<Longrightarrow> length m = length seen \<Longrightarrow>
   set js \<subseteq> {0..<length seen} \<Longrightarrow> matching_ok cm m \<Longrightarrow>
   matching_ok cm m' \<and> (if ok then matched m' = add_mset i (matched m) else m' = m)"
  using augment_sound_aux by blast

lemma match_all_sound:
  "match_all cm n is m = Some (True, m') \<Longrightarrow> length m = n \<Longrightarrow> matching_ok cm m \<Longrightarrow>
   matching_ok cm m' \<and> matched m' = matched m + mset is \<and> length m' = n"
proof (induction cm n "is" m arbitrary: m' rule: match_all.induct)
  case (2 cm n i "is" m)
  then obtain seen m1 where a: "augment cm (Suc n) i [0..<n] (replicate n False) m = Some (True, seen, m1)"
    and r: "match_all cm n is m1 = Some (True, m')"
  proof (cases "augment cm (Suc n) i [0..<n] (replicate n False) m")
    case (Some t)
    then show ?thesis using "2.prems"(1) that by (cases t) (auto split: if_splits)
  qed (use "2.prems"(1) in simp)
  from augment_sound [OF a] augment_length [OF a] "2.prems"
  have "matching_ok cm m1" "matched m1 = add_mset i (matched m)" "length m1 = n" by auto
  with "2.IH" [OF a refl refl TrueI r] show ?case by simp
qed auto

section \<open>Completeness: a failed augmentation is a Hall violation\<close>

definition closed_from :: "bool list list \<Rightarrow> matching \<Rightarrow> bool list \<Rightarrow> nat \<Rightarrow> bool" where
  "closed_from cm m s j \<longleftrightarrow>
     (\<exists>i. m ! j = Some i \<and> (\<forall>j' < length s. cm ! i ! j' \<longrightarrow> s ! j'))"

lemma closed_from_mono:
  "closed_from cm m s j \<Longrightarrow> length t = length s \<Longrightarrow> (\<And>k. k < length s \<Longrightarrow> s ! k \<Longrightarrow> t ! k) \<Longrightarrow>
   closed_from cm m t j"
  by (auto simp: closed_from_def)

lemma augment_closed_aux:
  "augment cm f i js seen m = Some (ok, seen', m') \<Longrightarrow> set js \<subseteq> {0..<length seen} \<Longrightarrow> \<not> ok \<Longrightarrow>
   m' = m \<and> length seen' = length seen \<and> (\<forall>k < length seen. seen ! k \<longrightarrow> seen' ! k) \<and>
   (\<forall>j \<in> set js. cm ! i ! j \<longrightarrow> seen' ! j) \<and>
   (\<forall>j < length seen. seen' ! j \<and> \<not> seen ! j \<longrightarrow> closed_from cm m seen' j)"
proof (induction rule: augment_induct)
  case (skip i j js seen m ok seen' m')
  then show ?case by auto
next
  case (miss i j js seen m i' s2 m2 ok seen' m')
  have j: "j < length seen" using miss.prems by simp
  have 1: "m2 = m" "length s2 = length seen"
    "\<And>k. k < length seen \<Longrightarrow> (seen[j := True]) ! k \<Longrightarrow> s2 ! k"
    "\<And>k. k < length seen \<Longrightarrow> cm ! i' ! k \<Longrightarrow> s2 ! k"
    "\<And>k. k < length seen \<Longrightarrow> s2 ! k \<Longrightarrow> \<not> (seen[j := True]) ! k \<Longrightarrow> closed_from cm m s2 k"
    using miss.IH(1) by auto
  have 2: "m' = m2" "length seen' = length s2" "\<And>k. k < length s2 \<Longrightarrow> s2 ! k \<Longrightarrow> seen' ! k"
    "\<And>k. k \<in> set js \<Longrightarrow> cm ! i ! k \<Longrightarrow> seen' ! k"
    "\<And>k. k < length s2 \<Longrightarrow> seen' ! k \<Longrightarrow> \<not> s2 ! k \<Longrightarrow> closed_from cm m2 seen' k"
    using miss.IH(2) miss.prems 1(2) by auto
  have new: "closed_from cm m seen' k" if k: "k < length seen" "seen' ! k" "\<not> seen ! k" for k
  proof (cases "s2 ! k \<and> k \<noteq> j")
    case True
    then have "closed_from cm m s2 k" using 1(5) [OF k(1)] k(3) by simp
    then show ?thesis using 1(2) 2(2,3) by (intro closed_from_mono [of cm m s2 k seen']) auto
  next
    case False
    show ?thesis
    proof (cases "k = j")
      case True
      then show ?thesis using miss.hyps(3) 1(2,4) 2(2,3) by (simp add: closed_from_def)
    qed (use False 2(5) k 1(1,2) in auto)
  qed
  have "seen' ! k" if "k < length seen" "seen ! k" for k
    using that 1(2,3) 2(3) upd_True [of k seen j] by simp
  moreover have "seen' ! j" using j 1(2) 1(3) [of j] 2(3) by simp
  ultimately show ?case using new 1(1,2) 2(1,2,4) by auto
qed auto

lemma augment_closed:
  "augment cm f i js seen m = Some (False, seen', m') \<Longrightarrow> set js \<subseteq> {0..<length seen} \<Longrightarrow>
   m' = m \<and> length seen' = length seen \<and>
   (\<forall>j \<in> set js. cm ! i ! j \<longrightarrow> seen' ! j) \<and>
   (\<forall>j < length seen. seen' ! j \<and> \<not> seen ! j \<longrightarrow> closed_from cm m seen' j)"
  using augment_closed_aux by blast

text \<open>
  \<open>p\<close> is a perfect assignment of the left indices \<open>{0..<k}\<close>: injective and compatible.
\<close>

definition assignment :: "bool list list \<Rightarrow> nat \<Rightarrow> nat \<Rightarrow> (nat \<Rightarrow> nat) \<Rightarrow> bool" where
  "assignment cm k n p \<longleftrightarrow> inj_on p {0..<k} \<and> (\<forall>i < k. p i < n \<and> cm ! i ! p i)"

lemma matched_mem: "i \<in># matched m \<longleftrightarrow> Some i \<in> set m"
  by (induction m) (auto simp: matched_Cons matched_def map_filter_simps split: option.splits)

lemma matched_count_two:
  "j < length m \<Longrightarrow> k < length m \<Longrightarrow> j \<noteq> k \<Longrightarrow> m ! j = Some i \<Longrightarrow> m ! k = Some i \<Longrightarrow>
   2 \<le> count (matched m) i"
proof (induction m arbitrary: j k)
  case (Cons x m)
  have one: "1 \<le> count (matched m) i" if "a < length m" "m ! a = Some i" for a
    using that matched_mem [of i m] by (auto simp: Suc_le_eq in_set_conv_nth)
  show ?case
  proof (cases j)
    case 0
    then obtain a where "k = Suc a" using Cons.prems by (cases k) auto
    with 0 Cons.prems one [of a] show ?thesis by (simp add: matched_Cons)
  next
    case (Suc a)
    show ?thesis
    proof (cases k)
      case 0
      with Suc Cons.prems one [of a] show ?thesis by (simp add: matched_Cons)
    next
      case (Suc b)
      with \<open>j = Suc a\<close> Cons.prems Cons.IH [of a b] have "2 \<le> count (matched m) i" by simp
      moreover have "count (matched m) i \<le> count (matched (x # m)) i"
        by (cases x) (simp_all add: matched_Cons)
      ultimately show ?thesis by linarith
    qed
  qed
qed simp

lemma hall_violation:
  assumes asg: "assignment cm k n p"
    and i: "i < k" and m: "matched m \<subseteq># mset [0..<i]" and len: "length m = n"
    and a: "augment cm f i [0..<n] (replicate n False) m = Some (False, seen', m')"
  shows False
proof -
  let ?S = "{j. j < n \<and> seen' ! j}"
  have cl: "\<And>j. j < n \<Longrightarrow> cm ! i ! j \<Longrightarrow> seen' ! j"
    "\<And>j. j < n \<Longrightarrow> seen' ! j \<Longrightarrow> \<exists>i'. m ! j = Some i' \<and> (\<forall>j' < n. cm ! i' ! j' \<longrightarrow> seen' ! j')"
    using augment_closed [OF a] len unfolding closed_from_def by auto
  define g where "g j = the (m ! j)" for j
  have gS: "m ! j = Some (g j)" "\<And>j'. j' < n \<Longrightarrow> cm ! g j ! j' \<Longrightarrow> seen' ! j'" if "j \<in> ?S" for j
    using cl(2) [of j] that by (auto simp: g_def)
  have gless: "g j < i" if "j \<in> ?S" for j
  proof -
    have "j < length m" using that len by simp
    then have "Some (g j) \<in> set m" using gS(1) [OF that] nth_mem by force
    then have "g j \<in># matched m" by (simp add: matched_mem)
    with m have "g j \<in># mset [0..<i]" by (rule mset_subset_eqD)
    then show ?thesis by simp
  qed
  have inj: "inj_on g ?S"
  proof (rule inj_onI, rule ccontr)
    fix x y assume xy: "x \<in> ?S" "y \<in> ?S" "g x = g y" "x \<noteq> y"
    then have "2 \<le> count (matched m) (g x)"
      using matched_count_two [of x m y "g x"] gS(1) [OF xy(1)] gS(1) [OF xy(2)] len by simp
    also have "\<dots> \<le> count (mset [0..<i]) (g x)" using m by (simp add: subseteq_mset_def)
    also have "\<dots> \<le> 1" using distinct_count_atmost_1 [of "[0..<i]"] by simp
    finally show False by simp
  qed
  have maps: "p ` (insert i (g ` ?S)) \<subseteq> ?S"
  proof
    fix x assume "x \<in> p ` (insert i (g ` ?S))"
    then obtain l where l: "x = p l" "l = i \<or> (\<exists>j \<in> ?S. l = g j)" by auto
    then have "l < k" using i gless by fastforce
    then have "p l < n" "cm ! l ! p l" using asg by (auto simp: assignment_def)
    moreover have "cm ! l ! q \<Longrightarrow> q < n \<Longrightarrow> seen' ! q" for q
      using l(2) cl(1) [of q] gS(2) [of _ q] by blast
    ultimately show "x \<in> ?S" using l(1) by simp
  qed
  have sub: "insert i (g ` ?S) \<subseteq> {0..<k}" using i gless by fastforce
  have pin: "inj_on p {0..<k}" using asg by (simp add: assignment_def)
  have "inj_on p (insert i (g ` ?S))" by (rule inj_on_subset [OF pin sub])
  then have "card (insert i (g ` ?S)) \<le> card ?S"
    using maps by (intro card_inj_on_le [of p]) auto
  moreover have "i \<notin> g ` ?S" using gless by fastforce
  then have "card (insert i (g ` ?S)) = Suc (card ?S)"
    using card_image [OF inj] by simp
  ultimately show False by simp
qed

lemma match_all_complete:
  "assignment cm k n p \<Longrightarrow> length m = n \<Longrightarrow> matching_ok cm m \<Longrightarrow> matched m = mset [0..<i] \<Longrightarrow>
   i \<le> k \<Longrightarrow> \<exists>m'. match_all cm n [i..<k] m = Some (True, m')"
proof (induction "k - i" arbitrary: i m)
  case 0
  then show ?case by simp
next
  case (Suc d)
  then have ik: "i < k" and up: "[i..<k] = i # [Suc i..<k]" by (auto simp: upt_conv_Cons)
  have "augment cm (Suc n) i [0..<n] (replicate n False) m \<noteq> None"
    by (rule augment_fuel) (auto simp: unseen_def)
  then obtain ok seen m' where a: "augment cm (Suc n) i [0..<n] (replicate n False) m = Some (ok, seen, m')"
    by auto
  have ok
  proof (rule ccontr)
    assume "\<not> ok"
    with a Suc.prems ik show False
      using hall_violation [of cm k n p i m "Suc n" seen m'] by simp
  qed
  from augment_sound [OF a] augment_length [OF a] Suc.prems \<open>ok\<close>
  have "matching_ok cm m'" "matched m' = mset [0..<Suc i]" "length m' = n" by auto
  with Suc.hyps(1) [of "Suc i" m'] Suc.hyps(2) Suc.prems(1) ik
  obtain m'' where "match_all cm n [Suc i..<k] m' = Some (True, m'')" by force
  with a \<open>ok\<close> up show ?case by simp
qed

section \<open>The matcher decides the existence of an assignment\<close>

lemma bipartite_ok_assignment:
  assumes "bipartite_ok cm k n"
  shows "\<exists>p. assignment cm k n p"
proof -
  from assms obtain m where m: "match_all cm n [0..<k] (replicate n None) = Some (True, m)"
    by (auto simp: bipartite_ok_def split: option.splits)
  have none: "matched (replicate n None) = {#}" by (simp add: matched_def map_filter_def)
  have "matching_ok cm (replicate n None)" by (simp add: matching_ok_def)
  with match_all_sound [OF m] none
  have ok: "matching_ok cm m" "matched m = mset [0..<k]" "length m = n" by auto
  have ex: "\<exists>j < n. m ! j = Some i" if "i < k" for i
  proof -
    have "i \<in># matched m" using ok(2) that by simp
    then show ?thesis using ok(3) by (auto simp: matched_mem in_set_conv_nth)
  qed
  define p where "p i = (SOME j. j < n \<and> m ! j = Some i)" for i
  have p: "p i < n" "m ! p i = Some i" if "i < k" for i
    using someI_ex [OF ex [OF that, unfolded Bex_def], folded p_def] by (auto simp: p_def)
  have "inj_on p {0..<k}" by (rule inj_onI) (metis atLeastLessThan_iff option.inject p(2))
  moreover have "\<forall>i < k. p i < n \<and> cm ! i ! p i"
    using p ok(1,3) by (auto simp: matching_ok_def)
  ultimately show ?thesis by (auto simp: assignment_def)
qed

lemma bipartite_ok_iff: "bipartite_ok cm k n \<longleftrightarrow> (\<exists>p. assignment cm k n p)"
proof
  assume "\<exists>p. assignment cm k n p"
  then obtain p where "assignment cm k n p" ..
  from match_all_complete [OF this, of "replicate n None" 0]
  show "bipartite_ok cm k n"
    by (auto simp: bipartite_ok_def matching_ok_def matched_def map_filter_def)
qed (rule bipartite_ok_assignment)

text \<open>
  C34. The matcher is exact and always ends within its fuel: it answers yes iff there is an
  injective, tolerance-compatible assignment of all left rows to right rows.
\<close>

theorem matcher_exact:
  "bipartite_ok cm k n \<longleftrightarrow>
     (\<exists>p. inj_on p {0..<k} \<and> (\<forall>i. i < k \<longrightarrow> p i < n \<and> cm ! i ! p i))"
  by (simp add: bipartite_ok_iff assignment_def)

theorem matcher_exact_witness:
  "bipartite_ok [[True, True], [True, False]] 2 2 \<and> \<not> bipartite_ok [[True, False], [True, False]] 2 2"
proof -
  have "bipartite_ok [[True, True], [True, False]] 2 2"
    unfolding matcher_exact
    by (intro exI [of _ "\<lambda>i. 1 - i"]) (auto simp: inj_on_def less_Suc_eq numeral_2_eq_2)
  moreover have "\<not> bipartite_ok [[True, False], [True, False]] 2 2" by code_simp
  ultimately show ?thesis ..
qed

end
