(* ===== verification/Row_Pairing.thy ===== *)
theory Row_Pairing
  imports Bipartite_Match
begin

text \<open>
  One-to-one pairings of two bags of rows: the specification \<open>rel_mset R (mset A) (mset B)\<close>
  against which the three matching strategies of \<open>router/adapt.py\<close> are proved. Grouping by an
  exact key, sorted positional pairing (locale \<open>uncrossing\<close>) and the augmenting-path matcher
  are each related to it.
\<close>

section \<open>Pairings as relations on multisets\<close>

lemma rel_msetI: "mset bs = mset B \<Longrightarrow> list_all2 R A bs \<Longrightarrow> rel_mset R (mset A) (mset B)"
  unfolding rel_mset_def by metis

lemma rel_mset_obtain:
  assumes "rel_mset R (mset A) (mset B)"
  obtains bs where "mset bs = mset B" "list_all2 R A bs"
proof -
  from assms obtain as bs where *: "mset as = mset A" "mset bs = mset B" "list_all2 R as bs"
    unfolding rel_mset_def by auto
  then obtain cs where "list_all2 R A cs" "mset cs = mset bs"
    using list_all2_reorder_left_invariance [of R as bs A] by auto
  with * that show thesis by simp
qed

lemma rel_mset_append:
  "rel_mset R (mset A) (mset B) \<Longrightarrow> rel_mset R (mset A') (mset B') \<Longrightarrow>
   rel_mset R (mset A + mset A') (mset B + mset B')"
  unfolding rel_mset_def by (metis list_all2_appendI mset_append)

lemma rel_mset_length: "rel_mset R (mset A) (mset B) \<Longrightarrow> length A = length B"
  by (elim rel_mset_obtain) (metis list_all2_lengthD size_mset)

lemma rel_mset_mono_on:
  "rel_mset R (mset A) (mset B) \<Longrightarrow>
   (\<And>x y. x \<in> set A \<Longrightarrow> y \<in> set B \<Longrightarrow> R x y \<Longrightarrow> S x y) \<Longrightarrow> rel_mset S (mset A) (mset B)"
proof (elim rel_mset_obtain)
  fix bs assume *: "\<And>x y. x \<in> set A \<Longrightarrow> y \<in> set B \<Longrightarrow> R x y \<Longrightarrow> S x y"
    "mset bs = mset B" "list_all2 R A bs"
  have "set bs = set B" using *(2) by (metis set_mset_mset)
  then have "list_all2 S A bs"
    using *(1) by (intro list.rel_mono_strong [OF *(3)]) auto
  with *(2) show ?thesis by (rule rel_msetI)
qed

lemma rel_mset_map:
  "rel_mset R (mset (map f A)) (mset (map g B)) \<longleftrightarrow> rel_mset (\<lambda>x y. R (f x) (g y)) (mset A) (mset B)"
  by (simp add: multiset.rel_map)

section \<open>Grouping by a key\<close>

text \<open>
  Two bags are paired iff, key by key, their groups are. The key relation only needs to be
  symmetric and transitive: a key that is not equal to itself makes a group nothing joins.
\<close>

lemma rel_mset_filter:
  assumes "rel_mset R (mset A) (mset B)" "\<And>x y. R x y \<Longrightarrow> P x = Q y"
  shows "rel_mset R (mset (filter P A)) (mset (filter Q B))"
proof -
  from assms(1) obtain bs where b: "mset bs = mset B" "list_all2 R A bs" by (rule rel_mset_obtain)
  from b(2) assms(2) have "list_all2 R (filter P A) (filter Q bs)"
    by (induction rule: list_all2_induct) auto
  moreover have "mset (filter Q bs) = mset (filter Q B)" using b(1) by (simp add: mset_filter)
  ultimately show ?thesis by (metis rel_msetI)
qed

lemma rel_mset_groups:
  assumes sym: "\<And>x y. E x y \<Longrightarrow> E y x" and trans: "\<And>x y z. E x y \<Longrightarrow> E y z \<Longrightarrow> E x z"
    and refl: "\<And>x. x \<in> set A \<Longrightarrow> E (ka x) (ka x)" "\<And>y. y \<in> set B \<Longrightarrow> E (kb y) (kb y)"
    and grp: "\<And>k. k \<in> ka ` set A \<union> kb ` set B \<Longrightarrow>
      rel_mset R (mset (filter (\<lambda>x. E k (ka x)) A)) (mset (filter (\<lambda>y. E k (kb y)) B))"
  shows "rel_mset R (mset A) (mset B)"
  using refl grp
proof (induction "length A" arbitrary: A B rule: less_induct)
  case less
  show ?case
  proof (cases A)
    case Nil
    have "B = []"
    proof (cases B)
      case (Cons y ys)
      then have "y \<in> set (filter (\<lambda>z. E (kb y) (kb z)) B)" using less.prems(2) by simp
      moreover have "rel_mset R (mset []) (mset (filter (\<lambda>z. E (kb y) (kb z)) B))"
        using less.prems(3) [of "kb y"] Nil Cons by simp
      then have "filter (\<lambda>z. E (kb y) (kb z)) B = []" using rel_mset_length by fastforce
      ultimately show ?thesis by simp
    qed
    with Nil show ?thesis by (simp add: rel_mset_Zero)
  next
    case (Cons x xs)
    let ?P = "\<lambda>z. E (ka x) (ka z)" and ?Q = "\<lambda>z. E (ka x) (kb z)"
    have drop_eq: "E k l \<Longrightarrow> \<not> E (ka x) l" if "\<not> E (ka x) k" for k l
      using that sym [of k l] trans [of "ka x" l k] by blast
    have 1: "rel_mset R (mset (filter ?P A)) (mset (filter ?Q B))"
      using less.prems(3) [of "ka x"] Cons by simp
    have "x \<in> set A" "?P x" using Cons less.prems(1) by auto
    then have shorter: "length (filter (\<lambda>z. \<not> ?P z) A) < length A"
      by (metis (no_types, lifting) length_filter_less)
    have rest: "rel_mset R (mset (filter (\<lambda>z. E k (ka z)) (filter (\<lambda>z. \<not> ?P z) A)))
       (mset (filter (\<lambda>z. E k (kb z)) (filter (\<lambda>z. \<not> ?Q z) B)))"
      if k: "k \<in> ka ` set (filter (\<lambda>z. \<not> ?P z) A) \<union> kb ` set (filter (\<lambda>z. \<not> ?Q z) B)" for k
    proof -
      have nk: "\<not> E (ka x) k" using k by auto
      then have "filter (\<lambda>z. E k (ka z)) (filter (\<lambda>z. \<not> ?P z) A) = filter (\<lambda>z. E k (ka z)) A"
        "filter (\<lambda>z. E k (kb z)) (filter (\<lambda>z. \<not> ?Q z) B) = filter (\<lambda>z. E k (kb z)) B"
        unfolding filter_filter using drop_eq [OF nk] by (auto intro!: filter_cong)
      moreover have "k \<in> ka ` set A \<union> kb ` set B" using k by auto
      ultimately show ?thesis using less.prems(3) by simp
    qed
    have 2: "rel_mset R (mset (filter (\<lambda>z. \<not> ?P z) A)) (mset (filter (\<lambda>z. \<not> ?Q z) B))"
      using less.hyps [OF shorter, of "filter (\<lambda>z. \<not> ?Q z) B"] less.prems(1,2) rest by simp
    from rel_mset_append [OF 1 2] show ?thesis
      by (simp only: mset_filter multiset_partition [symmetric])
  qed
qed

text \<open>Containment: the left rows pair with distinct right rows.\<close>

definition sub_pairing :: "('a \<Rightarrow> 'b \<Rightarrow> bool) \<Rightarrow> 'a list \<Rightarrow> 'b list \<Rightarrow> bool" where
  "sub_pairing R A B \<longleftrightarrow> (\<exists>C. mset C \<subseteq># mset B \<and> rel_mset R (mset A) (mset C))"

lemma sub_pairingI: "mset C \<subseteq># mset B \<Longrightarrow> list_all2 R A C \<Longrightarrow> sub_pairing R A B"
  unfolding sub_pairing_def using rel_msetI [OF refl] by blast

lemma sub_pairing_groups:
  assumes sym: "\<And>x y. E x y \<Longrightarrow> E y x" and trans: "\<And>x y z. E x y \<Longrightarrow> E y z \<Longrightarrow> E x z"
    and refl: "\<And>x. x \<in> set A \<Longrightarrow> E (ka x) (ka x)"
    and grp: "\<And>k. k \<in> ka ` set A \<Longrightarrow>
      sub_pairing R (filter (\<lambda>x. E k (ka x)) A) (filter (\<lambda>y. E k (kb y)) B)"
  shows "sub_pairing R A B"
  using refl grp
proof (induction "length A" arbitrary: A B rule: less_induct)
  case less
  show ?case
  proof (cases A)
    case Nil
    then show ?thesis by (auto simp: sub_pairing_def rel_mset_Zero intro!: exI [of _ "[]"])
  next
    case (Cons x xs)
    let ?P = "\<lambda>z. E (ka x) (ka z)" and ?Q = "\<lambda>z. E (ka x) (kb z)"
    have drop_eq: "E k l \<Longrightarrow> \<not> E (ka x) l" if "\<not> E (ka x) k" for k l
      using that sym [of k l] trans [of "ka x" l k] by blast
    have 1: "sub_pairing R (filter ?P A) (filter ?Q B)"
      using less.prems(2) [of "ka x"] Cons by simp
    have "x \<in> set A" "?P x" using Cons less.prems(1) by auto
    then have shorter: "length (filter (\<lambda>z. \<not> ?P z) A) < length A"
      by (metis (no_types, lifting) length_filter_less)
    have rest: "sub_pairing R (filter (\<lambda>z. E k (ka z)) (filter (\<lambda>z. \<not> ?P z) A))
       (filter (\<lambda>z. E k (kb z)) (filter (\<lambda>z. \<not> ?Q z) B))"
      if k: "k \<in> ka ` set (filter (\<lambda>z. \<not> ?P z) A)" for k
    proof -
      have nk: "\<not> E (ka x) k" using k by auto
      then have "filter (\<lambda>z. E k (ka z)) (filter (\<lambda>z. \<not> ?P z) A) = filter (\<lambda>z. E k (ka z)) A"
        "filter (\<lambda>z. E k (kb z)) (filter (\<lambda>z. \<not> ?Q z) B) = filter (\<lambda>z. E k (kb z)) B"
        unfolding filter_filter using drop_eq [OF nk] by (auto intro!: filter_cong)
      moreover have "k \<in> ka ` set A" using k by auto
      ultimately show ?thesis using less.prems(2) by simp
    qed
    have 2: "sub_pairing R (filter (\<lambda>z. \<not> ?P z) A) (filter (\<lambda>z. \<not> ?Q z) B)"
      using less.hyps [OF shorter, of "filter (\<lambda>z. \<not> ?Q z) B"] less.prems(1) rest by simp
    from 1 2 obtain C D where
      C: "mset C \<subseteq># mset (filter ?Q B)" "rel_mset R (mset (filter ?P A)) (mset C)" and
      D: "mset D \<subseteq># mset (filter (\<lambda>z. \<not> ?Q z) B)" "rel_mset R (mset (filter (\<lambda>z. \<not> ?P z) A)) (mset D)"
      unfolding sub_pairing_def by blast
    have "mset (C @ D) \<subseteq># mset B"
      using subset_mset.add_mono [OF C(1) D(1)]
      by (simp only: mset_append mset_filter multiset_partition [symmetric])
    moreover have "rel_mset R (mset A) (mset (C @ D))"
      using rel_mset_append [OF C(2) D(2)]
      by (simp only: mset_append mset_filter multiset_partition [symmetric])
    ultimately show ?thesis unfolding sub_pairing_def by blast
  qed
qed

section \<open>The augmenting-path matcher\<close>

definition compat_matrix :: "('a \<Rightarrow> 'b \<Rightarrow> bool) \<Rightarrow> 'a list \<Rightarrow> 'b list \<Rightarrow> bool list list" where
  "compat_matrix R a b = map (\<lambda>x. map (R x) b) a"

lemma compat_matrix_nth [simp]:
  "i < length a \<Longrightarrow> j < length b \<Longrightarrow> compat_matrix R a b ! i ! j = R (a ! i) (b ! j)"
  by (simp add: compat_matrix_def)

lemma sub_mset_injection:
  "mset bs \<subseteq># mset b \<Longrightarrow>
   \<exists>p. inj_on p {0..<length bs} \<and> (\<forall>i < length bs. p i < length b \<and> bs ! i = b ! p i)"
proof (induction bs arbitrary: b)
  case (Cons x bs)
  then have "x \<in> set b" by (metis insert_subset_eq_iff mset.simps(2) set_mset_mset)
  then obtain j where j: "j < length b" "b ! j = x" by (auto simp: in_set_conv_nth)
  let ?b = "take j b @ drop (Suc j) b"
  have mb: "mset b = add_mset x (mset ?b)"
    using j by (metis id_take_nth_drop mset.simps(2) mset_append union_mset_add_mset_right)
  then have "mset bs \<subseteq># mset ?b" using Cons.prems by simp
  then obtain p where p: "inj_on p {0..<length bs}" "\<And>i. i < length bs \<Longrightarrow> p i < length ?b"
    "\<And>i. i < length bs \<Longrightarrow> bs ! i = ?b ! p i"
    using Cons.IH by blast
  define q where "q i = (case i of 0 \<Rightarrow> j | Suc i \<Rightarrow> if p i < j then p i else Suc (p i))" for i
  have at: "?b ! l = b ! (if l < j then l else Suc l)" if "l < length ?b" for l
    using that j by (auto simp: nth_append min_def)
  have "inj_on q {0..<length (x # bs)}"
  proof (rule inj_onI)
    fix k l assume "k \<in> {0..<length (x # bs)}" "l \<in> {0..<length (x # bs)}" "q k = q l"
    then show "k = l"
      using p(1) by (auto simp: q_def inj_on_def split: nat.splits if_splits)
  qed
  moreover have "q i < length b \<and> (x # bs) ! i = b ! q i" if "i < length (x # bs)" for i
  proof (cases i)
    case (Suc k)
    then have k: "p k < length ?b" "bs ! k = ?b ! p k" using that p(2,3) by auto
    then have "Suc (p k) < length b" using j by simp
    then show ?thesis using k(2) at [OF k(1)] Suc by (simp add: q_def)
  qed (use j in \<open>simp add: q_def\<close>)
  ultimately show ?case by blast
qed simp

lemma distinct_sub_mset:
  assumes "distinct xs" "set xs \<subseteq> set ys"
  shows "mset xs \<subseteq># mset ys"
  unfolding subseteq_mset_def
proof
  fix a
  show "count (mset xs) a \<le> count (mset ys) a"
  proof (cases "a \<in> set xs")
    case True
    then have "count (mset xs) a = 1" using assms(1) by (simp add: distinct_count_atmost_1)
    moreover have "0 < count (mset ys) a" using True assms(2) by auto
    ultimately show ?thesis by linarith
  next
    case False
    then have "count (mset xs) a = 0" by (simp add: count_eq_zero_iff)
    then show ?thesis by (simp only: le0)
  qed
qed

lemma injection_sub_mset:
  assumes "inj_on p {0..<n}" "\<And>i. i < n \<Longrightarrow> p i < length b"
  shows "mset (map (\<lambda>i. b ! p i) [0..<n]) \<subseteq># mset b"
proof -
  have "distinct (map p [0..<n])" using assms(1) by (simp add: distinct_map)
  then have "mset (map p [0..<n]) \<subseteq># mset [0..<length b]"
    using assms(2) by (intro distinct_sub_mset) auto
  from image_mset_subseteq_mono [OF this, of "(!) b"]
  have "mset (map ((!) b) (map p [0..<n])) \<subseteq># mset (map ((!) b) [0..<length b])"
    by (simp only: mset_map)
  then show ?thesis by (simp only: map_map o_def map_nth)
qed

lemma bipartite_ok_pairing:
  "bipartite_ok (compat_matrix R a b) (length a) (length b) \<longleftrightarrow>
   (\<exists>c. mset c \<subseteq># mset b \<and> rel_mset R (mset a) (mset c))"
proof
  assume "bipartite_ok (compat_matrix R a b) (length a) (length b)"
  then obtain p where p: "inj_on p {0..<length a}" "\<And>i. i < length a \<Longrightarrow> p i < length b"
    "\<And>i. i < length a \<Longrightarrow> compat_matrix R a b ! i ! p i"
    unfolding bipartite_ok_iff assignment_def by (metis compat_matrix_nth)
  let ?c = "map (\<lambda>i. b ! p i) [0..<length a]"
  have "list_all2 R a ?c" using p(2,3) by (simp add: list_all2_conv_all_nth)
  then have "rel_mset R (mset a) (mset ?c)" by (rule rel_msetI [OF refl])
  with injection_sub_mset [OF p(1,2)] show "\<exists>c. mset c \<subseteq># mset b \<and> rel_mset R (mset a) (mset c)"
    by blast
next
  assume "\<exists>c. mset c \<subseteq># mset b \<and> rel_mset R (mset a) (mset c)"
  then obtain c bs where c: "mset bs \<subseteq># mset b" "list_all2 R a bs"
    by (metis rel_mset_obtain)
  then have len: "length a = length bs" by (simp add: list_all2_lengthD)
  from sub_mset_injection [OF c(1)] obtain p where
    "inj_on p {0..<length bs}" "\<forall>i < length bs. p i < length b \<and> bs ! i = b ! p i" by blast
  with c(2) len have "assignment (compat_matrix R a b) (length a) (length b) p"
    by (simp add: assignment_def list_all2_conv_all_nth)
  then show "bipartite_ok (compat_matrix R a b) (length a) (length b)"
    by (auto simp: bipartite_ok_iff)
qed

lemma bipartite_ok_pairing_eq:
  assumes "length a = length b"
  shows "bipartite_ok (compat_matrix R a b) (length a) (length b) \<longleftrightarrow> rel_mset R (mset a) (mset b)"
proof -
  have "mset c = mset b" if "mset c \<subseteq># mset b" "rel_mset R (mset a) (mset c)" for c
    using rel_mset_length [OF that(2)] assms that(1) mset_subset_size [of "mset c" "mset b"]
    by (metis less_irrefl size_mset subset_mset.le_imp_less_or_eq)
  then show ?thesis by (metis bipartite_ok_pairing subset_mset.order_refl)
qed

section \<open>Sorted positional pairing\<close>

lemma sorted_pairing_sound:
  "list_all2 R (sort_key k a) (sort_key l b) \<Longrightarrow> rel_mset R (mset a) (mset b)"
  using rel_msetI [of "sort_key l b" "sort_key l b" R "sort_key k a"] by simp

text \<open>
  \<open>uncrossing\<close>: when two pairs cross in the order of the keys, uncrossing them keeps both
  compatible. Then pairing the sorted lists position by position finds a pairing whenever one
  exists.
\<close>

locale uncrossing =
  fixes key :: "'a \<Rightarrow> 'k::linorder" and ok :: "'a \<Rightarrow> bool" and R :: "'a \<Rightarrow> 'a \<Rightarrow> bool"
  assumes uncross: "ok x \<Longrightarrow> ok x' \<Longrightarrow> ok y \<Longrightarrow> ok y' \<Longrightarrow> key x \<le> key x' \<Longrightarrow> key y \<le> key y' \<Longrightarrow>
    R x y' \<Longrightarrow> R x' y \<Longrightarrow> R x y \<and> R x' y'"
begin

lemma sorted_lists:
  "sorted (map key a) \<Longrightarrow> sorted (map key b) \<Longrightarrow> list_all ok a \<Longrightarrow> list_all ok b \<Longrightarrow>
   mset c = mset b \<Longrightarrow> list_all2 R a c \<Longrightarrow> list_all2 R a b"
proof (induction a arbitrary: b c)
  case (Cons x as)
  then obtain z zs where c: "c = z # zs" and R: "R x z" "list_all2 R as zs"
    by (auto simp: list_all2_Cons1)
  then obtain y ys where b: "b = y # ys" using Cons.prems(5) by (cases b) auto
  have oks: "ok x" "ok y" "list_all ok as" "list_all ok ys" using Cons.prems b by auto
  have srt: "sorted (map key as)" "sorted (map key ys)" using Cons.prems b by auto
  show ?case
  proof (cases "z = y")
    case True
    then have "mset zs = mset ys" using Cons.prems(5) b c by simp
    with Cons.IH srt oks R have "list_all2 R as ys" by blast
    with True R b show ?thesis by simp
  next
    case False
    have m: "add_mset z (mset zs) = add_mset y (mset ys)" using Cons.prems(5) b c by simp
    then have "y \<in># mset zs" using False by (metis insert_noteq_member)
    then obtain i where i: "i < length zs" "zs ! i = y" by (auto simp: in_set_conv_nth)
    have len: "length as = length zs" using R(2) by (rule list_all2_lengthD)
    have z: "z \<in> set ys" using m False by (metis insert_noteq_member set_mset_mset)
    have "R (as ! i) y" using R(2) i list_all2_nthD2 by fastforce
    moreover have "key x \<le> key (as ! i)" "key y \<le> key z" "ok (as ! i)" "ok z"
      using Cons.prems(1-4) b z i len by (auto simp: list_all_iff)
    ultimately have un: "R x y" "R (as ! i) z" using uncross [of x "as ! i" y z] R(1) oks by auto
    have "mset (zs[i := z]) = mset ys"
      using m i by (simp add: mset_update) (metis add_mset_commute add_mset_remove_trivial diff_union_swap insert_DiffM False)
    moreover have "list_all2 R as (zs[i := z])"
      using list_all2_update_cong [OF R(2) un(2), of i] by (simp add: list_update_id)
    ultimately have "list_all2 R as ys" using Cons.IH srt oks by blast
    with un(1) b show ?thesis by simp
  qed
qed simp

lemma sorted_pairing_exact:
  assumes "list_all ok a" "list_all ok b"
  shows "list_all2 R (sort_key key a) (sort_key key b) \<longleftrightarrow> rel_mset R (mset a) (mset b)"
proof
  assume "rel_mset R (mset a) (mset b)"
  then have "rel_mset R (mset (sort_key key a)) (mset (sort_key key b))" by simp
  then obtain c where c: "mset c = mset (sort_key key b)" "list_all2 R (sort_key key a) c"
    by (rule rel_mset_obtain)
  have "list_all ok (sort_key key a)" "list_all ok (sort_key key b)"
    using assms by (auto simp: list_all_iff)
  with c show "list_all2 R (sort_key key a) (sort_key key b)"
    using sorted_lists [of "sort_key key a" "sort_key key b" c] by simp
qed (rule sorted_pairing_sound)

end

end
