(* ===== verification/Result_Compare.thy ===== *)
theory Result_Compare
  imports Py_Values Row_Pairing "HOL-Library.Product_Lexorder" "HOL-Library.List_Lexorder"
begin

text \<open>
  The cross-check verdict of \<open>router/adapt.py\<close>: are two result tables the same? Cells, rows,
  the grouping by exact columns, the three strategies that pair float tuples, the widening loop
  behind a truncated result and \<open>results_equal\<close>.

  A \<open>pyarrow\<close> table is its list of named columns. The iteration order of the \<open>set\<close> of float
  columns is taken as ascending (the same order is used for both sides).
\<close>

section \<open>Tables\<close>

type_synonym row = "pyval list"
type_synonym arrow = "(string \<times> pyval list) list"

definition num_columns :: "arrow \<Rightarrow> nat" where
  "num_columns t = length t"

definition num_rows :: "arrow \<Rightarrow> nat" where
  "num_rows t = (case t of [] \<Rightarrow> 0 | c # _ \<Rightarrow> length (snd c))"

definition column_names :: "arrow \<Rightarrow> string list" where
  "column_names t = map fst t"

text \<open>\<open>_rows\<close>: \<open>zip(*columns)\<close> stops at the shortest column.\<close>

definition rows_of :: "arrow \<Rightarrow> row list" where
  "rows_of t = (if t = [] then []
     else map (\<lambda>i. map (\<lambda>c. snd c ! i) t) [0..<Min (set (map (length \<circ> snd) t))])"

definition table_ok :: "arrow \<Rightarrow> bool" where
  "table_ok t \<longleftrightarrow> (\<forall>c \<in> set t. length (snd c) = num_rows t)"

section \<open>Cells and rows\<close>

definition cell_equal :: "rat \<Rightarrow> pyval \<Rightarrow> pyval \<Rightarrow> bool" where
  "cell_equal tol x y =
     (if x = PNone \<or> y = PNone then x = PNone \<and> y = PNone
      else if is_float x \<or> is_float y then
        (case (to_float x, to_float y) of
           (Inr a, Inr b) \<Rightarrow> (case isclose tol a b of Some r \<Rightarrow> r | None \<Rightarrow> py_eq x y)
         | _ \<Rightarrow> py_eq x y)
      else py_eq x y)"

definition row_equal :: "rat \<Rightarrow> row \<Rightarrow> row \<Rightarrow> bool" where
  "row_equal tol r1 r2 =
     (length r1 = length r2 \<and> list_all (\<lambda>(a, b). cell_equal tol a b) (zip r1 r2))"

definition float_close :: "rat \<Rightarrow> pyval \<Rightarrow> pyval \<Rightarrow> bool" where
  "float_close tol x y =
     (if x = PNone \<or> y = PNone then x = PNone \<and> y = PNone
      else
        (case (to_float x, to_float y) of
           (Inr a, Inr b) \<Rightarrow> (case isclose tol a b of Some r \<Rightarrow> r | None \<Rightarrow> py_eq x y)
         | _ \<Rightarrow> py_eq x y))"

definition vec_close :: "rat \<Rightarrow> row \<Rightarrow> row \<Rightarrow> bool" where
  "vec_close tol va vb = list_all (\<lambda>(x, y). float_close tol x y) (zip va vb)"

text \<open>\<open>_float_columns\<close>: the indices of columns holding a float in some row.\<close>

definition float_columns :: "row list \<Rightarrow> nat list" where
  "float_columns rs =
     filter (\<lambda>i. \<exists>r \<in> set rs. i < length r \<and> is_float (r ! i)) [0..<fold (max \<circ> length) rs 0]"

definition cells :: "nat list \<Rightarrow> row \<Rightarrow> row" where
  "cells idx r = map (\<lambda>i. r ! i) idx"

section \<open>Pairing float tuples\<close>

definition exact_match_cap :: nat where
  "exact_match_cap = 64"

definition cell_sort_key :: "pyval \<Rightarrow> bool \<times> bool \<times> xnum" where
  "cell_sort_key x =
     (x = PNone, x = PFloat NaN,
      (case x of PBool _ \<Rightarrow> the (num_of x) | PInt _ \<Rightarrow> the (num_of x)
         | PFloat (Num n) \<Rightarrow> n | _ \<Rightarrow> Fin 0))"

definition vec_sort_key :: "row \<Rightarrow> (bool \<times> bool \<times> xnum) list" where
  "vec_sort_key v = map cell_sort_key v"

definition match_float_vecs :: "rat \<Rightarrow> row list \<Rightarrow> row list \<Rightarrow> bool" where
  "match_float_vecs tol a b =
     (if a = [] then True
      else if length (hd a) \<le> 1 \<or> exact_match_cap < length a then
        list_all (\<lambda>(va, vb). vec_close tol va vb)
          (zip (sort_key vec_sort_key a) (sort_key vec_sort_key b))
      else bipartite_ok (compat_matrix (vec_close tol) a b) (length a) (length a))"

text \<open>
  The greedy scan of \<open>_match_float_vecs_subset\<close>: skip right-hand vectors until one is close.
\<close>

fun greedy_subset :: "(row \<Rightarrow> row \<Rightarrow> bool) \<Rightarrow> row list \<Rightarrow> row list \<Rightarrow> bool" where
  "greedy_subset R [] sb = True"
| "greedy_subset R (va # sa) sb =
     (case dropWhile (\<lambda>vb. \<not> R va vb) sb of
        [] \<Rightarrow> False
      | _ # sb' \<Rightarrow> greedy_subset R sa sb')"

definition match_float_vecs_subset :: "rat \<Rightarrow> row list \<Rightarrow> row list \<Rightarrow> bool" where
  "match_float_vecs_subset tol a b =
     (if a = [] then True
      else if length b < length a then False
      else if length (hd a) \<le> 1 \<or> exact_match_cap < length b then
        greedy_subset (vec_close tol) (sort_key vec_sort_key a) (sort_key vec_sort_key b)
      else bipartite_ok (compat_matrix (vec_close tol) a b) (length a) (length b))"

section \<open>Groups by exact columns\<close>

text \<open>A \<open>defaultdict(list)\<close> keyed by tuples: a key equal to a stored one finds it.\<close>

type_synonym row_groups = "(row \<times> row list) list"

definition key_eq :: "row \<Rightarrow> row \<Rightarrow> bool" where
  "key_eq k l = list_all2 py_eq k l"

fun group_append :: "row \<Rightarrow> row \<Rightarrow> row_groups \<Rightarrow> row_groups" where
  "group_append k v [] = [(k, [v])]"
| "group_append k v ((l, vs) # g) =
     (if key_eq l k then (l, vs @ [v]) # g else (l, vs) # group_append k v g)"

fun group_get :: "row_groups \<Rightarrow> row \<Rightarrow> row list option" where
  "group_get [] k = None"
| "group_get ((l, vs) # g) k = (if key_eq l k then Some vs else group_get g k)"

definition group_rows :: "nat list \<Rightarrow> nat list \<Rightarrow> row list \<Rightarrow> row_groups" where
  "group_rows exact fidx rs = fold (\<lambda>r g. group_append (cells exact r) (cells fidx r) g) rs []"

definition same_keys :: "row_groups \<Rightarrow> row_groups \<Rightarrow> bool" where
  "same_keys ga gb \<longleftrightarrow> length ga = length gb \<and> list_all (\<lambda>(k, _). group_get gb k \<noteq> None) ga"

definition float_index :: "row list \<Rightarrow> row list \<Rightarrow> nat list" where
  "float_index ra rb = sorted_list_of_set (set (float_columns ra) \<union> set (float_columns rb))"

definition exact_index :: "row list \<Rightarrow> row list \<Rightarrow> nat list" where
  "exact_index ra rb = filter (\<lambda>i. i \<notin> set (float_index ra rb)) [0..<length (hd ra)]"

definition hashable_keys :: "nat list \<Rightarrow> row list \<Rightarrow> bool" where
  "hashable_keys exact rs = list_all (\<lambda>r. list_all py_hashable (cells exact r)) rs"

definition multiset_equal :: "rat \<Rightarrow> row list \<Rightarrow> row list \<Rightarrow> py_error + bool" where
  "multiset_equal tol ra rb =
     (if ra = [] then Inr (rb = [])
      else
        (let fidx = float_index ra rb; exact = exact_index ra rb in
         if \<not> hashable_keys exact ra \<or> \<not> hashable_keys exact rb
         then Inl (TypeError ''unhashable type'')
         else
           (let ga = group_rows exact fidx ra; gb = group_rows exact fidx rb in
            if \<not> same_keys ga gb then Inr False
            else Inr (list_all (\<lambda>(k, va).
              (let vb = the (group_get gb k) in
               length va = length vb \<and> (fidx = [] \<or> match_float_vecs tol va vb))) ga))))"

definition multiset_contained :: "rat \<Rightarrow> row list \<Rightarrow> row list \<Rightarrow> py_error + bool" where
  "multiset_contained tol ra rb =
     (if ra = [] then Inr True
      else
        (let fidx = float_index ra rb; exact = exact_index ra rb in
         if \<not> hashable_keys exact ra \<or> \<not> hashable_keys exact rb
         then Inl (TypeError ''unhashable type'')
         else
           (let ga = group_rows exact fidx ra; gb = group_rows exact fidx rb in
            Inr (list_all (\<lambda>(k, va).
              (case group_get gb k of
                 None \<Rightarrow> False
               | Some vb \<Rightarrow>
                   length va \<le> length vb \<and> (fidx = [] \<or> match_float_vecs_subset tol va vb))) ga))))"

section \<open>The verdict\<close>

definition default_tol :: rat where
  "default_tol = 1 / 1000000"

definition keys_of :: "nat list \<Rightarrow> row \<Rightarrow> row" where
  "keys_of ks r = cells ks r"

text \<open>
  \<open>order_keys\<close> is falsy when it is \<open>None\<close> or empty; \<open>candidates\<close> and \<open>row_limit\<close> are only read
  together.
\<close>

definition results_equal ::
  "rat \<Rightarrow> bool \<Rightarrow> nat list option \<Rightarrow> nat option \<Rightarrow> row list option \<Rightarrow> arrow \<Rightarrow> arrow \<Rightarrow> py_error + bool"
where
  "results_equal tol ordered order_keys row_limit candidates bespoke reference =
     (if num_columns bespoke \<noteq> num_columns reference then Inr False
      else if num_rows bespoke \<noteq> num_rows reference then Inr False
      else
        (let ra = rows_of bespoke; rb = rows_of reference in
         if \<not> ordered then multiset_equal tol ra rb
         else
           (case order_keys of
              Some (k # ks) \<Rightarrow>
                if \<not> list_all (\<lambda>(a, b). row_equal tol (keys_of (k # ks) a) (keys_of (k # ks) b)) (zip ra rb)
                then Inr False
                else
                  (case (candidates, row_limit) of
                     (Some cs, Some n) \<Rightarrow>
                       if length rb = n then multiset_contained tol ra cs else multiset_equal tol ra rb
                   | _ \<Rightarrow> multiset_equal tol ra rb)
            | _ \<Rightarrow> Inr (list_all (\<lambda>(a, b). row_equal tol a b) (zip ra rb)))))"

section \<open>The candidate pool of a truncated result\<close>

definition max_widen_factor :: nat where
  "max_widen_factor = 1024"

text \<open>
  The doubling loop with fuel: the outer \<open>None\<close> is out of fuel. \<open>fetch\<close> is the caller's
  \<open>fetch_widened\<close>.
\<close>

fun widen_loop ::
  "nat \<Rightarrow> (nat \<Rightarrow> arrow option) \<Rightarrow> rat \<Rightarrow> nat list \<Rightarrow> row \<Rightarrow> nat \<Rightarrow> nat \<Rightarrow> row list option option"
where
  "widen_loop 0 fetch tol ks last_key window limit = None"
| "widen_loop (Suc fuel) fetch tol ks last_key window limit =
     (if window * max_widen_factor < limit then Some None
      else
        (case fetch (limit * 2) of
           None \<Rightarrow> Some None
         | Some w \<Rightarrow>
             (let wrows = rows_of w in
              if wrows = [] then Some None
              else if length wrows < limit * 2 \<or> \<not> row_equal tol (keys_of ks (List.last wrows)) last_key
              then Some (Some wrows)
              else widen_loop fuel fetch tol ks last_key window (limit * 2))))"

definition widen_fuel :: nat where
  "widen_fuel = 12"

definition candidate_superset ::
  "arrow \<Rightarrow> nat list \<Rightarrow> nat option \<Rightarrow> nat \<Rightarrow> (nat \<Rightarrow> arrow option) \<Rightarrow> rat \<Rightarrow> row list option option"
where
  "candidate_superset reference order_keys row_limit row_offset fetch tol =
     (let rows = rows_of reference in
      case row_limit of
        None \<Rightarrow> Some None
      | Some n \<Rightarrow>
          if rows = [] \<or> order_keys = [] \<or> length rows \<noteq> n then Some None
          else
            (let window = row_offset + n in
             widen_loop widen_fuel fetch tol order_keys (keys_of order_keys (List.last rows)) window window))"

section \<open>Groups as filters\<close>

lemma key_eq_sym: "key_eq k l \<Longrightarrow> key_eq l k"
  by (simp add: key_eq_def list_all2_conv_all_nth py_eq_sym)

lemma key_eq_trans: "key_eq k l \<Longrightarrow> key_eq l m \<Longrightarrow> key_eq k m"
  unfolding key_eq_def by (rule list_all2_trans [OF py_eq_trans])

lemma key_eq_cong: "key_eq l k \<Longrightarrow> key_eq l m \<longleftrightarrow> key_eq k m"
  using key_eq_sym key_eq_trans by blast

lemma group_get_append:
  "group_get (group_append k v g) k' =
     (if key_eq k k' then Some ((case group_get g k' of None \<Rightarrow> [] | Some vs \<Rightarrow> vs) @ [v])
      else group_get g k')"
proof (induction g)
  case (Cons e g)
  obtain l vs where e: "e = (l, vs)" by (cases e)
  show ?case
  proof (cases "key_eq l k")
    case True
    then show ?thesis using key_eq_cong [OF True, of k'] e by simp
  next
    case False
    then have "\<not> (key_eq l k' \<and> key_eq k k')" using key_eq_sym key_eq_trans by blast
    then show ?thesis using Cons False e by auto
  qed
qed simp

definition bucket :: "nat list \<Rightarrow> nat list \<Rightarrow> row list \<Rightarrow> row \<Rightarrow> row list" where
  "bucket exact fidx rs k = map (cells fidx) (filter (\<lambda>r. key_eq (cells exact r) k) rs)"

lemma group_rows_snoc:
  "group_rows exact fidx (rs @ [r]) = group_append (cells exact r) (cells fidx r) (group_rows exact fidx rs)"
  by (simp add: group_rows_def)

lemma group_get_rows:
  "group_get (group_rows exact fidx rs) k =
     (if bucket exact fidx rs k = [] then None else Some (bucket exact fidx rs k))"
proof (induction rs rule: rev_induct)
  case Nil
  then show ?case by (simp add: group_rows_def bucket_def)
next
  case (snoc r rs)
  then show ?case by (auto simp: group_rows_snoc group_get_append bucket_def)
qed

text \<open>Stored keys are pairwise different and are keys of rows.\<close>

fun groups_distinct :: "row_groups \<Rightarrow> bool" where
  "groups_distinct [] = True"
| "groups_distinct ((l, vs) # g) = (list_all (\<lambda>(k, _). \<not> key_eq l k) g \<and> groups_distinct g)"

lemma group_append_fst:
  "map fst (group_append k v g) =
     (if \<exists>l \<in> set (map fst g). key_eq l k then map fst g else map fst g @ [k])"
proof (induction g)
  case (Cons e g)
  obtain l vs where e: "e = (l, vs)" by (cases e)
  show ?case by (cases "key_eq l k") (simp_all add: e Cons.IH)
qed simp

lemma group_append_keys: "fst ` set (group_append k v g) \<subseteq> insert k (fst ` set g)"
proof -
  have "set (map fst (group_append k v g)) \<subseteq> insert k (set (map fst g))"
    unfolding group_append_fst by auto
  then show ?thesis by simp
qed

lemma groups_distinct_fst:
  "groups_distinct g \<longleftrightarrow> sorted_wrt (\<lambda>l k. \<not> key_eq l k) (map fst g)"
proof (induction g)
  case (Cons e g)
  then show ?case by (cases e) (auto simp: list_all_iff)
qed simp

lemma group_append_distinct: "groups_distinct g \<Longrightarrow> groups_distinct (group_append k v g)"
  unfolding groups_distinct_fst group_append_fst by (auto simp: sorted_wrt_append)

lemma group_append_covers:
  assumes "key_eq k k'"
  shows "\<exists>l \<in> fst ` set (group_append k v g). key_eq l k'"
proof -
  have "\<exists>l \<in> set (map fst (group_append k v g)). key_eq l k'"
    unfolding group_append_fst using assms key_eq_trans by (auto simp del: set_map)
  then show ?thesis by simp
qed

lemma group_append_old: "fst ` set g \<subseteq> fst ` set (group_append k v g)"
proof -
  have "set (map fst g) \<subseteq> set (map fst (group_append k v g))"
    unfolding group_append_fst by auto
  then show ?thesis by simp
qed

lemma group_rows_keys: "fst ` set (group_rows exact fidx rs) \<subseteq> cells exact ` set rs"
proof (induction rs rule: rev_induct)
  case (snoc r rs)
  then show ?case
    using group_append_keys [of "cells exact r" "cells fidx r" "group_rows exact fidx rs"]
    unfolding group_rows_snoc by (simp del: image_subset_iff) blast
qed (simp add: group_rows_def)

lemma group_rows_distinct: "groups_distinct (group_rows exact fidx rs)"
proof (induction rs rule: rev_induct)
  case (snoc r rs)
  then show ?case by (simp add: group_rows_snoc group_append_distinct)
qed (simp add: group_rows_def)

lemma groups_distinct_get:
  "groups_distinct g \<Longrightarrow> (k, vs) \<in> set g \<Longrightarrow> key_eq k k \<Longrightarrow> group_get g k = Some vs"
  by (induction g) (auto simp: list_all_iff)

text \<open>The key classes of a list of rows.\<close>

definition key_class :: "row \<Rightarrow> row set" where
  "key_class k = {l. key_eq k l}"

lemma key_class_eq: "key_eq k k \<Longrightarrow> key_eq l l \<Longrightarrow> key_class k = key_class l \<longleftrightarrow> key_eq k l"
  by (auto simp: key_class_def dest: key_eq_sym key_eq_trans)

definition classes :: "nat list \<Rightarrow> row list \<Rightarrow> row set set" where
  "classes exact rs = key_class ` cells exact ` set rs"

definition refl_keys :: "nat list \<Rightarrow> row list \<Rightarrow> bool" where
  "refl_keys exact rs \<longleftrightarrow> (\<forall>r \<in> set rs. key_eq (cells exact r) (cells exact r))"

lemma groups_distinct_card:
  "groups_distinct g \<Longrightarrow> (\<forall>k \<in> fst ` set g. key_eq k k) \<Longrightarrow>
   card (key_class ` fst ` set g) = length g"
proof (induction g)
  case (Cons e g)
  obtain l vs where e: "e = (l, vs)" by (cases e)
  have "key_class l \<notin> key_class ` fst ` set g"
  proof
    assume "key_class l \<in> key_class ` fst ` set g"
    then obtain k where k: "k \<in> fst ` set g" "key_class l = key_class k" by blast
    then have "key_eq l k" using Cons.prems e key_class_eq [of l k] by simp
    with k(1) Cons.prems(1) e show False by (auto simp: list_all_iff)
  qed
  with Cons e show ?case by simp
qed simp

lemma group_rows_covers:
  "r \<in> set rs \<Longrightarrow> key_eq (cells exact r) (cells exact r) \<Longrightarrow>
   \<exists>l \<in> fst ` set (group_rows exact fidx rs). key_eq l (cells exact r)"
proof (induction rs rule: rev_induct)
  case (snoc x rs)
  show ?case
  proof (cases "r \<in> set rs")
    case True
    with snoc show ?thesis
      using group_append_old [of "group_rows exact fidx rs" "cells exact x" "cells fidx x"]
      unfolding group_rows_snoc by blast
  next
    case False
    with snoc.prems group_append_covers show ?thesis by (simp add: group_rows_snoc)
  qed
qed simp

lemma group_rows_classes:
  assumes "refl_keys exact rs"
  shows "key_class ` fst ` set (group_rows exact fidx rs) = classes exact rs"
proof
  show "key_class ` fst ` set (group_rows exact fidx rs) \<subseteq> classes exact rs"
    unfolding classes_def using group_rows_keys by (rule image_mono)
  show "classes exact rs \<subseteq> key_class ` fst ` set (group_rows exact fidx rs)"
  proof
    fix c assume "c \<in> classes exact rs"
    then obtain r where r: "r \<in> set rs" "c = key_class (cells exact r)" by (auto simp: classes_def)
    then have rr: "key_eq (cells exact r) (cells exact r)" using assms by (simp add: refl_keys_def)
    from group_rows_covers [OF r(1) rr, of fidx] obtain l where
      l: "l \<in> fst ` set (group_rows exact fidx rs)" "key_eq l (cells exact r)" by blast
    then have "key_eq l l" using key_eq_sym key_eq_trans by blast
    then have "c = key_class l" using key_class_eq [OF _ rr, of l] l(2) r(2) by metis
    with l(1) show "c \<in> key_class ` fst ` set (group_rows exact fidx rs)" by blast
  qed
qed

lemma bucket_empty_iff:
  assumes "refl_keys exact rs" "key_eq k k"
  shows "bucket exact fidx rs k \<noteq> [] \<longleftrightarrow> key_class k \<in> classes exact rs"
proof
  assume "bucket exact fidx rs k \<noteq> []"
  then obtain r where r: "r \<in> set rs" "key_eq (cells exact r) k"
    by (auto simp: bucket_def filter_empty_conv)
  with assms have "key_class (cells exact r) = key_class k"
    by (simp add: key_class_eq refl_keys_def)
  with r(1) show "key_class k \<in> classes exact rs" unfolding classes_def by (metis imageI)
next
  assume "key_class k \<in> classes exact rs"
  then obtain r where r: "r \<in> set rs" "key_class k = key_class (cells exact r)"
    by (auto simp: classes_def)
  with assms have "key_eq (cells exact r) k"
    by (metis key_class_eq refl_keys_def)
  with r(1) show "bucket exact fidx rs k \<noteq> []" by (auto simp: bucket_def filter_empty_conv)
qed

lemma same_keys_classes:
  assumes a: "refl_keys exact ra" and b: "refl_keys exact rb"
  shows "same_keys (group_rows exact fidx ra) (group_rows exact fidx rb) \<longleftrightarrow>
    classes exact ra = classes exact rb"
proof -
  let ?ga = "group_rows exact fidx ra" and ?gb = "group_rows exact fidx rb"
  have rf: "\<forall>k \<in> fst ` set (group_rows exact fidx rs). key_eq k k" if "refl_keys exact rs" for rs
    using that group_rows_keys [of exact fidx rs] by (auto simp: refl_keys_def)
  have card: "length (group_rows exact fidx rs) = card (classes exact rs)" if "refl_keys exact rs" for rs
    using groups_distinct_card [OF group_rows_distinct rf [OF that]] group_rows_classes [OF that] by simp
  have "list_all (\<lambda>(k, _). group_get ?gb k \<noteq> None) ?ga \<longleftrightarrow>
      (\<forall>k \<in> fst ` set ?ga. bucket exact fidx rb k \<noteq> [])"
    by (auto simp: list_all_iff group_get_rows)
  also have "\<dots> \<longleftrightarrow> (\<forall>k \<in> fst ` set ?ga. key_class k \<in> classes exact rb)"
    using bucket_empty_iff [OF b] rf [OF a] by blast
  also have "\<dots> \<longleftrightarrow> classes exact ra \<subseteq> classes exact rb"
    unfolding group_rows_classes [OF a, of fidx, symmetric] by blast
  finally have sub: "list_all (\<lambda>(k, _). group_get ?gb k \<noteq> None) ?ga \<longleftrightarrow> classes exact ra \<subseteq> classes exact rb" .
  have "finite (classes exact rb)" by (simp add: classes_def)
  then show ?thesis unfolding same_keys_def sub card [OF a] card [OF b]
    by (metis card_subset_eq order_refl)
qed

section \<open>Tolerant closeness in one dimension\<close>

definition simple_cell :: "pyval \<Rightarrow> bool" where
  "simple_cell v = (case v of PNone \<Rightarrow> True | PBool _ \<Rightarrow> True | PInt _ \<Rightarrow> True | PFloat _ \<Rightarrow> True | _ \<Rightarrow> False)"

definition near :: "rat \<Rightarrow> xnum \<Rightarrow> xnum \<Rightarrow> bool" where
  "near tol x y = (x = y \<or> (case (x, y) of
     (Fin a, Fin b) \<Rightarrow> \<bar>b - a\<bar> \<le> \<bar>tol * b\<bar> \<or> \<bar>b - a\<bar> \<le> \<bar>tol * a\<bar> \<or> \<bar>b - a\<bar> \<le> tol
   | _ \<Rightarrow> False))"

lemma isclose_near: "0 \<le> tol \<Longrightarrow> isclose tol (Num x) (Num y) = Some (near tol x y)"
  by (auto simp: isclose_def near_def float_eq_def split: xnum.splits)

lemma shrink_interval:
  fixes x y z tol :: rat
  assumes "0 \<le> tol" "tol \<le> 1" "x \<le> y" "y \<le> z" "z - x \<le> tol * \<bar>z\<bar>"
  shows "y - x \<le> tol * \<bar>y\<bar>"
proof -
  have "tol * (\<bar>z\<bar> - \<bar>y\<bar>) \<le> tol * (z - y)"
    using assms(1,4) by (intro mult_left_mono) (auto simp: abs_if)
  also have "\<dots> \<le> 1 * (z - y)" using assms(2,4) by (intro mult_right_mono) auto
  finally have "tol * (\<bar>z\<bar> - \<bar>y\<bar>) \<le> 1 * (z - y)" .
  with assms(5) show ?thesis by (simp add: algebra_simps)
qed

lemma shrink_interval':
  fixes x y z tol :: rat
  assumes "0 \<le> tol" "tol \<le> 1" "x \<le> y" "y \<le> z" "z - x \<le> tol * \<bar>x\<bar>"
  shows "z - y \<le> tol * \<bar>y\<bar>"
  using shrink_interval [of tol "- z" "- y" "- x"] assms by simp

lemma near_interval:
  assumes "0 \<le> tol" "tol \<le> 1" "x \<le> y" "y \<le> z" "near tol x z"
  shows "near tol x y \<and> near tol y z"
proof (cases "\<exists>a b c. x = Fin a \<and> y = Fin b \<and> z = Fin c")
  case True
  then obtain a b c where f: "x = Fin a" "y = Fin b" "z = Fin c" by blast
  with assms have le: "a \<le> b" "b \<le> c" by auto
  have "c - a \<le> tol * \<bar>c\<bar> \<or> c - a \<le> tol * \<bar>a\<bar> \<or> c - a \<le> tol"
    using assms(1,5) f le by (auto simp: near_def abs_mult)
  then have "(b - a \<le> tol * \<bar>b\<bar> \<or> b - a \<le> tol * \<bar>a\<bar> \<or> b - a \<le> tol) \<and>
      (c - b \<le> tol * \<bar>c\<bar> \<or> c - b \<le> tol * \<bar>b\<bar> \<or> c - b \<le> tol)"
    using shrink_interval [OF assms(1,2) le] shrink_interval' [OF assms(1,2) le] le by auto
  then show ?thesis using f le assms(1) by (auto simp: near_def abs_mult)
next
  case False
  then have "x = z \<or> \<not> near tol x z" using assms(3,4)
    by (cases x; cases y; cases z) (auto simp: near_def)
  with assms(3-5) have "x = y" "y = z" by auto
  then show ?thesis by (simp add: near_def)
qed

lemma near_sym: "near tol x y = near tol y x"
proof -
  have "\<bar>b - a\<bar> = \<bar>a - b\<bar>" for a b :: rat by simp
  then show ?thesis by (auto simp: near_def split: xnum.splits)
qed

lemma near_uncross:
  assumes "0 \<le> tol" "tol \<le> 1" "x \<le> x'" "y \<le> y'" "near tol x y'" "near tol x' y"
  shows "near tol x y \<and> near tol x' y'"
proof
  show "near tol x y"
  proof (cases "x \<le> y")
    case True
    then show ?thesis using near_interval [of tol x y y'] assms by simp
  next
    case False
    then show ?thesis using near_interval [of tol y x x'] assms near_sym by auto
  qed
  show "near tol x' y'"
  proof (cases "x' \<le> y'")
    case True
    then show ?thesis using near_interval [of tol x x' y'] assms by simp
  next
    case False
    then show ?thesis using near_interval [of tol y y' x'] assms near_sym by auto
  qed
qed

text \<open>On simple cells the sort key decides closeness.\<close>

lemma simple_cell_cases [consumes 1, case_names none nan num]:
  assumes "simple_cell v"
    and "v = PNone \<Longrightarrow> cell_sort_key v = (True, False, Fin 0) \<Longrightarrow> P"
    and "v = PFloat NaN \<Longrightarrow> cell_sort_key v = (False, True, Fin 0) \<Longrightarrow> P"
    and "\<And>x. v \<noteq> PNone \<Longrightarrow> to_float v = Inr (Num x) \<Longrightarrow> cell_sort_key v = (False, False, x) \<Longrightarrow> P"
  shows P
proof (cases v)
  case (PFloat a)
  then show ?thesis using assms
    by (cases a) (auto simp: cell_sort_key_def to_float_def)
qed (use assms in \<open>auto simp: simple_cell_def cell_sort_key_def to_float_def num_of_def\<close>)

lemma float_close_simple:
  assumes "0 \<le> tol" "simple_cell v" "simple_cell w"
  shows "float_close tol v w \<longleftrightarrow>
     (v = PNone \<and> w = PNone) \<or>
     (\<exists>x y. cell_sort_key v = (False, False, x) \<and> cell_sort_key w = (False, False, y) \<and> near tol x y)"
  using assms(2)
proof (cases v rule: simple_cell_cases)
  case none
  from assms(3) show ?thesis
    by (cases w rule: simple_cell_cases) (use none in \<open>auto simp: float_close_def\<close>)
next
  case nan
  have nan_close: "isclose tol NaN b = Some False" for b
    using assms(1) by (simp add: isclose_def float_eq_def)
  from assms(3) show ?thesis
    by (cases w rule: simple_cell_cases) (use nan nan_close in \<open>auto simp: float_close_def to_float_def\<close>)
next
  case (num x)
  have nan_close: "isclose tol (Num x) NaN = Some False"
    using assms(1) by (simp add: isclose_def float_eq_def split: xnum.splits)
  from assms(3) show ?thesis
    by (cases w rule: simple_cell_cases)
      (use num nan_close isclose_near [OF assms(1)] in \<open>auto simp: float_close_def to_float_def\<close>)
qed

definition simple_vec :: "row \<Rightarrow> bool" where
  "simple_vec v \<longleftrightarrow> length v = 1 \<and> simple_cell (hd v)"

lemma cell_uncross:
  assumes "0 \<le> tol" "tol \<le> 1"
    and "simple_cell v" "simple_cell v'" "simple_cell w" "simple_cell w'"
    and "cell_sort_key v \<le> cell_sort_key v'" "cell_sort_key w \<le> cell_sort_key w'"
    and "float_close tol v w'" "float_close tol v' w"
  shows "float_close tol v w \<and> float_close tol v' w'"
proof -
  note cl = float_close_simple [OF assms(1)]
  have none: "cell_sort_key u = (False, False, x) \<Longrightarrow> u \<noteq> PNone" for u x
    by (auto simp: cell_sort_key_def)
  have top: "u = PNone" if "simple_cell u" "cell_sort_key PNone \<le> cell_sort_key u" for u
    using that by (cases u rule: simple_cell_cases) (auto simp: cell_sort_key_def)
  consider (n) "v = PNone" | (m) "v' = PNone" | (f) "v \<noteq> PNone" "v' \<noteq> PNone" by blast
  then show ?thesis
  proof cases
    case n
    then have "w' = PNone" "v' = PNone" using assms(9) top [OF assms(4)] assms(7) none cl [OF assms(3,6)] by auto
    then show ?thesis using n assms(9,10) by (simp add: float_close_def split: if_splits)
  next
    case m
    then have "w = PNone" using assms(10) none cl [OF assms(4,5)] by auto
    then have "w' = PNone" using top [OF assms(6)] assms(8) by simp
    then show ?thesis using m \<open>w = PNone\<close> assms(9) by (simp add: float_close_def split: if_splits)
  next
    case f
    then obtain x x' y y' where
      "cell_sort_key v = (False, False, x)" "cell_sort_key w' = (False, False, y')" "near tol x y'"
      "cell_sort_key v' = (False, False, x')" "cell_sort_key w = (False, False, y)" "near tol x' y"
      using assms(9,10) cl [OF assms(3,6)] cl [OF assms(4,5)] by auto
    then show ?thesis using assms(7,8) near_uncross [OF assms(1,2), of x x' y y']
      cl [OF assms(3,5)] cl [OF assms(4,6)] by simp
  qed
qed

lemma vec_uncrossing:
  assumes "0 \<le> tol" "tol \<le> 1"
  shows "uncrossing vec_sort_key simple_vec (vec_close tol)"
proof
  fix v v' w w'
  assume *: "simple_vec v" "simple_vec v'" "simple_vec w" "simple_vec w'"
    "vec_sort_key v \<le> vec_sort_key v'" "vec_sort_key w \<le> vec_sort_key w'"
    "vec_close tol v w'" "vec_close tol v' w"
  then obtain a b c d where "v = [a]" "v' = [b]" "w = [c]" "w' = [d]"
    by (auto simp: simple_vec_def length_Suc_conv)
  note [simp] = this
  have "float_close tol a c \<and> float_close tol b d"
    by (rule cell_uncross [OF assms]) (use * in \<open>auto simp: simple_vec_def vec_close_def vec_sort_key_def\<close>)
  then show "vec_close tol v w \<and> vec_close tol v' w'" by (simp add: vec_close_def)
qed

interpretation float_pairs: uncrossing vec_sort_key simple_vec "vec_close default_tol"
  by (rule vec_uncrossing) (simp_all add: default_tol_def)

section \<open>Float tuples: the strategies against the specification\<close>

lemma match_float_vecs_sound:
  assumes "length a = length b" "match_float_vecs tol a b"
  shows "rel_mset (vec_close tol) (mset a) (mset b)"
proof (cases "a = []")
  case True
  then show ?thesis using assms(1) by (simp add: rel_mset_Zero)
next
  case False
  show ?thesis
  proof (cases "length (hd a) \<le> 1 \<or> exact_match_cap < length a")
    case True
    then have "list_all2 (vec_close tol) (sort_key vec_sort_key a) (sort_key vec_sort_key b)"
      using assms False by (simp add: match_float_vecs_def list_all2_iff list_all_iff)
    then show ?thesis by (rule sorted_pairing_sound)
  next
    case F: False
    then show ?thesis using assms False bipartite_ok_pairing_eq [OF assms(1), of "vec_close tol"]
      by (auto simp: match_float_vecs_def)
  qed
qed

text \<open>
  The cases in which a pairing is found whenever there is one: one column of simple cells, or
  several columns within the cap.
\<close>

definition decidable_vecs :: "row list \<Rightarrow> row list \<Rightarrow> bool" where
  "decidable_vecs a b \<longleftrightarrow>
     (list_all simple_vec a \<and> list_all simple_vec b) \<or>
     (length a \<le> exact_match_cap \<and> list_all (\<lambda>v. 1 < length v) a)"

lemma match_float_vecs_exact:
  assumes len: "length a = length b" and dec: "decidable_vecs a b"
    and tol: "0 \<le> tol" "tol \<le> 1"
  shows "match_float_vecs tol a b \<longleftrightarrow> rel_mset (vec_close tol) (mset a) (mset b)"
proof
  assume r: "rel_mset (vec_close tol) (mset a) (mset b)"
  show "match_float_vecs tol a b"
  proof (cases "a = []")
    case False
    then have hd: "hd a \<in> set a" by simp
    show ?thesis
    proof (cases "length (hd a) \<le> 1 \<or> exact_match_cap < length a")
      case True
      then have simple: "list_all simple_vec a" "list_all simple_vec b"
        using dec hd by (auto simp: decidable_vecs_def list_all_iff)
      have "list_all2 (vec_close tol) (sort_key vec_sort_key a) (sort_key vec_sort_key b)"
        using r uncrossing.sorted_pairing_exact [OF vec_uncrossing [OF tol] simple] by simp
      with True False show ?thesis by (simp add: match_float_vecs_def list_all2_iff list_all_iff)
    next
      case F: False
      then show ?thesis using False r bipartite_ok_pairing_eq [OF len, of "vec_close tol"] len
        by (simp add: match_float_vecs_def)
    qed
  qed (simp add: match_float_vecs_def)
qed (rule match_float_vecs_sound [OF len])

lemma greedy_subset_sound:
  "greedy_subset R a b \<Longrightarrow> \<exists>c. mset c \<subseteq># mset b \<and> list_all2 R a c"
proof (induction R a b rule: greedy_subset.induct)
  case (2 R va sa sb)
  then obtain vb sb' where d: "dropWhile (\<lambda>vb. \<not> R va vb) sb = vb # sb'" and g: "greedy_subset R sa sb'"
    by (auto split: list.splits)
  from "2.IH" [OF d g] obtain c where c: "mset c \<subseteq># mset sb'" "list_all2 R sa c" by blast
  have "R va vb" using d by (metis hd_dropWhile list.distinct(1) list.sel(1))
  moreover have "mset (vb # sb') \<subseteq># mset sb"
    using takeWhile_dropWhile_id [of "\<lambda>vb. \<not> R va vb" sb] d
    by (metis mset_append mset_subset_eq_add_right)
  moreover have "mset (vb # c) \<subseteq># mset (vb # sb')" using c(1) by simp
  ultimately have "mset (vb # c) \<subseteq># mset sb" "R va vb" using subset_mset.order_trans by blast+
  then show ?case using c(2) by (intro exI [of _ "vb # c"]) simp
qed simp

lemma match_float_vecs_subset_sound:
  assumes "match_float_vecs_subset tol a b"
  shows "\<exists>c. mset c \<subseteq># mset b \<and> rel_mset (vec_close tol) (mset a) (mset c)"
proof (cases "a = []")
  case True
  then show ?thesis by (intro exI [of _ "[]"]) (simp add: rel_mset_Zero)
next
  case False
  show ?thesis
  proof (cases "length (hd a) \<le> 1 \<or> exact_match_cap < length b")
    case True
    then have "greedy_subset (vec_close tol) (sort_key vec_sort_key a) (sort_key vec_sort_key b)"
      using assms False by (auto simp: match_float_vecs_subset_def split: if_splits)
    from greedy_subset_sound [OF this] obtain c where
      c: "mset c \<subseteq># mset b" "list_all2 (vec_close tol) (sort_key vec_sort_key a) c" by auto
    then have "rel_mset (vec_close tol) (mset (sort_key vec_sort_key a)) (mset c)"
      by (intro rel_msetI [OF refl])
    with c(1) show ?thesis by auto
  next
    case F: False
    then show ?thesis using assms False bipartite_ok_pairing [of "vec_close tol" a b]
      by (auto simp: match_float_vecs_subset_def split: if_splits)
  qed
qed

section \<open>Rows\<close>

text \<open>The specification of one accepted pair: exact columns equal, float columns close.\<close>

definition row_close :: "rat \<Rightarrow> nat list \<Rightarrow> nat list \<Rightarrow> row \<Rightarrow> row \<Rightarrow> bool" where
  "row_close tol exact fidx r s \<longleftrightarrow>
     key_eq (cells exact r) (cells exact s) \<and> vec_close tol (cells fidx r) (cells fidx s)"

definition plain_cell :: "pyval \<Rightarrow> bool" where
  "plain_cell v = (case v of PTuple _ \<Rightarrow> False | PList _ \<Rightarrow> False | _ \<Rightarrow> True)"

definition plain_rows :: "nat \<Rightarrow> row list \<Rightarrow> bool" where
  "plain_rows w rs \<longleftrightarrow> (\<forall>r \<in> set rs. length r = w \<and> list_all plain_cell r)"

lemma plain_hashable: "plain_cell v \<Longrightarrow> py_hashable v"
  by (cases v) (auto simp: plain_cell_def)

lemma fold_max_length: "(r :: row) \<in> set rs \<or> r = [] \<Longrightarrow> length r \<le> fold (max \<circ> length) rs n"
proof -
  have mono: "n \<le> fold (max \<circ> length) rs n" for rs :: "row list" and n
  proof (induction rs arbitrary: n)
    case (Cons a rs)
    have "n \<le> max (length a) n" by simp
    also note Cons.IH [of "max (length a) n"]
    finally show ?case by simp
  qed simp
  show "r \<in> set rs \<or> r = [] \<Longrightarrow> length r \<le> fold (max \<circ> length) rs n"
  proof (induction rs arbitrary: n)
    case (Cons a rs)
    have "length a \<le> max (length a) n" by simp
    also note mono [of "max (length a) n" rs]
    finally have "length a \<le> fold (max \<circ> length) (a # rs) n" by simp
    moreover have "fold (max \<circ> length) (a # rs) n = fold (max \<circ> length) rs (max (length a) n)" by simp
    ultimately show ?case using Cons.IH [of "max (length a) n"] Cons.prems by (metis set_ConsD)
  qed auto
qed

lemma float_columns_mem: "i \<in> set (float_columns rs) \<longleftrightarrow> (\<exists>r \<in> set rs. i < length r \<and> is_float (r ! i))"
proof
  assume "\<exists>r \<in> set rs. i < length r \<and> is_float (r ! i)"
  then obtain r where r: "r \<in> set rs" "i < length r" "is_float (r ! i)" by blast
  then have "i < fold (max \<circ> length) rs 0" using fold_max_length [of r rs 0] by simp
  with r show "i \<in> set (float_columns rs)" by (auto simp: float_columns_def)
qed (auto simp: float_columns_def)

lemma set_float_index: "set (float_index ra rb) = set (float_columns ra) \<union> set (float_columns rb)"
  by (simp add: float_index_def)

lemma float_index_width:
  "plain_rows w ra \<Longrightarrow> plain_rows w rb \<Longrightarrow> i \<in> set (float_index ra rb) \<Longrightarrow> i < w"
  by (auto simp: set_float_index float_columns_mem plain_rows_def)

text \<open>Every exact column is in range and holds no float in either table.\<close>

lemma exact_cell:
  assumes "plain_rows w ra" "plain_rows w rb" "ra \<noteq> []" "i \<in> set (exact_index ra rb)"
    and "r \<in> set ra \<union> set rb"
  shows "i < length r" "plain_cell (r ! i)" "\<not> is_float (r ! i)"
proof -
  have "length (hd ra) = w" using assms(1,3) by (simp add: plain_rows_def)
  then have i: "i < w" using assms(4) by (simp add: exact_index_def)
  have "length r = w" "list_all plain_cell r" using assms(1,2,5) by (auto simp: plain_rows_def)
  with i show 1: "i < length r" "plain_cell (r ! i)" by (auto simp: list_all_length)
  show "\<not> is_float (r ! i)"
    using assms(4,5) 1(1) by (auto simp: exact_index_def set_float_index float_columns_mem)
qed

lemma plain_eq_refl: "plain_cell v \<Longrightarrow> \<not> is_float v \<Longrightarrow> py_eq v v"
  by (cases v) (auto simp: plain_cell_def is_float_def)

lemma plain_keys:
  assumes "plain_rows w ra" "plain_rows w rb" "ra \<noteq> []"
  shows "refl_keys (exact_index ra rb) ra" "refl_keys (exact_index ra rb) rb"
    "hashable_keys (exact_index ra rb) ra" "hashable_keys (exact_index ra rb) rb"
  using exact_cell [OF assms] plain_eq_refl plain_hashable
  by (auto simp: refl_keys_def hashable_keys_def key_eq_def cells_def list_all_iff list_all2_conv_all_nth)

lemma group_rows_mem:
  assumes "refl_keys exact rs" "(k, vs) \<in> set (group_rows exact fidx rs)"
  shows "vs = bucket exact fidx rs k" "key_eq k k" "bucket exact fidx rs k \<noteq> []"
proof -
  have "k \<in> fst ` set (group_rows exact fidx rs)" using assms(2) by force
  then show kk: "key_eq k k" using group_rows_keys [of exact fidx rs] assms(1)
    by (auto simp: refl_keys_def)
  from groups_distinct_get [OF group_rows_distinct assms(2) kk]
  show "vs = bucket exact fidx rs k" "bucket exact fidx rs k \<noteq> []"
    by (auto simp: group_get_rows split: if_splits)
qed

lemma bucket_cong: "key_eq k l \<Longrightarrow> bucket exact fidx rs k = bucket exact fidx rs l"
proof -
  assume kl: "key_eq k l"
  have "key_eq x k = key_eq x l" for x
    using key_eq_trans [of x k l] key_eq_trans [of x l k] kl key_eq_sym [OF kl] by blast
  then show ?thesis by (simp add: bucket_def)
qed

text \<open>
  What \<open>multiset_equal\<close> computes: same key classes, and in every class two buckets of one length
  that pass the matcher.
\<close>

lemma multiset_equal_buckets:
  assumes "plain_rows w ra" "plain_rows w rb" "ra \<noteq> []"
  defines "fidx \<equiv> float_index ra rb" and "exact \<equiv> exact_index ra rb"
  shows "multiset_equal tol ra rb = Inr
    (classes exact ra = classes exact rb \<and>
     (\<forall>r \<in> set ra. let va = bucket exact fidx ra (cells exact r); vb = bucket exact fidx rb (cells exact r) in
        length va = length vb \<and> (fidx = [] \<or> match_float_vecs tol va vb)))"
proof -
  note keys = plain_keys [OF assms(1-3), folded exact_def]
  let ?ga = "group_rows exact fidx ra" and ?gb = "group_rows exact fidx rb"
  let ?ok = "\<lambda>va vb. length va = length vb \<and> (fidx = [] \<or> match_float_vecs tol va vb)"
  show ?thesis
  proof (cases "classes exact ra = classes exact rb")
    case True
    have "list_all (\<lambda>(k, va). ?ok va (the (group_get ?gb k))) ?ga \<longleftrightarrow>
        (\<forall>k \<in> fst ` set ?ga. ?ok (bucket exact fidx ra k) (bucket exact fidx rb k))"
    proof -
      have "the (group_get ?gb k) = bucket exact fidx rb k" if "(k, va) \<in> set ?ga" for k va
      proof -
        note m = group_rows_mem [OF keys(1) that]
        have "bucket exact fidx rb k \<noteq> []"
          using m(2,3) bucket_empty_iff [OF keys(1) m(2)] bucket_empty_iff [OF keys(2) m(2)] True by simp
        then show ?thesis by (simp add: group_get_rows)
      qed
      then show ?thesis using group_rows_mem(1) [OF keys(1)]
        by (fastforce simp: list_all_iff)
    qed
    also have "\<dots> \<longleftrightarrow> (\<forall>r \<in> set ra. ?ok (bucket exact fidx ra (cells exact r)) (bucket exact fidx rb (cells exact r)))"
    proof
      assume *: "\<forall>k \<in> fst ` set ?ga. ?ok (bucket exact fidx ra k) (bucket exact fidx rb k)"
      show "\<forall>r \<in> set ra. ?ok (bucket exact fidx ra (cells exact r)) (bucket exact fidx rb (cells exact r))"
      proof
        fix r assume r: "r \<in> set ra"
        then have "key_eq (cells exact r) (cells exact r)" using keys(1) by (simp add: refl_keys_def)
        from group_rows_covers [OF r this] obtain l where
          l: "l \<in> fst ` set ?ga" "key_eq l (cells exact r)" by blast
        with * have "?ok (bucket exact fidx ra l) (bucket exact fidx rb l)" by blast
        then show "?ok (bucket exact fidx ra (cells exact r)) (bucket exact fidx rb (cells exact r))"
          by (simp only: bucket_cong [OF l(2)])
      qed
    next
      assume *: "\<forall>r \<in> set ra. ?ok (bucket exact fidx ra (cells exact r)) (bucket exact fidx rb (cells exact r))"
      show "\<forall>k \<in> fst ` set ?ga. ?ok (bucket exact fidx ra k) (bucket exact fidx rb k)"
      proof
        fix k assume "k \<in> fst ` set ?ga"
        then have "k \<in> cells exact ` set ra" using group_rows_keys by (rule subsetD [rotated])
        then obtain r where "r \<in> set ra" "k = cells exact r" by blast
        with * show "?ok (bucket exact fidx ra k) (bucket exact fidx rb k)" by simp
      qed
    qed
    finally show ?thesis
      using True keys assms(3) same_keys_classes [OF keys(1,2), of fidx]
      by (simp add: multiset_equal_def Let_def fidx_def [symmetric] exact_def [symmetric])
  next
    case False
    then show ?thesis
      using keys assms(3) same_keys_classes [OF keys(1,2), of fidx]
      by (simp add: multiset_equal_def Let_def fidx_def [symmetric] exact_def [symmetric])
  qed
qed

lemma bucket_pairing:
  "rel_mset (vec_close tol) (mset (bucket exact fidx ra k)) (mset (bucket exact fidx rb k)) \<longleftrightarrow>
   rel_mset (\<lambda>r s. vec_close tol (cells fidx r) (cells fidx s))
     (mset (filter (\<lambda>r. key_eq (cells exact r) k) ra)) (mset (filter (\<lambda>r. key_eq (cells exact r) k) rb))"
  by (simp only: bucket_def rel_mset_map)

lemma vec_close_no_columns: "vec_close tol [] []"
  by (simp add: vec_close_def)

lemma no_floats_pairing:
  "length a = length b \<Longrightarrow> (\<And>x y. x \<in> set a \<Longrightarrow> y \<in> set b \<Longrightarrow> R x y) \<Longrightarrow> rel_mset R (mset a) (mset b)"
  by (rule rel_msetI [OF refl]) (simp add: list_all2_conv_all_nth)

lemma multiset_equal_sound:
  assumes "plain_rows w ra" "plain_rows w rb" "multiset_equal tol ra rb = Inr True"
  shows "rel_mset (row_close tol (exact_index ra rb) (float_index ra rb)) (mset ra) (mset rb)"
proof (cases "ra = []")
  case True
  then show ?thesis using assms(3) by (simp add: multiset_equal_def rel_mset_Zero)
next
  case False
  define fidx exact where d: "fidx = float_index ra rb" "exact = exact_index ra rb"
  note keys = plain_keys [OF assms(1,2) False, folded d]
  have eq: "classes exact ra = classes exact rb"
    and grp: "\<And>r. r \<in> set ra \<Longrightarrow>
      length (bucket exact fidx ra (cells exact r)) = length (bucket exact fidx rb (cells exact r)) \<and>
      (fidx = [] \<or> match_float_vecs tol (bucket exact fidx ra (cells exact r)) (bucket exact fidx rb (cells exact r)))"
    using multiset_equal_buckets [OF assms(1,2) False, of tol] assms(3)
    by (simp_all add: d Let_def)
  have bk: "rel_mset (vec_close tol) (mset (bucket exact fidx ra (cells exact r)))
      (mset (bucket exact fidx rb (cells exact r)))" if "r \<in> set ra" for r
  proof (cases "fidx = []")
    case True
    with grp [OF that] show ?thesis
      by (intro no_floats_pairing) (auto simp: bucket_def cells_def vec_close_no_columns)
  qed (use grp [OF that] match_float_vecs_sound in blast)
  show ?thesis unfolding d [symmetric]
  proof (rule rel_mset_groups [where E = key_eq and ka = "cells exact" and kb = "cells exact"])
    fix k assume "k \<in> cells exact ` set ra \<union> cells exact ` set rb"
    then have "key_class k \<in> classes exact ra" using eq unfolding classes_def by (metis UnE imageI)
    moreover have kk: "key_eq k k"
      using \<open>k \<in> cells exact ` set ra \<union> cells exact ` set rb\<close> keys(1,2) by (auto simp: refl_keys_def)
    ultimately obtain r where r: "r \<in> set ra" "key_eq k (cells exact r)"
      using keys(1) key_class_eq [OF kk] by (auto simp: classes_def refl_keys_def)
    have flip: "key_eq k l = key_eq l k" for l using key_eq_sym by blast
    have "rel_mset (\<lambda>r s. vec_close tol (cells fidx r) (cells fidx s))
       (mset (filter (\<lambda>x. key_eq k (cells exact x)) ra)) (mset (filter (\<lambda>x. key_eq k (cells exact x)) rb))"
      using bk [OF r(1)] bucket_cong [OF r(2)] by (simp only: bucket_pairing [symmetric] flip)
    then show "rel_mset (row_close tol exact fidx)
       (mset (filter (\<lambda>x. key_eq k (cells exact x)) ra)) (mset (filter (\<lambda>x. key_eq k (cells exact x)) rb))"
      by (rule rel_mset_mono_on) (auto simp: row_close_def intro: key_eq_trans [OF key_eq_sym])
  qed (use keys in \<open>auto simp: refl_keys_def intro: key_eq_sym key_eq_trans\<close>)
qed

text \<open>The inputs on which the verdict is exact.\<close>

definition decidable_rows :: "row list \<Rightarrow> row list \<Rightarrow> bool" where
  "decidable_rows ra rb \<longleftrightarrow>
     (case float_index ra rb of
        [] \<Rightarrow> True
      | [i] \<Rightarrow> (\<forall>r \<in> set ra \<union> set rb. simple_cell (r ! i))
      | _ \<Rightarrow> length ra \<le> exact_match_cap)"

lemma bucket_decidable:
  assumes "decidable_rows ra rb" "float_index ra rb \<noteq> []"
  shows "decidable_vecs (bucket exact (float_index ra rb) ra k) (bucket exact (float_index ra rb) rb k)"
proof -
  consider (one) i where "float_index ra rb = [i]" "\<forall>r \<in> set ra \<union> set rb. simple_cell (r ! i)"
    | (many) "1 < length (float_index ra rb)" "length ra \<le> exact_match_cap"
    using assms by (auto simp: decidable_rows_def split: list.splits)
  then show ?thesis
  proof cases
    case one
    then show ?thesis by (auto simp: decidable_vecs_def bucket_def cells_def simple_vec_def list_all_iff)
  next
    case many
    have "length (bucket exact (float_index ra rb) ra k) \<le> exact_match_cap"
      using many(2) le_trans [OF length_filter_le] by (simp add: bucket_def)
    with many(1) show ?thesis by (simp add: decidable_vecs_def bucket_def cells_def list_all_iff)
  qed
qed

lemma multiset_equal_complete:
  assumes "plain_rows w ra" "plain_rows w rb" "decidable_rows ra rb" "0 \<le> tol" "tol \<le> 1"
    and r: "rel_mset (row_close tol (exact_index ra rb) (float_index ra rb)) (mset ra) (mset rb)"
  shows "multiset_equal tol ra rb = Inr True"
proof (cases "ra = []")
  case True
  then show ?thesis using rel_mset_length [OF r] by (simp add: multiset_equal_def)
next
  case False
  define fidx exact where d: "fidx = float_index ra rb" "exact = exact_index ra rb"
  note keys = plain_keys [OF assms(1,2) False, folded d]
  note r = r [folded d]
  have bk: "rel_mset (vec_close tol) (mset (bucket exact fidx ra k)) (mset (bucket exact fidx rb k))" for k
  proof -
    have "rel_mset (row_close tol exact fidx)
       (mset (filter (\<lambda>r. key_eq (cells exact r) k) ra)) (mset (filter (\<lambda>r. key_eq (cells exact r) k) rb))"
      by (rule rel_mset_filter [OF r]) (auto simp: row_close_def dest: key_eq_cong)
    then show ?thesis unfolding bucket_pairing
      by (rule rel_mset_mono_on) (simp add: row_close_def)
  qed
  have len: "length (bucket exact fidx ra k) = length (bucket exact fidx rb k)" for k
    using rel_mset_length [OF bk] .
  have cls: "c \<in> classes exact ra \<longleftrightarrow> c \<in> classes exact rb" for c
  proof -
    have "key_class k \<in> classes exact ra \<longleftrightarrow> key_class k \<in> classes exact rb" if "key_eq k k" for k
      using bucket_empty_iff [OF keys(1) that, of fidx] bucket_empty_iff [OF keys(2) that, of fidx] len [of k]
      by (metis length_0_conv)
    then show ?thesis using keys(1,2) unfolding classes_def refl_keys_def by blast
  qed
  have "match_float_vecs tol (bucket exact fidx ra k) (bucket exact fidx rb k)" if "fidx \<noteq> []" for k
    using match_float_vecs_exact [OF len _ assms(4,5)] bk
      bucket_decidable [OF assms(3), of exact k] that by (simp add: d)
  with len cls show ?thesis
    using multiset_equal_buckets [OF assms(1,2) False, of tol, folded d] by (auto simp: Let_def)
qed

section \<open>The unordered verdict\<close>



section \<open>The verdict is sound in every mode\<close>

lemma rows_of_length: "table_ok t \<Longrightarrow> length (rows_of t) = num_rows t"
proof (cases t)
  case (Cons c cs)
  assume "table_ok t"
  then have "(length \<circ> snd) ` set t = {num_rows t}"
    using Cons by (auto simp: table_ok_def)
  then have "Min (set (map (length \<circ> snd) t)) = num_rows t" by (simp only: set_map Min_singleton)
  moreover have "t \<noteq> []" using Cons by simp
  ultimately show ?thesis by (simp only: rows_of_def if_False length_map length_upt minus_nat.diff_0)
qed (simp add: rows_of_def num_rows_def)

lemma rows_of_width: "r \<in> set (rows_of t) \<Longrightarrow> length r = num_columns t"
  by (auto simp: rows_of_def num_columns_def split: if_splits)

lemma rows_of_single: "rows_of [(c, xs)] = map (\<lambda>v. [v]) xs"
proof -
  have "map (\<lambda>i. [xs ! i]) [0..<length xs] = map (\<lambda>v. [v]) (map (\<lambda>i. xs ! i) [0..<length xs])" by simp
  then show ?thesis by (simp only: map_nth) (simp add: rows_of_def)
qed

definition plain_table :: "arrow \<Rightarrow> bool" where
  "plain_table t \<longleftrightarrow> table_ok t \<and> (\<forall>r \<in> set (rows_of t). list_all plain_cell r)"

lemma plain_table_rows: "plain_table t \<Longrightarrow> plain_rows (num_columns t) (rows_of t)"
  by (simp add: plain_table_def plain_rows_def rows_of_width)

text \<open>
  C10. A positive verdict means the tables agree: the same shape, and the rows pair one-to-one
  (exact columns equal, float columns close); under an \<open>ORDER BY\<close> with known keys the keys also
  agree position by position, and without known keys whole rows agree position by position.
\<close>

theorem results_equal_sound:
  assumes "plain_table t" "plain_table u"
    and "results_equal tol ordered order_keys None candidates t u = Inr True"
  shows "num_columns t = num_columns u \<and> num_rows t = num_rows u \<and>
    (if ordered \<and> (order_keys = None \<or> order_keys = Some [])
     then list_all2 (row_equal tol) (rows_of t) (rows_of u)
     else rel_mset (row_close tol (exact_index (rows_of t) (rows_of u)) (float_index (rows_of t) (rows_of u)))
            (mset (rows_of t)) (mset (rows_of u)) \<and>
          (ordered \<longrightarrow> list_all2 (\<lambda>r s. row_equal tol (keys_of (the order_keys) r) (keys_of (the order_keys) s))
             (rows_of t) (rows_of u)))"
proof -
  let ?A = "rows_of t" and ?B = "rows_of u"
  have dims: "num_columns t = num_columns u" "num_rows t = num_rows u"
    using assms(3) by (auto simp: results_equal_def split: if_splits)
  then have len: "length ?A = length ?B"
    using rows_of_length assms(1,2) by (simp add: plain_table_def)
  have pr: "plain_rows (num_columns u) ?A" "plain_rows (num_columns u) ?B"
    using plain_table_rows assms(1,2) dims by metis+
  have zip: "list_all (\<lambda>(a, b). P a b) (zip ?A ?B) \<Longrightarrow> list_all2 P ?A ?B" for P
    using len by (auto simp: list_all2_iff list_all_iff)
  show ?thesis
  proof (cases "ordered \<and> (order_keys = None \<or> order_keys = Some [])")
    case True
    then have "list_all (\<lambda>(a, b). row_equal tol a b) (zip ?A ?B)"
      using assms(3) dims by (auto simp: results_equal_def Let_def split: option.splits)
    with True dims zip show ?thesis by simp
  next
    case False
    then have "multiset_equal tol ?A ?B = Inr True"
      using assms(3) dims
      by (auto simp: results_equal_def Let_def split: option.splits list.splits if_splits)
    from multiset_equal_sound [OF pr this]
    moreover have "list_all2 (\<lambda>r s. row_equal tol (keys_of (the order_keys) r) (keys_of (the order_keys) s)) ?A ?B"
      if "ordered"
      using False assms(3) dims that
      by (intro zip) (auto simp: results_equal_def Let_def split: option.splits list.splits if_splits)
    ultimately show ?thesis using dims by (simp only: False if_False) blast
  qed
qed

theorem results_equal_sound_witness:
  "results_equal default_tol True (Some [0]) None None
     [(''k'', [PInt 1, PInt 1]), (''v'', [PInt 7, PInt 8])]
     [(''k'', [PInt 1, PInt 1]), (''v'', [PInt 8, PInt 7])] = Inr True \<and>
   num_rows [(''k'', [PInt 1, PInt 1]), (''v'', [PInt 7, PInt 8])] = 2"
proof -
  let ?t = "[(''k'', [PInt 1, PInt 1]), (''v'', [PInt 7, PInt 8])]"
  let ?u = "[(''k'', [PInt 1, PInt 1]), (''v'', [PInt 8, PInt 7])]"
  have p: "plain_table ?t" "plain_table ?u"
    by (auto simp: plain_table_def table_ok_def num_rows_def rows_of_def plain_cell_def)
  have r: "results_equal default_tol True (Some [0]) None None ?t ?u = Inr True" by code_simp
  from results_equal_sound [OF p r] r show ?thesis by (simp add: num_rows_def)
qed

section \<open>Truncated results\<close>

lemma match_subset_bucket:
  assumes "fidx = [] \<or> match_float_vecs_subset tol (bucket exact fidx ra k) (bucket exact fidx rb k)"
    and "length (bucket exact fidx ra k) \<le> length (bucket exact fidx rb k)"
  shows "sub_pairing (\<lambda>r s. vec_close tol (cells fidx r) (cells fidx s))
    (filter (\<lambda>r. key_eq (cells exact r) k) ra) (filter (\<lambda>r. key_eq (cells exact r) k) rb)"
proof (cases "fidx = []")
  case True
  let ?A = "filter (\<lambda>r. key_eq (cells exact r) k) ra" and ?B = "filter (\<lambda>r. key_eq (cells exact r) k) rb"
  have "length ?A \<le> length ?B" using assms(2) by (simp add: bucket_def)
  then have "list_all2 (\<lambda>r s. vec_close tol (cells fidx r) (cells fidx s)) ?A (take (length ?A) ?B)"
    using True by (simp add: list_all2_conv_all_nth cells_def vec_close_no_columns)
  moreover have "mset (take (length ?A) ?B) \<subseteq># mset ?B"
    by (metis append_take_drop_id mset_append mset_subset_eq_add_left)
  ultimately show ?thesis by (rule sub_pairingI [rotated])
next
  case False
  let ?B = "filter (\<lambda>r. key_eq (cells exact r) k) rb"
  from False assms(1) match_float_vecs_subset_sound obtain c where
    c: "mset c \<subseteq># mset (map (cells fidx) ?B)"
    "rel_mset (vec_close tol) (mset (bucket exact fidx ra k)) (mset c)"
    unfolding bucket_def by blast
  from c(1) have "mset c \<subseteq># image_mset (cells fidx) (mset ?B)" by (simp only: mset_map)
  then obtain N where "image_mset (cells fidx) (mset ?B) = mset c + N"
    by (auto simp: mset_subset_eq_exists_conv)
  then obtain M M' where "mset ?B = M + M'" "mset c = image_mset (cells fidx) M"
    using image_mset_eq_plusD [of "cells fidx" "mset ?B" "mset c" N] by metis
  then have M: "M \<subseteq># mset ?B" "mset c = image_mset (cells fidx) M" by simp_all
  obtain D where D: "mset D = M" using ex_mset by blast
  have "rel_mset (vec_close tol) (mset (bucket exact fidx ra k)) (mset (map (cells fidx) D))"
    using c(2) M(2) D by (simp only: mset_map)
  then have "rel_mset (\<lambda>r s. vec_close tol (cells fidx r) (cells fidx s))
    (mset (filter (\<lambda>r. key_eq (cells exact r) k) ra)) (mset D)"
    by (simp only: bucket_def rel_mset_map)
  with M(1) D show ?thesis unfolding sub_pairing_def by blast
qed

lemma multiset_contained_sound:
  assumes pr: "plain_rows w ra" "plain_rows w rb" and c: "multiset_contained tol ra rb = Inr True"
  shows "sub_pairing (row_close tol (exact_index ra rb) (float_index ra rb)) ra rb"
proof (cases "ra = []")
  case True
  then show ?thesis by (intro sub_pairingI [of "[]"]) auto
next
  case False
  define fidx exact where d: "fidx = float_index ra rb" "exact = exact_index ra rb"
  note keys = plain_keys [OF pr False, folded d]
  let ?ga = "group_rows exact fidx ra" and ?gb = "group_rows exact fidx rb"
  have all: "case group_get ?gb k of None \<Rightarrow> False
       | Some vb \<Rightarrow> length va \<le> length vb \<and> (fidx = [] \<or> match_float_vecs_subset tol va vb)"
    if "(k, va) \<in> set ?ga" for k va
    using c False keys that
    by (auto simp: multiset_contained_def Let_def d [symmetric] list_all_iff)
  show ?thesis unfolding d [symmetric]
  proof (rule sub_pairing_groups [where E = key_eq and ka = "cells exact" and kb = "cells exact"])
    fix k assume "k \<in> cells exact ` set ra"
    then obtain r where r: "r \<in> set ra" "k = cells exact r" by blast
    then have "key_eq (cells exact r) (cells exact r)" using keys(1) by (simp add: refl_keys_def)
    from group_rows_covers [OF r(1) this, of fidx] obtain l va where
      l: "(l, va) \<in> set ?ga" "key_eq l k" using r(2) by auto
    have "group_get ?gb l = Some (bucket exact fidx rb l)"
      using all [OF l(1)] by (auto simp: group_get_rows split: option.splits if_splits)
    then have "length (bucket exact fidx ra l) \<le> length (bucket exact fidx rb l) \<and>
      (fidx = [] \<or> match_float_vecs_subset tol (bucket exact fidx ra l) (bucket exact fidx rb l))"
      using all [OF l(1)] group_rows_mem(1) [OF keys(1) l(1)] by simp
    then have sp: "sub_pairing (\<lambda>r s. vec_close tol (cells fidx r) (cells fidx s))
      (filter (\<lambda>r. key_eq (cells exact r) k) ra) (filter (\<lambda>r. key_eq (cells exact r) k) rb)"
      using match_subset_bucket bucket_cong [OF l(2)] by metis
    have flip: "key_eq x k = key_eq k x" for x using key_eq_sym by blast
    from sp obtain C where
      C: "mset C \<subseteq># mset (filter (\<lambda>x. key_eq k (cells exact x)) rb)"
      "rel_mset (\<lambda>r s. vec_close tol (cells fidx r) (cells fidx s))
        (mset (filter (\<lambda>x. key_eq k (cells exact x)) ra)) (mset C)"
      unfolding sub_pairing_def flip by blast
    have "set C \<subseteq> set (filter (\<lambda>x. key_eq k (cells exact x)) rb)"
      using set_mset_mono [OF C(1)] by simp
    then have "rel_mset (row_close tol exact fidx)
        (mset (filter (\<lambda>x. key_eq k (cells exact x)) ra)) (mset C)"
      by (intro rel_mset_mono_on [OF C(2)]) (auto simp: row_close_def intro: key_eq_trans [OF key_eq_sym])
    with C(1) show "sub_pairing (row_close tol exact fidx)
        (filter (\<lambda>x. key_eq k (cells exact x)) ra) (filter (\<lambda>x. key_eq k (cells exact x)) rb)"
      unfolding sub_pairing_def by blast
  qed (use keys in \<open>auto simp: refl_keys_def intro: key_eq_sym key_eq_trans\<close>)
qed

text \<open>
  C35. A truncated result is accepted only when its rows are distinct members of the candidate
  pool and its order keys agree with the reference position by position.
\<close>

theorem truncated_result_sound:
  assumes "plain_table t" "plain_table u" "plain_rows (num_columns t) cs"
    and "results_equal tol True (Some (k # ks)) (Some n) (Some cs) t u = Inr True" "num_rows u = n"
  shows "(\<exists>C. mset C \<subseteq># mset cs \<and>
      rel_mset (row_close tol (exact_index (rows_of t) cs) (float_index (rows_of t) cs))
        (mset (rows_of t)) (mset C)) \<and>
    list_all2 (\<lambda>r s. row_equal tol (keys_of (k # ks) r) (keys_of (k # ks) s)) (rows_of t) (rows_of u)"
proof -
  let ?A = "rows_of t" and ?B = "rows_of u"
  have dims: "num_columns t = num_columns u" "num_rows t = num_rows u"
    using assms(4) by (auto simp: results_equal_def split: if_splits)
  have len: "length ?A = length ?B" "length ?B = n"
    using rows_of_length assms(1,2,5) dims by (simp_all add: plain_table_def)
  have keys: "list_all (\<lambda>(a, b). row_equal tol (keys_of (k # ks) a) (keys_of (k # ks) b)) (zip ?A ?B)"
    and "multiset_contained tol ?A cs = Inr True"
    using assms(4) dims len by (auto simp: results_equal_def Let_def split: if_splits)
  with multiset_contained_sound [OF plain_table_rows [OF assms(1)] assms(3)] len
  show ?thesis by (auto simp: sub_pairing_def list_all2_iff list_all_iff)
qed

theorem truncated_result_sound_witness:
  "results_equal default_tol True (Some [0]) (Some 1) (Some [[PInt 1, PInt 7], [PInt 1, PInt 8]])
     [(''k'', [PInt 1]), (''v'', [PInt 8])] [(''k'', [PInt 1]), (''v'', [PInt 7])] = Inr True \<and>
   (\<exists>C. mset C \<subseteq># mset [[PInt 1, PInt 7], [PInt 1, PInt 8]] \<and>
      rel_mset (row_close default_tol [0, 1] []) (mset [[PInt 1, PInt 8]]) (mset C))"
proof -
  let ?t = "[(''k'', [PInt 1]), (''v'', [PInt 8])]" and ?u = "[(''k'', [PInt 1]), (''v'', [PInt 7])]"
  let ?cs = "[[PInt 1, PInt 7], [PInt 1, PInt 8]]"
  have p: "plain_table ?t" "plain_table ?u" "plain_rows (num_columns ?t) ?cs" "num_rows ?u = 1"
    by (auto simp: plain_table_def table_ok_def num_rows_def rows_of_def plain_cell_def
        plain_rows_def num_columns_def)
  have r: "results_equal default_tol True (Some [0]) (Some 1) (Some ?cs) ?t ?u = Inr True" by code_simp
  have e: "rows_of ?t = [[PInt 1, PInt 8]]" "exact_index [[PInt 1, PInt 8]] ?cs = [0, 1]"
    "float_index [[PInt 1, PInt 8]] ?cs = []"
    by code_simp+
  from truncated_result_sound [OF p(1-3) r p(4)] r show ?thesis by (simp only: e)
qed

section \<open>The widening loop\<close>

lemma widen_loop_ends:
  "window * max_widen_factor < limit * 2 ^ f \<Longrightarrow>
   widen_loop (Suc f) fetch tol ks key window limit \<noteq> None"
proof (induction f arbitrary: limit)
  case (Suc f)
  have "widen_loop (Suc f) fetch tol ks key window (limit * 2) \<noteq> None"
    by (rule Suc.IH) (use Suc.prems in \<open>simp add: mult.assoc\<close>)
  then show ?case
    by (subst widen_loop.simps(2)) (auto simp: Let_def simp del: widen_loop.simps split: option.splits)
qed (auto split: option.splits)

text \<open>
  C36. The search for candidates ends within its fuel on every input: the limit doubles, and a
  window of at least one row outruns the factor after eleven doublings.
\<close>

theorem candidate_superset_ends: "candidate_superset reference ks row_limit off fetch tol \<noteq> None"
proof -
  have "widen_loop (Suc 11) fetch tol ks key (off + n) (off + n) \<noteq> None" if "0 < n" for key n
    by (rule widen_loop_ends) (use that in \<open>simp add: max_widen_factor_def\<close>)
  then show ?thesis
    by (auto simp: candidate_superset_def widen_fuel_def Let_def eval_nat_numeral
        simp del: widen_loop.simps split: option.splits)
qed

lemma widen_loop_pool:
  "widen_loop f fetch tol ks key window limit = Some (Some pool) \<Longrightarrow> 0 < limit \<Longrightarrow>
   \<exists>l w. limit < l \<and> fetch l = Some w \<and> pool = rows_of w \<and> pool \<noteq> [] \<and>
     (length pool < l \<or> \<not> row_equal tol (keys_of ks (List.last pool)) key)"
proof (induction f arbitrary: limit)
  case (Suc f)
  then obtain w where w: "fetch (limit * 2) = Some w" "rows_of w \<noteq> []"
    by (auto simp: Let_def split: if_splits option.splits)
  show ?case
  proof (cases "length (rows_of w) < limit * 2 \<or> \<not> row_equal tol (keys_of ks (List.last (rows_of w))) key")
    case True
    with Suc.prems w have "pool = rows_of w" by (auto simp: Let_def split: if_splits)
    with True w Suc.prems(2) show ?thesis by (intro exI [of _ "limit * 2"]) auto
  next
    case False
    with Suc.prems w have "widen_loop f fetch tol ks key window (limit * 2) = Some (Some pool)"
      by (auto simp: Let_def split: if_splits)
    from Suc.IH [OF this] Suc.prems(2) obtain l v where
      "limit * 2 < l" "fetch l = Some v" "pool = rows_of v" "pool \<noteq> []"
      "length pool < l \<or> \<not> row_equal tol (keys_of ks (List.last pool)) key" by auto
    then show ?thesis by (intro exI [of _ l]) auto
  qed
qed simp

text \<open>
  The pool is complete: when the fetches return prefixes of one ranking in which the rows
  tied with the last row of the window are contiguous, the pool is a prefix of the ranking that
  holds the whole window and every row tied with its last row.
\<close>

theorem candidate_pool_complete:
  assumes fetch: "\<forall>l. \<exists>w. fetch l = Some w \<and> rows_of w = take l ranking"
    and ref: "rows_of reference = take n (drop off ranking)"
    and contiguous: "\<forall>i j k. i < j \<and> j < k \<and> k < length ranking \<and>
      row_equal tol (keys_of ks (ranking ! i)) (keys_of ks (List.last (rows_of reference))) \<and>
      row_equal tol (keys_of ks (ranking ! k)) (keys_of ks (List.last (rows_of reference))) \<longrightarrow>
      row_equal tol (keys_of ks (ranking ! j)) (keys_of ks (List.last (rows_of reference)))"
    and refl: "row_equal tol (keys_of ks (List.last (rows_of reference))) (keys_of ks (List.last (rows_of reference)))"
    and pool: "candidate_superset reference ks (Some n) off fetch tol = Some (Some pool)"
  shows "pool = take (length pool) ranking \<and> off + n \<le> length pool \<and>
    (\<forall>i < length ranking.
       row_equal tol (keys_of ks (ranking ! i)) (keys_of ks (List.last (rows_of reference))) \<and> off + n \<le> i
       \<longrightarrow> i < length pool)"
proof -
  let ?key = "keys_of ks (List.last (rows_of reference))"
  have len: "rows_of reference \<noteq> []" "length (rows_of reference) = n"
    and loop: "widen_loop widen_fuel fetch tol ks ?key (off + n) (off + n) = Some (Some pool)"
    using pool by (auto simp: candidate_superset_def Let_def split: if_splits)
  then have n: "0 < n" by auto
  have size: "off + n \<le> length ranking" using ref len n by (simp add: min_def split: if_splits)
  have last: "List.last (rows_of reference) = ranking ! (off + n - 1)"
    using ref len n size by (simp add: last_conv_nth)
  from widen_loop_pool [OF loop] n obtain l w where
    l: "off + n < l" "fetch l = Some w" "pool = rows_of w" "pool \<noteq> []"
      "length pool < l \<or> \<not> row_equal tol (keys_of ks (List.last pool)) ?key" by auto
  from fetch l(2,3) have pl: "pool = take l ranking" by (metis option.inject)
  then have pre: "pool = take (length pool) ranking"
    by (cases "l \<le> length ranking") (simp_all add: min_def)
  have "i < length pool"
    if i: "i < length ranking" "row_equal tol (keys_of ks (ranking ! i)) ?key" "off + n \<le> i" for i
  proof (rule ccontr)
    assume "\<not> i < length pool"
    then have li: "l \<le> i" "length pool = l" using pl i(1) by (auto simp: min_def split: if_splits)
    then have "List.last pool = ranking ! (l - 1)" using pl l(4) i(1) by (simp add: last_conv_nth)
    then have no: "\<not> row_equal tol (keys_of ks (ranking ! (l - 1))) ?key" using l(5) li(2) by simp
    have "off + n - 1 < l - 1" "l - 1 < i" using l(1) li(1) n by auto
    with contiguous i(1,2) refl last have "row_equal tol (keys_of ks (ranking ! (l - 1))) ?key"
      by metis
    with no show False by simp
  qed
  moreover have "off + n \<le> length pool" using pl l(1) size by simp
  ultimately show ?thesis using pre by blast
qed

theorem candidate_pool_complete_witness:
  "\<exists>pool. candidate_superset [(''k'', [PInt 1])] [0] (Some 1) 0
      (\<lambda>l. Some [(''k'', take l [PInt 1, PInt 1, PInt 1, PInt 2, PInt 3])]) default_tol = Some (Some pool) \<and>
    pool = take (length pool) [[PInt 1], [PInt 1], [PInt 1], [PInt 2], [PInt 3]] \<and> 3 \<le> length pool"
proof -
  let ?r = "[[PInt 1], [PInt 1], [PInt 1], [PInt 2], [PInt 3]]"
  let ?f = "\<lambda>l. Some [(''k'', take l [PInt 1, PInt 1, PInt 1, PInt 2, PInt 3])]"
  have r: "rows_of [(''k'', [PInt 1])] = [[PInt 1]]" by code_simp
  have k: "row_equal default_tol (keys_of [0] (?r ! i)) (keys_of [0] [PInt 1]) \<longleftrightarrow> i < 3" if "i < 5" for i
    using that by (auto simp: less_Suc_eq eval_nat_numeral row_equal_def keys_of_def cells_def
        cell_equal_def is_float_def num_of_def)
  have pool: "candidate_superset [(''k'', [PInt 1])] [0] (Some 1) 0 ?f default_tol = Some (Some (take 4 ?r))"
    by code_simp
  have "take 4 ?r = take (length (take 4 ?r)) ?r \<and> 0 + 1 \<le> length (take 4 ?r) \<and>
    (\<forall>i < length ?r. row_equal default_tol (keys_of [0] (?r ! i)) (keys_of [0] (List.last (rows_of [(''k'', [PInt 1])]))) \<and>
       0 + 1 \<le> i \<longrightarrow> i < length (take 4 ?r))"
  proof (rule candidate_pool_complete [OF _ _ _ _ pool])
    show "\<forall>l. \<exists>w. ?f l = Some w \<and> rows_of w = take l ?r"
    proof
      fix l
      show "\<exists>w. ?f l = Some w \<and> rows_of w = take l ?r"
        by (simp add: rows_of_single take_map [symmetric])
    qed
    show "rows_of [(''k'', [PInt 1])] = take 1 (drop 0 ?r)" by (simp add: r)
    show "row_equal default_tol (keys_of [0] (List.last (rows_of [(''k'', [PInt 1])])))
      (keys_of [0] (List.last (rows_of [(''k'', [PInt 1])])))"
      using k [of 0] by (simp add: r)
    show "\<forall>i j m. i < j \<and> j < m \<and> m < length ?r \<and>
      row_equal default_tol (keys_of [0] (?r ! i)) (keys_of [0] (List.last (rows_of [(''k'', [PInt 1])]))) \<and>
      row_equal default_tol (keys_of [0] (?r ! m)) (keys_of [0] (List.last (rows_of [(''k'', [PInt 1])]))) \<longrightarrow>
      row_equal default_tol (keys_of [0] (?r ! j)) (keys_of [0] (List.last (rows_of [(''k'', [PInt 1])])))"
    proof (intro allI impI, elim conjE)
      fix i j m assume a: "i < j" "j < m" "m < length ?r"
        "row_equal default_tol (keys_of [0] (?r ! m)) (keys_of [0] (List.last (rows_of [(''k'', [PInt 1])])))"
      have l: "List.last (rows_of [(''k'', [PInt 1])]) = [PInt 1]" by (simp add: r)
      have "m < 5" using a(3) by simp
      from k [OF this] a(4) have "m < 3" unfolding l by blast
      with a(2) k [of j] show "row_equal default_tol (keys_of [0] (?r ! j))
          (keys_of [0] (List.last (rows_of [(''k'', [PInt 1])])))"
        unfolding l by linarith
    qed
  qed
  with pool show ?thesis by (intro exI [of _ "take 4 ?r"]) simp
qed

text \<open>
  The loop tests the limit before it doubles it, so the widest query it runs covers twice
  \<open>_MAX_WIDEN_FACTOR\<close> windows: a pool that only closes there is still returned.
\<close>

lemma widen_loop_full:
  assumes "\<And>l. l < 2 ^ Suc f * limit \<Longrightarrow>
      \<exists>t. fetch l = Some t \<and> rows_of t \<noteq> [] \<and> l \<le> length (rows_of t) \<and>
        row_equal tol (keys_of ks (List.last (rows_of t))) key"
    and "2 ^ f * limit \<le> window * max_widen_factor" "0 < limit"
    and "fetch (2 ^ Suc f * limit) = Some u" "rows_of u \<noteq> []" "length (rows_of u) < 2 ^ Suc f * limit"
  shows "widen_loop (Suc f) fetch tol ks key window limit = Some (Some (rows_of u))"
  using assms
proof (induction f arbitrary: limit)
  case 0
  then show ?case by (simp add: mult.commute)
next
  case (Suc f)
  have "limit * 2 < 2 ^ Suc (Suc f) * limit"
  proof -
    have "1 < 2 * (2::nat) ^ f" by (induction f) auto
    then show ?thesis using Suc.prems(3) by simp
  qed
  then obtain t where t: "fetch (limit * 2) = Some t" "rows_of t \<noteq> []"
    "limit * 2 \<le> length (rows_of t)" "row_equal tol (keys_of ks (List.last (rows_of t))) key"
    using Suc.prems(1) by blast
  have "widen_loop (Suc f) fetch tol ks key window (limit * 2) = Some (Some (rows_of u))"
    by (rule Suc.IH) (use Suc.prems in \<open>simp_all add: ac_simps\<close>)
  moreover have "limit \<le> window * max_widen_factor"
    using Suc.prems(2) le_trans [of limit "2 ^ Suc f * limit"] by simp
  ultimately show ?case
    using t by (subst widen_loop.simps(2)) (simp add: Let_def del: widen_loop.simps)
qed

lemma widen_reaches_twice_the_factor:
  assumes "\<And>l. l < 2 * max_widen_factor * w \<Longrightarrow>
      \<exists>t. fetch l = Some t \<and> rows_of t \<noteq> [] \<and> l \<le> length (rows_of t) \<and>
        row_equal tol (keys_of ks (List.last (rows_of t))) key"
    and "0 < w" "fetch (2 * max_widen_factor * w) = Some u" "rows_of u \<noteq> []"
    and "length (rows_of u) < 2 * max_widen_factor * w"
  shows "widen_loop (Suc 10) fetch tol ks key w w = Some (Some (rows_of u))"
  by (rule widen_loop_full) (use assms in \<open>simp_all add: max_widen_factor_def\<close>)

text \<open>
  The order of \<open>_vec_sort_key\<close> is finite before NaN before \<open>None\<close>, and a \<open>Decimal\<close> sorts as
  zero: in a float column answered with decimals the positional pairing follows the input order.
\<close>

lemma vec_sort_key_order:
  "vec_sort_key [PFloat (Num x)] < vec_sort_key [PFloat NaN] \<and>
   vec_sort_key [PFloat NaN] < vec_sort_key [PNone]"
  by (simp add: vec_sort_key_def cell_sort_key_def)

lemma decimal_column_order_sensitive:
  "match_float_vecs default_tol [[PDec 1 0], [PDec 5 0]] [[PFloat (Num (Fin 5))], [PFloat (Num (Fin 1))]]"
  "\<not> match_float_vecs default_tol [[PDec 5 0], [PDec 1 0]] [[PFloat (Num (Fin 5))], [PFloat (Num (Fin 1))]]"
  by code_simp+

end
