(* ===== verification/Synno_Errors.thy ===== *)
theory Synno_Errors
  imports Py_Values
begin

text \<open>
  The error messages of \<open>errors.py\<close>: what each exception renders from its fields. An optional
  field is skipped when it is \<open>None\<close> or empty, as Python's truth test does.
\<close>

section \<open>Parts\<close>

definition newline :: string where
  "newline = [CHR 0x0A]"

definition bullets :: "string list \<Rightarrow> string" where
  "bullets rs = py_join newline (map (\<lambda>r. ''  - '' @ r) rs)"

definition truthy_str :: "string option \<Rightarrow> bool" where
  "truthy_str s = (case s of None \<Rightarrow> False | Some t \<Rightarrow> t \<noteq> [])"

text \<open>\<open>" / ".join(p for p in parts if p)\<close>.\<close>

definition join_present :: "string option list \<Rightarrow> string" where
  "join_present ps = py_join '' / '' (filter (\<lambda>t. t \<noteq> []) (map (\<lambda>p. case p of None \<Rightarrow> [] | Some t \<Rightarrow> t) ps))"

definition labelled :: "string \<Rightarrow> string option \<Rightarrow> string option" where
  "labelled lbl s = (if truthy_str s then Some (lbl @ the s) else None)"

text \<open>\<open>str.splitlines\<close> for the separators line feed, carriage return and their pair.\<close>

fun splitlines_go :: "string \<Rightarrow> string \<Rightarrow> string list" where
  "splitlines_go cur [] = (if cur = [] then [] else [rev cur])"
| "splitlines_go cur (c # cs) =
     (if c = CHR 0x0A then rev cur # splitlines_go [] cs
      else if c = CHR 0x0D then
        (case cs of
           [] \<Rightarrow> [rev cur]
         | d # ds \<Rightarrow> if d = CHR 0x0A then rev cur # splitlines_go [] ds else rev cur # splitlines_go [] cs)
      else splitlines_go (c # cur) cs)"

definition splitlines :: "string \<Rightarrow> string list" where
  "splitlines s = splitlines_go [] s"

definition indent :: "string \<Rightarrow> string" where
  "indent t = py_join newline (map (\<lambda>l. ''    '' @ l) (splitlines t))"

section \<open>Messages\<close>

definition unsupported_message :: "string list \<Rightarrow> string option \<Rightarrow> string option \<Rightarrow> string" where
  "unsupported_message reasons engine query =
     (let who = join_present [engine, labelled ''query '' query];
          head = (if who = [] then [] else who @ '': '')
      in head @ ''cannot route this query - '' @ str_nat (length reasons)
         @ '' column(s)/property outside the exact envelope:'' @ newline @ bullets reasons @ newline
         @ ''  Action: this query is served by DuckDB (correct, just not accelerated).'')"

definition last_2000 :: "string \<Rightarrow> string" where
  "last_2000 s = drop (length s - 2000) s"

definition execution_message ::
  "string \<Rightarrow> string option \<Rightarrow> string option \<Rightarrow> string option \<Rightarrow> string option \<Rightarrow> string option \<Rightarrow> string"
where
  "execution_message msg engine query req response_repr stderr =
     (let who = join_present [engine, labelled ''query '' query, labelled ''req '' req];
          head = (if who = [] then [] else who @ '': '');
          tail = (case response_repr of None \<Rightarrow> [] | Some r \<Rightarrow> newline @ ''  engine response: '' @ r)
            @ (if truthy_str stderr
               then newline @ ''  engine stderr (tail):'' @ newline @ indent (last_2000 (the stderr)) else [])
      in head @ msg @ tail)"

type_synonym cell_diff = "int \<times> string \<times> pyval \<times> pyval"

definition diff_line :: "(pyfloat \<Rightarrow> string) \<Rightarrow> (int \<Rightarrow> string) \<Rightarrow> cell_diff \<Rightarrow> string" where
  "diff_line frepr drepr d = (case d of (r, c, e, x) \<Rightarrow>
     ''  - row '' @ str_int r @ '', column '' @ [CHR 0x27] @ c @ [CHR 0x27] @ '': engine=''
       @ py_text frepr drepr e True @ '' duckdb='' @ py_text frepr drepr x True)"

definition diverged_message ::
  "(pyfloat \<Rightarrow> string) \<Rightarrow> (int \<Rightarrow> string) \<Rightarrow> cell_diff list \<Rightarrow> string option \<Rightarrow> string option \<Rightarrow> nat option \<Rightarrow> string"
where
  "diverged_message frepr drepr ds engine query total_opt =
     (let total = (case total_opt of None \<Rightarrow> length ds | Some n \<Rightarrow> n);
          who = join_present [engine, labelled ''query '' query];
          head = (if who = [] then [] else who @ '' '');
          more = (if length ds < total
            then newline @ ''  ... and '' @ str_nat (total - length ds) @ '' more differing cell(s)'' else [])
      in head @ ''DIVERGED from DuckDB on '' @ str_nat total @ '' cell(s):'' @ newline
         @ py_join newline (map (diff_line frepr drepr) ds) @ more @ newline
         @ ''  Engine quarantined; DuckDB serves this query.'')"

definition resource_message :: "string \<Rightarrow> (string \<times> string) list \<Rightarrow> string" where
  "resource_message msg ctx =
     msg @ (if ctx = [] then [] else newline @ bullets (map (\<lambda>(k, v). k @ '': '' @ v) ctx))"

section \<open>Lemmas\<close>

lemma join_present_none: "join_present [None, None] = []"
  by (simp add: join_present_def)

end
