(* ===== verification/Result_Diff.thy ===== *)
theory Result_Diff
  imports Result_Compare Synno_Errors
begin

text \<open>
  \<open>results_diff\<close> of \<open>router/adapt.py\<close>: where two tables differ, for the message of a divergence.
  An unordered difference buckets rows by exact cells and floats snapped to the tolerance grid:
  \<open>round(v / float_tol)\<close>, where the quotient is a double and so an infinity for a large enough
  finite \<open>v\<close>; \<open>round\<close> of an infinity raises \<open>OverflowError\<close>.
\<close>

section \<open>Rounding\<close>

text \<open>\<open>round(x)\<close> of a rational: to nearest, ties to even.\<close>

definition round_even :: "rat \<Rightarrow> int" where
  "round_even x =
     (let f = \<lfloor>x\<rfloor>; r = x - of_int f in
      if r < 1 / 2 then f else if 1 / 2 < r then f + 1 else if even f then f else f + 1)"

text \<open>
  The double nearest to a rational, ties to even, with gradual underflow; from half a unit above the
  largest double on it is an infinity.
\<close>

fun bit_length :: "nat \<Rightarrow> nat" where
  "bit_length n = (if n = 0 then 0 else Suc (bit_length (n div 2)))"

declare bit_length.simps [simp del]

definition floor_log2 :: "rat \<Rightarrow> int" where
  "floor_log2 x = (case quotient_of x of (p, q) \<Rightarrow>
     (let k = int (bit_length (nat p)) - int (bit_length (nat q)) in
      if 2 powi k \<le> x then k else k - 1))"

definition double_limit :: rat where
  "double_limit = 2 ^ 1024 - 2 ^ 970"

definition to_double :: "rat \<Rightarrow> xnum" where
  "to_double x =
     (if double_limit \<le> x then PosInf else if x \<le> - double_limit then NegInf
      else if x = 0 then Fin 0
      else (let e = max (- 1074) (floor_log2 \<bar>x\<bar> - 52) in Fin (of_int (round_even (x / 2 powi e)) * 2 powi e)))"

datatype bcell = SnapFloat "int option" | ExactCell pyval

definition bucket_cell :: "rat \<Rightarrow> pyval \<Rightarrow> py_error + bcell" where
  "bucket_cell tol v = (case v of
     PFloat NaN \<Rightarrow> Inr (SnapFloat None)
   | PFloat (Num (Fin x)) \<Rightarrow>
       if tol = 0 then Inl ZeroDivisionError
       else (case to_double (x / tol) of
           Fin q \<Rightarrow> Inr (SnapFloat (Some (round_even q)))
         | _ \<Rightarrow> Inl (OverflowError ''cannot convert float infinity to integer''))
   | PFloat (Num _) \<Rightarrow>
       if tol = 0 then Inl ZeroDivisionError
       else Inl (OverflowError ''cannot convert float infinity to integer'')
   | _ \<Rightarrow> Inr (ExactCell v))"

fun sum_map :: "('a \<Rightarrow> py_error + 'b) \<Rightarrow> 'a list \<Rightarrow> py_error + 'b list" where
  "sum_map f [] = Inr []"
| "sum_map f (x # xs) = (case f x of
     Inl e \<Rightarrow> Inl e
   | Inr y \<Rightarrow> (case sum_map f xs of Inl e \<Rightarrow> Inl e | Inr ys \<Rightarrow> Inr (y # ys)))"

definition row_bucket :: "rat \<Rightarrow> row \<Rightarrow> py_error + bcell list" where
  "row_bucket tol r = sum_map (bucket_cell tol) r"

text \<open>Hashing and equality of bucket tuples.\<close>

fun bcell_eq :: "bcell \<Rightarrow> bcell \<Rightarrow> bool" where
  "bcell_eq (SnapFloat a) (SnapFloat b) = (a = b)"
| "bcell_eq (ExactCell v) (ExactCell w) = py_eq v w"
| "bcell_eq _ _ = False"

definition bucket_eq :: "bcell list \<Rightarrow> bcell list \<Rightarrow> bool" where
  "bucket_eq a b = list_all2 bcell_eq a b"

fun bcell_hashable :: "bcell \<Rightarrow> bool" where
  "bcell_hashable (SnapFloat a) = True"
| "bcell_hashable (ExactCell v) = py_hashable v"

section \<open>Counters\<close>

type_synonym counter = "(bcell list \<times> nat) list"

fun counter_add :: "bcell list \<Rightarrow> counter \<Rightarrow> counter" where
  "counter_add k [] = [(k, 1)]"
| "counter_add k ((l, n) # c) = (if bucket_eq l k then (l, n + 1) # c else (l, n) # counter_add k c)"

fun counter_get :: "counter \<Rightarrow> bcell list \<Rightarrow> nat" where
  "counter_get [] k = 0"
| "counter_get ((l, n) # c) k = (if bucket_eq l k then n else counter_get c k)"

definition counter_of :: "bcell list list \<Rightarrow> counter" where
  "counter_of ks = fold counter_add ks []"

text \<open>\<open>cb - cr\<close> keeps the keys with a positive count, in the order of \<open>cb\<close>.\<close>

definition counter_sub :: "counter \<Rightarrow> counter \<Rightarrow> counter" where
  "counter_sub a b =
     filter (\<lambda>(k, n). 0 < n) (map (\<lambda>(k, n). (k, n - counter_get b k)) a)"

definition counter_total :: "counter \<Rightarrow> nat" where
  "counter_total c = sum_list (map snd c)"

text \<open>\<open>{bucket(r): r for r in rows}[key]\<close>: the last row of the bucket.\<close>

definition representative :: "(bcell list \<times> row) list \<Rightarrow> bcell list \<Rightarrow> row" where
  "representative krs k = snd (List.last (filter (\<lambda>(l, r). bucket_eq l k) krs))"

definition bucket_rows :: "rat \<Rightarrow> row list \<Rightarrow> py_error + (bcell list \<times> row) list" where
  "bucket_rows tol rs = (case sum_map (row_bucket tol) rs of
     Inl e \<Rightarrow> Inl e
   | Inr ks \<Rightarrow>
       if list_all (list_all bcell_hashable) ks then Inr (zip ks rs)
       else Inl (TypeError ''unhashable type''))"

definition multiset_diff :: "rat \<Rightarrow> nat \<Rightarrow> row list \<Rightarrow> row list \<Rightarrow> py_error + (cell_diff list \<times> nat)" where
  "multiset_diff tol limit rows_b rows_r =
     (case bucket_rows tol rows_b of
        Inl e \<Rightarrow> Inl e
      | Inr kb \<Rightarrow>
          (case bucket_rows tol rows_r of
             Inl e \<Rightarrow> Inl e
           | Inr kr \<Rightarrow>
               (let cb = counter_of (map fst kb); cr = counter_of (map fst kr);
                    only_b = counter_sub cb cr; only_r = counter_sub cr cb;
                    db = take limit (map (\<lambda>(k, n).
                      (- 1, ''<engine-only row>'', PTuple (representative kb k), PNone)) only_b);
                    dr = take (limit - length db) (map (\<lambda>(k, n).
                      (- 1, ''<duckdb-only row>'', PNone, PTuple (representative kr k))) only_r)
                in Inr (db @ dr, counter_total only_b + counter_total only_r))))"

section \<open>Positional differences\<close>

definition key_cell_diffs :: "rat \<Rightarrow> string list \<Rightarrow> nat list \<Rightarrow> row list \<Rightarrow> row list \<Rightarrow> cell_diff list" where
  "key_cell_diffs tol names ks rb rr =
     concat (map (\<lambda>(i, b, r).
       List.map_filter (\<lambda>c. if cell_equal tol (b ! c) (r ! c) then None
                            else Some (int i, names ! c, b ! c, r ! c)) ks)
       (zip [0..<length rb] (zip rb rr)))"

definition row_cell_diffs :: "rat \<Rightarrow> string list \<Rightarrow> row list \<Rightarrow> row list \<Rightarrow> cell_diff list" where
  "row_cell_diffs tol names rb rr =
     concat (map (\<lambda>(i, b, r).
       List.map_filter (\<lambda>(col, x, y). if cell_equal tol x y then None else Some (int i, col, x, y))
         (zip names (zip b r)))
       (zip [0..<length rb] (zip rb rr)))"

text \<open>Rows not in the ranking: each match consumes one candidate.\<close>

fun remove_match :: "rat \<Rightarrow> row \<Rightarrow> row list \<Rightarrow> row list option" where
  "remove_match tol r [] = None"
| "remove_match tol r (c # cs) =
     (if row_equal tol r c then Some cs else map_option ((#) c) (remove_match tol r cs))"

fun stray_rows :: "rat \<Rightarrow> row list \<Rightarrow> row list \<Rightarrow> row list" where
  "stray_rows tol [] remaining = []"
| "stray_rows tol (r # rs) remaining =
     (case remove_match tol r remaining of
        Some rest \<Rightarrow> stray_rows tol rs rest
      | None \<Rightarrow> r # stray_rows tol rs remaining)"

definition results_diff ::
  "rat \<Rightarrow> nat \<Rightarrow> bool \<Rightarrow> nat list option \<Rightarrow> nat option \<Rightarrow> row list option \<Rightarrow> arrow \<Rightarrow> arrow
     \<Rightarrow> py_error + (cell_diff list \<times> nat)"
where
  "results_diff tol limit ordered order_keys row_limit candidates bespoke reference =
     (let bn = column_names bespoke; rn = column_names reference in
      if bn \<noteq> rn then Inr ([(- 1, ''<columns>'', PList (map PStr bn), PList (map PStr rn))], 1)
      else if num_rows bespoke \<noteq> num_rows reference then
        Inr ([(- 1, ''<row count>'', PInt (int (num_rows bespoke)), PInt (int (num_rows reference)))], 1)
      else
        (let rb = rows_of bespoke; rr = rows_of reference in
         case (if ordered then order_keys else None) of
           Some (k # ks) \<Rightarrow>
             (let kd = key_cell_diffs tol bn (k # ks) rb rr in
              if kd \<noteq> [] then Inr (take limit kd, length kd)
              else
                (case (candidates, row_limit) of
                   (Some cs, Some n) \<Rightarrow>
                     if length rr = n then
                       (let strays = stray_rows tol rb cs in
                        Inr (map (\<lambda>r. (- 1, ''<row not in the ranking>'', PTuple r, PNone)) (take limit strays),
                             length strays))
                     else multiset_diff tol limit rb rr
                 | _ \<Rightarrow> multiset_diff tol limit rb rr))
         | _ \<Rightarrow>
             if ordered then
               (let ds = row_cell_diffs tol bn rb rr in Inr (take limit ds, length ds))
             else multiset_diff tol limit rb rr))"

section \<open>Lemmas\<close>

lemma counter_sub_positive: "(k, n) \<in> set (counter_sub a b) \<Longrightarrow> 0 < n"
  by (auto simp: counter_sub_def)

lemma counter_total_length: "(\<And>k n. (k, n) \<in> set c \<Longrightarrow> 0 < n) \<Longrightarrow> length c \<le> counter_total c"
proof (induction c)
  case (Cons e c)
  obtain k n where e: "e = (k, n)" by (cases e)
  then have "0 < n" using Cons.prems [of k n] by simp
  moreover have "length c \<le> counter_total c" using Cons.prems by (intro Cons.IH) auto
  ultimately show ?case using e by (simp add: counter_total_def)
qed (simp add: counter_total_def)

lemma multiset_diff_bounds:
  assumes "multiset_diff tol limit rb rr = Inr (ds, n)"
  shows "length ds \<le> limit \<and> length ds \<le> n"
proof -
  obtain a b :: counter and f g where
    ds: "ds = take limit (map f (counter_sub a b)) @
      take (limit - length (take limit (map f (counter_sub a b)))) (map g (counter_sub b a))" and
    n: "n = counter_total (counter_sub a b) + counter_total (counter_sub b a)"
    using assms by (auto simp: multiset_diff_def Let_def split: sum.splits)
  have "length (counter_sub x y) \<le> counter_total (counter_sub x y)" for x y
    using counter_sub_positive by (rule counter_total_length)
  from this [of a b] this [of b a] show ?thesis unfolding ds n by auto
qed

text \<open>
  A difference report is bounded: it shows at most \<open>limit\<close> entries (one, for a structural
  difference) and never more than the total it announces.
\<close>

theorem results_diff_bounded:
  assumes "results_diff tol limit ordered order_keys row_limit candidates t u = Inr (ds, n)"
  shows "length ds \<le> max 1 limit \<and> length ds \<le> n"
proof -
  have m: "multiset_diff tol limit rb rr = Inr (ds, n) \<Longrightarrow> length ds \<le> max 1 limit \<and> length ds \<le> n" for rb rr
    using multiset_diff_bounds by fastforce
  show ?thesis
    using assms m
    by (auto simp: results_diff_def Let_def split: if_splits option.splits list.splits)
qed

theorem results_diff_bounded_witness:
  "results_diff default_tol 1 True None None None
     [(''x'', [PInt 1, PInt 2])] [(''x'', [PInt 3, PInt 4])] =
     Inr ([(0, ''x'', PInt 1, PInt 3)], 2) \<and> (1::nat) \<le> 2"
proof -
  have r: "results_diff default_tol 1 True None None None
     [(''x'', [PInt 1, PInt 2])] [(''x'', [PInt 3, PInt 4])] = Inr ([(0, ''x'', PInt 1, PInt 3)], 2)"
    by code_simp
  from results_diff_bounded [OF r] r show ?thesis by simp
qed

lemma map_filter_Nil_iff: "List.map_filter f xs = [] \<longleftrightarrow> (\<forall>x \<in> set xs. f x = None)"
  by (induction xs) (auto simp: map_filter_simps split: option.splits)

lemma no_cell_diffs:
  "List.map_filter (\<lambda>(col, x, y). if cell_equal tol x y then None else Some (i, col, x, y)) (zip names (zip b r)) = []
   \<longleftrightarrow> list_all (\<lambda>(col, x, y). cell_equal tol x y) (zip names (zip b r))"
  unfolding map_filter_Nil_iff list_all_iff by (intro ball_cong) (auto split: prod.splits)

lemma row_cell_diffs_empty:
  assumes "\<And>r. r \<in> set rb \<union> set rr \<Longrightarrow> length r = length names" "length rb = length rr"
  shows "row_cell_diffs tol names rb rr = [] \<longleftrightarrow> list_all (\<lambda>(a, b). row_equal tol a b) (zip rb rr)"
proof -
  have one: "list_all (\<lambda>(col, x, y). cell_equal tol x y) (zip names (zip b r)) \<longleftrightarrow> row_equal tol b r"
    if "length b = length names" "length r = length names" for b r
    using that by (auto simp: row_equal_def list_all_length)
  have "row_cell_diffs tol names rb rr = [] \<longleftrightarrow>
      (\<forall>i < length rb. list_all (\<lambda>(col, x, y). cell_equal tol x y) (zip names (zip (rb ! i) (rr ! i))))"
    using assms(2) unfolding row_cell_diffs_def concat_eq_Nil_conv set_map ball_simps(9) all_set_conv_all_nth
    by (simp add: no_cell_diffs)
  also have "\<dots> \<longleftrightarrow> (\<forall>i < length rb. row_equal tol (rb ! i) (rr ! i))"
    using one assms by (metis UnCI nth_mem)
  finally show ?thesis using assms(2) by (simp add: list_all_length)
qed

text \<open>
  Report and verdict agree on a strictly ordered comparison of tables with the same column
  names and sizes: the report announces no difference exactly when the verdict is equality.
\<close>

theorem ordered_diff_agrees:
  assumes "table_ok t" "table_ok u" "column_names t = column_names u" "num_rows t = num_rows u"
  shows "(\<exists>ds. results_diff tol limit True None row_limit candidates t u = Inr (ds, 0)) \<longleftrightarrow>
    results_equal tol True None row_limit candidates t u = Inr True"
proof -
  have w: "num_columns t = num_columns u" "length (column_names t) = num_columns t"
    using arg_cong [OF assms(3), of length] by (simp_all add: column_names_def num_columns_def)
  have len: "length (rows_of t) = length (rows_of u)"
    using rows_of_length [OF assms(1)] rows_of_length [OF assms(2)] assms(4) by simp
  have "row_cell_diffs tol (column_names t) (rows_of t) (rows_of u) = [] \<longleftrightarrow>
     list_all (\<lambda>(a, b). row_equal tol a b) (zip (rows_of t) (rows_of u))"
    by (rule row_cell_diffs_empty [OF _ len]) (use rows_of_width w in auto)
  then show ?thesis using assms(3,4) w
    by (auto simp: results_diff_def results_equal_def Let_def)
qed

theorem ordered_diff_agrees_witness:
  "results_equal default_tol True None None None [(''x'', [PInt 1])] [(''x'', [PInt 1])] = Inr True \<and>
   (\<exists>ds. results_diff default_tol 8 True None None None [(''x'', [PInt 1])] [(''x'', [PInt 1])] = Inr (ds, 0))"
proof -
  have e: "results_equal default_tol True None None None [(''x'', [PInt 1])] [(''x'', [PInt 1])] = Inr True"
    by code_simp
  have "(\<exists>ds. results_diff default_tol 8 True None None None [(''x'', [PInt 1])] [(''x'', [PInt 1])] = Inr (ds, 0)) \<longleftrightarrow>
    results_equal default_tol True None None None [(''x'', [PInt 1])] [(''x'', [PInt 1])] = Inr True"
    by (rule ordered_diff_agrees) (simp_all add: table_ok_def num_rows_def column_names_def)
  with e show ?thesis by blast
qed

text \<open>
  The report of an unordered mismatch raises when a row of either side holds an infinite float, or a
  finite one whose quotient by the tolerance is none.
\<close>

lemma infinite_float_raises:
  "results_equal default_tol False None None None
     [(''x'', [PFloat (Num PosInf)])] [(''x'', [PFloat (Num (Fin 1))])] = Inr False"
  "results_diff default_tol 8 False None None None
     [(''x'', [PFloat (Num PosInf)])] [(''x'', [PFloat (Num (Fin 1))])] =
     Inl (OverflowError ''cannot convert float infinity to integer'')"
  by code_simp+

lemma huge_float_raises:
  "results_diff default_tol 8 False None None None
     [(''x'', [PFloat (Num (Fin (2 * 10 ^ 302)))])] [(''x'', [PFloat (Num (Fin 1))])] =
     Inl (OverflowError ''cannot convert float infinity to integer'')"
proof -
  have r: "rows_of [(''x'', [v])] = [[v]]" for v :: pyval by code_simp
  have b: "bucket_cell default_tol (PFloat (Num (Fin (2 * 10 ^ 302)))) =
      Inl (OverflowError ''cannot convert float infinity to integer'')"
    by (simp add: bucket_cell_def to_double_def double_limit_def default_tol_def)
  show ?thesis
    by (simp add: results_diff_def multiset_diff_def bucket_rows_def row_bucket_def r b column_names_def
        num_rows_def del: power_numeral)
qed

text \<open>Rounding of the quotient on sample values.\<close>

lemma bit_length_numeral:
  "bit_length 0 = 0" "bit_length 1 = 1" "bit_length (numeral Num.One) = 1"
  "bit_length (numeral (Num.Bit0 n)) = Suc (bit_length (numeral n))"
  "bit_length (numeral (Num.Bit1 n)) = Suc (bit_length (numeral n))"
  by (subst bit_length.simps, simp add: bit_length.simps [of 0])+

lemma to_double_samples:
  "to_double 1000000 = Fin 1000000" "to_double (1 / 10) = Fin (3602879701896397 / 36028797018963968)"
proof -
  have q: "quotient_of (1 / 10) = (1, 10)" "quotient_of 1000000 = (1000000, 1)" by code_simp+
  have f: "\<lfloor>36028797018963968 / 5 :: rat\<rfloor> = 7205759403792793" by (simp add: floor_eq_iff)
  show "to_double 1000000 = Fin 1000000" "to_double (1 / 10) = Fin (3602879701896397 / 36028797018963968)"
    by (simp_all add: to_double_def double_limit_def floor_log2_def round_even_def Let_def q bit_length_numeral f)
qed

end
