(* ===== verification/Query_Router.thy ===== *)
theory Query_Router
  imports Routing_Guards Router_Policy Result_Diff
begin

text \<open>
  The per-statement pipeline of \<open>router/router.py\<close>: policy gate, empty-registry short circuit,
  normalisation, match, guards, placeholder binding, the engine call and the fail-closed
  cross-check against DuckDB. The state is the record \<open>router\<close> (the fields of \<open>QueryRouter\<close>) and
  the outside world; a raised exception is \<open>Inl\<close>. The log is the list of the records written.
\<close>

section \<open>State\<close>

record counters =
  c_routed :: nat
  c_fell_back :: nat
  c_cross_checked :: nat
  c_mismatch :: nat
  c_check_error :: nat
  c_blocked_writes :: nat

definition zero_counters :: counters where
  "zero_counters = \<lparr>c_routed = 0, c_fell_back = 0, c_cross_checked = 0, c_mismatch = 0,
     c_check_error = 0, c_blocked_writes = 0\<rparr>"

datatype log_record =
    TraceLog log_level route_trace
  | EngineFault log_level string py_error
  | BreakerTripped string nat
  | ReferenceFailed string py_error
  | ComparisonFailed string py_error
  | Diverged "cell_diff list" nat

record router =
  policy :: router_policy
  registry :: registry
  failures :: "string \<rightharpoonup> nat"
  exec_counts :: "string \<rightharpoonup> nat"
  counts :: counters
  fallback_reasons :: "string \<rightharpoonup> nat"
  template_timing :: "string \<rightharpoonup> pyfloat \<times> pyfloat"
  log :: "log_record list"

definition new_router :: "router_policy option \<Rightarrow> registry option \<Rightarrow> router" where
  "new_router p r =
     \<lparr>policy = (case p of None \<Rightarrow> default_policy | Some p \<Rightarrow> p),
      registry = (case r of None \<Rightarrow> empty_registry | Some r \<Rightarrow> r),
      failures = Map.empty, exec_counts = Map.empty, counts = zero_counters,
      fallback_reasons = Map.empty, template_timing = Map.empty, log = []\<rparr>"

text \<open>The attached result: the table and the canonical types \<open>to_synno_result\<close> passes on.\<close>

record served_result =
  sr_table :: arrow
  sr_types :: "string list option"

definition to_synno_result :: "arrow \<Rightarrow> column_spec list \<Rightarrow> served_result" where
  "to_synno_result t schema =
     \<lparr>sr_table = t, sr_types = (if schema = [] then None else Some (map col_type schema))\<rparr>"

record route_decision =
  d_routed :: bool
  d_result :: "served_result option"
  d_trace :: route_trace

definition get_count :: "(string \<rightharpoonup> nat) \<Rightarrow> string \<Rightarrow> nat" where
  "get_count m k = (case m k of None \<Rightarrow> 0 | Some n \<Rightarrow> n)"

section \<open>Bookkeeping\<close>

definition last_duckdb_ms :: "router \<Rightarrow> string \<Rightarrow> pyfloat option" where
  "last_duckdb_ms r t = map_option snd (template_timing r t)"

definition add_log :: "log_record \<Rightarrow> router \<Rightarrow> router" where
  "add_log x r = r\<lparr>log := log r @ [x]\<rparr>"

definition emit :: "route_trace \<Rightarrow> router \<Rightarrow> router" where
  "emit t r = add_log (TraceLog (emit_level (verbose (policy r)) t) t) r"

definition tally_check :: "route_trace \<Rightarrow> counters \<Rightarrow> counters" where
  "tally_check t c =
     (let c1 = c\<lparr>c_cross_checked := c_cross_checked c + 1\<rparr> in
      if t_results_match t = Some False then c1\<lparr>c_mismatch := c_mismatch c1 + 1\<rparr> else c1)"

definition tally :: "route_trace \<Rightarrow> router \<Rightarrow> router" where
  "tally t r = (case t_decision t of
     Bespoke \<Rightarrow>
       (if t_served_by t = Some ServedDuckDB then r\<lparr>counts := tally_check t (counts r)\<rparr>
        else
          (let c = (counts r)\<lparr>c_routed := c_routed (counts r) + 1\<rparr> in
           r\<lparr>counts := (if t_cross_checked t then tally_check t c else c)\<rparr>))
   | Fallback \<Rightarrow>
       r\<lparr>counts := (counts r)\<lparr>c_fell_back := c_fell_back (counts r) + 1\<rparr>,
         fallback_reasons := (fallback_reasons r)
           (t_reason t \<mapsto> get_count (fallback_reasons r) (t_reason t) + 1)\<rparr>
   | _ \<Rightarrow> r)"

definition finish :: "route_trace \<Rightarrow> router \<Rightarrow> router" where
  "finish t r = emit t (tally t r)"

definition note_blocked_write :: "router \<Rightarrow> router" where
  "note_blocked_write r =
     r\<lparr>counts := (counts r)\<lparr>c_blocked_writes := c_blocked_writes (counts r) + 1\<rparr>\<rparr>"

definition count_check_error :: "router \<Rightarrow> router" where
  "count_check_error r = r\<lparr>counts := (counts r)\<lparr>c_check_error := c_check_error (counts r) + 1\<rparr>\<rparr>"

definition router_stats :: "router \<Rightarrow> counters \<times> (string \<rightharpoonup> nat)" where
  "router_stats r = (counts r, fallback_reasons r)"

type_synonym 'w outcome_state = "(py_error + route_decision) \<times> router \<times> 'w"

definition no_result :: "route_trace \<Rightarrow> route_decision" where
  "no_result t = \<lparr>d_routed = False, d_result = None, d_trace = t\<rparr>"

definition fallback :: "route_trace \<Rightarrow> string \<Rightarrow> bool \<Rightarrow> router \<Rightarrow> 'w \<Rightarrow> 'w outcome_state" where
  "fallback t reason must r w =
     (let t' = fell_back reason t in
      if must \<and> mode (policy r) = BESPOKE_ONLY
      then (Inl (RuntimeError (''bespoke_only: routing failed ('' @ reason @ '')'')), emit t' r, w)
      else (Inr (no_result t'), finish t' r, w))"

text \<open>\<open>_should_cross_check\<close>; a draw of \<open>random()\<close> only in the last case.\<close>

definition should_cross_check :: "'w outside \<Rightarrow> router \<Rightarrow> string \<Rightarrow> 'w \<Rightarrow> bool \<times> 'w" where
  "should_cross_check E r template w =
     (let pol = policy r; rate = cross_check_rate pol in
      if mode pol = BESPOKE_ONLY then (False, w)
      else if float_le rate (Num (Fin 0)) then (False, w)
      else if int (get_count (exec_counts r) template) \<le> verify_first_n pol then (True, w)
      else if float_le (Num (Fin 1)) rate then (True, w)
      else (case dice E w of (x, w') \<Rightarrow> (float_lt (Num (Fin x)) rate, w')))"

definition record_failure :: "engine_binding \<Rightarrow> router \<Rightarrow> router" where
  "record_failure b r =
     (let count = get_count (failures r) (template_id b) + 1;
          r1 = r\<lparr>failures := (failures r)(template_id b \<mapsto> count)\<rparr>
      in if breaker_threshold (policy r) \<le> int count \<and> \<not> reg_is_quarantined (registry r) (template_id b)
         then (add_log (BreakerTripped (template_id b) count) r1)
                \<lparr>registry := reg_quarantine (template_id b) (registry r)\<rparr>
         else r1)"

definition record_success :: "engine_binding \<Rightarrow> router \<Rightarrow> router" where
  "record_success b r = r\<lparr>failures := (failures r)(template_id b := None)\<rparr>"

definition count_execution :: "engine_binding \<Rightarrow> router \<Rightarrow> router" where
  "count_execution b r =
     r\<lparr>exec_counts := (exec_counts r)(template_id b \<mapsto> get_count (exec_counts r) (template_id b) + 1)\<rparr>"

section \<open>Placeholder binding\<close>

text \<open>The dictionary comprehension of the positional path; a repeated name keeps the last value.\<close>

definition zip_names :: "string list \<Rightarrow> pyval list \<Rightarrow> bindings" where
  "zip_names names vs =
     fold (\<lambda>(i, n) d. AList.update n (if i < length vs then vs ! i else PNone) d) (enumerate 0 names) []"

definition positional_bind :: "'w outside \<Rightarrow> engine_binding \<Rightarrow> string \<Rightarrow> bindings option" where
  "positional_bind E b sql =
     (if list_ex (\<lambda>s. ph_prefix s \<noteq> [] \<or> ph_suffix s \<noteq> [] \<or> 0 \<le> ph_group s) (placeholders b) then None
      else
        (let vals = zip_names (map ph_name (placeholders b)) (extract_literals (lang E) sql) in
         case constant_in_arities (lang E) sql of
           None \<Rightarrow> Some vals
         | Some [] \<Rightarrow> Some vals
         | Some ar \<Rightarrow>
             (case template_sql b of
                None \<Rightarrow> None
              | Some t \<Rightarrow> if constant_in_arities (lang E) t \<noteq> Some ar then None else Some vals)))"

text \<open>
  A mapping is refused by the arity guard before binding, so its case is never reached here.
\<close>

definition bind_placeholders :: "'w outside \<Rightarrow> engine_binding \<Rightarrow> string \<Rightarrow> params \<Rightarrow> bindings option" where
  "bind_placeholders E b sql ps =
     (let groups = binding_groups (placeholders b);
          explicit = (\<lambda>vs. if length vs \<noteq> length groups then None else merge_split (pyfmt E) groups vs)
      in case ps of
           SeqParams vs \<Rightarrow> explicit vs
         | OneParam v \<Rightarrow> explicit [v]
         | MapParams m \<Rightarrow> None
         | NoParams \<Rightarrow>
             (case template_sql b of
                Some t \<Rightarrow>
                  if has_param_markers (lang E) t then bind_template (lang E) (pyfmt E) t sql (placeholders b)
                  else positional_bind E b sql
              | None \<Rightarrow> positional_bind E b sql))"

section \<open>Serving\<close>

definition serve_reference :: "route_trace \<Rightarrow> arrow \<Rightarrow> engine_binding \<Rightarrow> router \<Rightarrow> 'w \<Rightarrow> 'w outcome_state" where
  "serve_reference t reference b r w =
     (let t' = t\<lparr>t_served_by := Some ServedDuckDB\<rparr> in
      (Inr \<lparr>d_routed = True, d_result = Some (to_synno_result reference (output_schema b)), d_trace = t'\<rparr>,
       finish t' r, w))"

definition serve_engine :: "route_trace \<Rightarrow> arrow \<Rightarrow> engine_binding \<Rightarrow> router \<Rightarrow> 'w \<Rightarrow> 'w outcome_state" where
  "serve_engine t table b r w =
     (let t' = t\<lparr>t_served_by := Some ServedEngine\<rparr> in
      (Inr \<lparr>d_routed = True, d_result = Some (to_synno_result table (output_schema b)), d_trace = t'\<rparr>,
       finish t' (record_success b r), w))"

definition verdict_keys :: "'w outside \<Rightarrow> string \<Rightarrow> arrow \<Rightarrow> nat list option" where
  "verdict_keys E sql reference =
     (if has_order_by (lang E) sql then order_by_key_indices (lang E) sql (column_names reference) else None)"

definition verdict :: "'w outside \<Rightarrow> string \<Rightarrow> arrow \<Rightarrow> arrow \<Rightarrow> py_error + bool" where
  "verdict E sql table reference =
     results_equal default_tol (has_order_by (lang E) sql) (verdict_keys E sql reference) None None table reference"

definition verdict_diff :: "'w outside \<Rightarrow> string \<Rightarrow> arrow \<Rightarrow> arrow \<Rightarrow> py_error + (cell_diff list \<times> nat)" where
  "verdict_diff E sql table reference =
     results_diff default_tol 8 (has_order_by (lang E) sql) (verdict_keys E sql reference) None None table reference"

text \<open>The reference is in hand: compare, and serve the engine only on a positive verdict.\<close>

definition compare_and_serve ::
  "'w outside \<Rightarrow> string \<Rightarrow> engine_binding \<Rightarrow> arrow \<Rightarrow> arrow \<Rightarrow> route_trace \<Rightarrow> router \<Rightarrow> 'w \<Rightarrow> 'w outcome_state"
where
  "compare_and_serve E sql b table reference t r w =
     (case verdict E sql table reference of
        Inl exc \<Rightarrow>
          (let r1 = add_log (ComparisonFailed (template_id b) exc) (count_check_error r);
               t1 = add_guard (''cross_check'', False, ''cross-check comparison error: '' @ exc_repr E exc) t
           in serve_reference t1 reference b (record_failure b r1) w)
      | Inr ok \<Rightarrow>
          (let t1 = t\<lparr>t_results_match := Some ok\<rparr> in
           if ok then serve_engine t1 table b r w
           else
             (case verdict_diff E sql table reference of
                Inl exc \<Rightarrow> (Inl exc, r, w)
              | Inr (ds, nd) \<Rightarrow>
                  (let msg = diverged_message (frepr (pyfmt E)) (drepr (pyfmt E)) ds
                         (Some (engine_id b)) (Some (query_id b)) (Some nd);
                       r1 = add_log (Diverged ds nd) r
                   in serve_reference (add_guard (''cross_check'', False, msg) t1) reference b
                        (r1\<lparr>registry := reg_quarantine (template_id b) (registry r1)\<rparr>) w))))"

definition cross_check ::
  "'w outside \<Rightarrow> string \<Rightarrow> params \<Rightarrow> engine_binding \<Rightarrow> arrow \<Rightarrow> route_trace \<Rightarrow> router \<Rightarrow> 'w \<Rightarrow> 'w outcome_state"
where
  "cross_check E sql ps b table t r w =
     (case duck E sql ps w of
        (Inl exc, w1) \<Rightarrow>
          fallback t (''cross-check reference error: '' @ exc_repr E exc) True
            (add_log (ReferenceFailed (template_id b) exc) (count_check_error r)) w1
      | (Inr (reference, duck_ms), w1) \<Rightarrow>
          (let t1 = t\<lparr>t_duckdb_ms := Some duck_ms, t_cross_checked := True\<rparr>;
               r1 = (if truthy_ms (t_bespoke_ms t1) \<and> truthy_ms (t_duckdb_ms t1)
                     then r\<lparr>template_timing := (template_timing r)
                            (template_id b \<mapsto> (the (t_bespoke_ms t1), duck_ms))\<rparr>
                     else r)
           in compare_and_serve E sql b table reference t1 r1 w1))"

text \<open>\<open>binding.engine.run(...)\<close>; without an engine the attribute access raises in the same \<open>try\<close>.\<close>

definition engine_call ::
  "'w outside \<Rightarrow> engine_binding \<Rightarrow> bindings \<Rightarrow> 'w \<Rightarrow> (py_error + arrow \<times> pyfloat option) \<times> 'w" where
  "engine_call E b bound w = (case engine b of
     None \<Rightarrow> (Inl (RuntimeError ''no engine''), w)
   | Some e \<Rightarrow> run E e (query_id b) bound w)"

definition execute_engine ::
  "'w outside \<Rightarrow> string \<Rightarrow> params \<Rightarrow> bool \<Rightarrow> engine_binding \<Rightarrow> bindings \<Rightarrow> route_trace \<Rightarrow> router \<Rightarrow> 'w
     \<Rightarrow> 'w outcome_state"
where
  "execute_engine E sql ps conn b bound t r w0 =
     (case clock E w0 of (start, w1) \<Rightarrow>
      (case engine_call E b bound w1 of
         (Inl exc, w2) \<Rightarrow>
           (let lvl = (if failures r (template_id b) = None then LWarning else LDebug);
                r1 = add_log (EngineFault lvl (template_id b) exc) r
            in fallback t (''engine error: '' @ exc_repr E exc) True (record_failure b r1) w2)
       | (Inr (table, server_ms), w2) \<Rightarrow>
           (case (case server_ms of
                    Some ms \<Rightarrow> (ms, w2)
                  | None \<Rightarrow> (case clock E w2 of (stop, w3) \<Rightarrow> (Num (Fin (stop - start)), w3))) of
              (ms, w3) \<Rightarrow>
                (let t1 = routed_to (template_id b) (t\<lparr>t_bespoke_ms := Some ms\<rparr>);
                     r1 = count_execution b r
                 in case should_cross_check E r1 (template_id b) w3 of
                      (check, w4) \<Rightarrow>
                        if check \<and> conn then cross_check E sql ps b table t1 r1 w4
                        else serve_engine t1 table b r1 w4))))"

section \<open>The pipeline\<close>

definition inactive_reason :: "router_policy \<Rightarrow> string" where
  "inactive_reason p = (if \<not> enabled p then ''router disabled'' else ''mode='' @ mode_value (mode p))"

text \<open>\<open>results[-1][2] if results else "guard failed"\<close>.\<close>

definition guard_reason :: "guard_result list \<Rightarrow> string" where
  "guard_reason rs = (if rs = [] then ''guard failed'' else snd (snd (List.last rs)))"

definition route_matched ::
  "'w outside \<Rightarrow> string \<Rightarrow> params \<Rightarrow> bool \<Rightarrow> engine_binding \<Rightarrow> route_trace \<Rightarrow> router \<Rightarrow> 'w \<Rightarrow> 'w outcome_state"
where
  "route_matched E sql ps conn b t r w =
     (case evaluate E \<lparr>g_sql = sql, g_binding = b, g_conn = conn, g_registry = registry r, g_params = ps\<rparr> w of
        ((ok, results), w1) \<Rightarrow>
          (let t1 = fold add_guard results t in
           if \<not> ok then fallback t1 (guard_reason results) True r w1
           else
             (case bind_placeholders E b sql ps of
                None \<Rightarrow>
                  fallback t1 ''placeholder binding failed (constant/structure mismatch)'' True r w1
              | Some bound \<Rightarrow> execute_engine E sql ps conn b bound t1 r w1)))"

definition route :: "'w outside \<Rightarrow> router \<Rightarrow> string \<Rightarrow> params \<Rightarrow> bool \<Rightarrow> 'w \<Rightarrow> 'w outcome_state" where
  "route E r sql ps conn w =
     (let t = new_trace sql; pol = policy r in
      if \<not> routing_active pol then
        (let t1 = fell_back (inactive_reason pol) t in (Inr (no_result t1), finish t1 r, w))
      else if reg_len (registry r) = 0 then
        (let t1 = fell_back ''no engines registered'' t in (Inr (no_result t1), finish t1 r, w))
      else
        (case normalize_sql (lang E) sql of
           None \<Rightarrow> fallback t ''unparseable SQL'' False r w
         | Some key \<Rightarrow>
             (case reg_match (registry r) key of
                None \<Rightarrow> fallback t ''no template match'' False r w
              | Some b \<Rightarrow> route_matched E sql ps conn b t r w)))"

section \<open>Inspection\<close>

datatype why_decision = WouldRoute | WouldFallBack | BlockedWrite

record why_answer =
  y_decision :: why_decision
  y_reason :: string
  y_template :: "string option"
  y_guards :: "guard_result list"
  y_placeholders :: "bindings option"
  y_normalized :: "string option"

definition quarantine_reason :: string where
  "quarantine_reason = ''engine quarantined after repeated failures or a cross-check mismatch; ''
     @ ''DuckDB is serving this query until it is re-registered''"

definition why_route :: "'w outside \<Rightarrow> router \<Rightarrow> string \<Rightarrow> params \<Rightarrow> bool \<Rightarrow> 'w \<Rightarrow> why_answer \<times> 'w" where
  "why_route E r sql ps conn w =
     (let pol = policy r;
          out = \<lparr>y_decision = WouldFallBack, y_reason = '''', y_template = None, y_guards = [],
                 y_placeholders = None, y_normalized = None\<rparr>
      in if \<not> routing_active pol then (out\<lparr>y_reason := inactive_reason pol\<rparr>, w)
         else if block_writes pol \<and> \<not> is_read_only_query (lang E) sql then
           (out\<lparr>y_decision := BlockedWrite, y_reason := ''writes are not supported''\<rparr>, w)
         else if reg_len (registry r) = 0 then (out\<lparr>y_reason := ''no engines registered''\<rparr>, w)
         else
           (case normalize_sql (lang E) sql of
              None \<Rightarrow> (out\<lparr>y_reason := ''unparseable SQL''\<rparr>, w)
            | Some key \<Rightarrow>
                (let out1 = out\<lparr>y_normalized := Some key\<rparr> in
                 case reg_match (registry r) key of
                   None \<Rightarrow>
                     (case reg_quarantined_binding (registry r) key of
                        Some q \<Rightarrow> (out1\<lparr>y_template := Some (template_id q), y_reason := quarantine_reason\<rparr>, w)
                      | None \<Rightarrow> (out1\<lparr>y_reason := ''no template match''\<rparr>, w))
                 | Some b \<Rightarrow>
                     (case evaluate E \<lparr>g_sql = sql, g_binding = b, g_conn = conn, g_registry = registry r,
                              g_params = ps\<rparr> w of
                        ((ok, results), w1) \<Rightarrow>
                          (let out2 = out1\<lparr>y_template := Some (template_id b), y_guards := results\<rparr> in
                           if \<not> ok then (out2\<lparr>y_reason := guard_reason results\<rparr>, w1)
                           else
                             (case bind_placeholders E b sql ps of
                                None \<Rightarrow>
                                  (out2\<lparr>y_reason := ''placeholder binding failed (constant/structure mismatch)''\<rparr>, w1)
                              | Some bound \<Rightarrow>
                                  (out2\<lparr>y_decision := WouldRoute, y_reason := ''matches template'',
                                        y_placeholders := Some bound\<rparr>, w1)))))))"

section \<open>What the bookkeeping leaves alone\<close>

named_theorems router_frame \<open>fields the bookkeeping does not touch\<close>

lemma frame_log [router_frame]:
  "registry (add_log x r) = registry r" "policy (add_log x r) = policy r"
  "failures (add_log x r) = failures r" "exec_counts (add_log x r) = exec_counts r"
  "counts (add_log x r) = counts r" "fallback_reasons (add_log x r) = fallback_reasons r"
  "template_timing (add_log x r) = template_timing r" "log (add_log x r) = log r @ [x]"
  by (simp_all add: add_log_def)

lemma frame_emit [router_frame]:
  "registry (emit t r) = registry r" "policy (emit t r) = policy r"
  "failures (emit t r) = failures r" "exec_counts (emit t r) = exec_counts r"
  "counts (emit t r) = counts r" "fallback_reasons (emit t r) = fallback_reasons r"
  by (simp_all add: emit_def router_frame)

lemma frame_tally [router_frame]:
  "registry (tally t r) = registry r" "policy (tally t r) = policy r"
  "failures (tally t r) = failures r" "exec_counts (tally t r) = exec_counts r"
  by (simp_all add: tally_def Let_def split: decision_kind.splits)

lemma frame_finish [router_frame]:
  "registry (finish t r) = registry r" "policy (finish t r) = policy r"
  "failures (finish t r) = failures r" "exec_counts (finish t r) = exec_counts r"
  "counts (finish t r) = counts (tally t r)" "fallback_reasons (finish t r) = fallback_reasons (tally t r)"
  by (simp_all add: finish_def router_frame)

lemma frame_check_error [router_frame]:
  "registry (count_check_error r) = registry r" "policy (count_check_error r) = policy r"
  "failures (count_check_error r) = failures r" "exec_counts (count_check_error r) = exec_counts r"
  "fallback_reasons (count_check_error r) = fallback_reasons r"
  by (simp_all add: count_check_error_def)

lemma frame_success [router_frame]:
  "registry (record_success b r) = registry r" "policy (record_success b r) = policy r"
  "exec_counts (record_success b r) = exec_counts r" "counts (record_success b r) = counts r"
  "fallback_reasons (record_success b r) = fallback_reasons r"
  by (simp_all add: record_success_def)

lemma frame_execution [router_frame]:
  "registry (count_execution b r) = registry r" "policy (count_execution b r) = policy r"
  "failures (count_execution b r) = failures r" "counts (count_execution b r) = counts r"
  "fallback_reasons (count_execution b r) = fallback_reasons r"
  by (simp_all add: count_execution_def)

lemma frame_failure [router_frame]:
  "policy (record_failure b r) = policy r" "exec_counts (record_failure b r) = exec_counts r"
  "counts (record_failure b r) = counts r" "fallback_reasons (record_failure b r) = fallback_reasons r"
  "by_norm (registry (record_failure b r)) = by_norm (registry r)"
  by (simp_all add: record_failure_def Let_def router_frame reg_quarantine_def)

lemma record_failure_quarantined:
  "quarantined (registry r) \<subseteq> quarantined (registry (record_failure b r))"
  by (auto simp: record_failure_def Let_def router_frame reg_quarantine_def)

section \<open>Every attached result is trusted\<close>

text \<open>
  The specification of a decision, tied to the calls of this very statement. \<open>engine_answered\<close>:
  the statement passed every stage up to the engine, whose call returned \<open>table\<close>; \<open>w3\<close> is the
  outside world when the router decides whether to cross-check.
\<close>

definition engine_answered ::
  "'w outside \<Rightarrow> router \<Rightarrow> string \<Rightarrow> params \<Rightarrow> bool \<Rightarrow> 'w \<Rightarrow> engine_binding \<Rightarrow> bindings \<Rightarrow> arrow \<Rightarrow> 'w \<Rightarrow> bool"
where
  "engine_answered E r sql ps conn w b bound table w3 \<longleftrightarrow>
     (\<exists>key results w1 server_ms w2.
        routing_active (policy r) \<and> normalize_sql (lang E) sql = Some key \<and> reg_match (registry r) key = Some b \<and>
        evaluate E \<lparr>g_sql = sql, g_binding = b, g_conn = conn, g_registry = registry r, g_params = ps\<rparr> w
          = ((True, results), w1) \<and>
        bind_placeholders E b sql ps = Some bound \<and>
        engine_call E b bound (snd (clock E w1)) = (Inr (table, server_ms), w2) \<and>
        w3 = (if server_ms = None then snd (clock E w2) else w2))"

text \<open>The decision serves \<open>table\<close>, typed by the binding's schema, and says who answered.\<close>

definition serves :: "route_decision \<Rightarrow> engine_binding \<Rightarrow> arrow \<Rightarrow> server \<Rightarrow> bool" where
  "serves d b table who \<longleftrightarrow> d_routed d \<and> d_result d = Some (to_synno_result table (output_schema b)) \<and>
     t_served_by (d_trace d) = Some who \<and> t_template (d_trace d) = Some (template_id b)"

text \<open>
  The reference is DuckDB's answer to this statement after the engine's: the engine's table is
  served if the comparison says so, the reference on a divergence and on a failed comparison.
\<close>

definition checked_answer ::
  "'w outside \<Rightarrow> string \<Rightarrow> params \<Rightarrow> engine_binding \<Rightarrow> arrow \<Rightarrow> 'w \<Rightarrow> route_decision \<Rightarrow> 'w \<Rightarrow> bool" where
  "checked_answer E sql ps b table w4 d w' \<longleftrightarrow> t_cross_checked (d_trace d) \<and>
     (\<exists>reference ms. duck E sql ps w4 = (Inr (reference, ms), w') \<and>
        (if verdict E sql table reference = Inr True then serves d b table ServedEngine
         else serves d b reference ServedDuckDB))"

text \<open>
  What follows the engine's answer: a cross-check when the router's rule asks for one and there is a
  connection; without it the engine's own table is served and nothing else is called.
\<close>

definition answer_ok ::
  "'w outside \<Rightarrow> router \<Rightarrow> string \<Rightarrow> params \<Rightarrow> bool \<Rightarrow> engine_binding \<Rightarrow> arrow \<Rightarrow> 'w \<Rightarrow> route_decision \<Rightarrow> 'w \<Rightarrow> bool"
where
  "answer_ok E r sql ps conn b table w3 d w' \<longleftrightarrow>
     (case should_cross_check E (count_execution b r) (template_id b) w3 of
        (check, w4) \<Rightarrow>
          if check \<and> conn then checked_answer E sql ps b table w4 d w'
          else w' = w4 \<and> \<not> t_cross_checked (d_trace d) \<and> serves d b table ServedEngine)"

definition decision_ok ::
  "'w outside \<Rightarrow> router \<Rightarrow> string \<Rightarrow> params \<Rightarrow> bool \<Rightarrow> 'w \<Rightarrow> route_decision \<Rightarrow> 'w \<Rightarrow> bool" where
  "decision_ok E r sql ps conn w d w' \<longleftrightarrow>
     (if d_routed d then
        (\<exists>b bound table w3. engine_answered E r sql ps conn w b bound table w3 \<and>
           answer_ok E r sql ps conn b table w3 d w')
      else d_result d = None \<and> t_decision (d_trace d) = Fallback)"

definition unserved :: "route_decision \<Rightarrow> bool" where
  "unserved d \<longleftrightarrow> \<not> d_routed d \<and> d_result d = None \<and> t_decision (d_trace d) = Fallback"

text \<open>Outcomes that satisfy a predicate on decisions and worlds, exceptions aside.\<close>

definition on_answer :: "(route_decision \<Rightarrow> 'w \<Rightarrow> bool) \<Rightarrow> 'w outcome_state \<Rightarrow> bool" where
  "on_answer P out \<longleftrightarrow> (case out of (Inl exc, r, w) \<Rightarrow> True | (Inr d, r, w) \<Rightarrow> P d w)"

lemma on_answer_mono: "on_answer P out \<Longrightarrow> (\<And>d w. P d w \<Longrightarrow> Q d w) \<Longrightarrow> on_answer Q out"
  by (auto simp: on_answer_def split: sum.splits prod.splits)

lemma on_answer_fallback: "on_answer (\<lambda>d w. unserved d) (fallback t reason must r w)"
  by (simp add: on_answer_def fallback_def Let_def unserved_def no_result_def fell_back_def)

lemma on_answer_reference:
  "t_cross_checked t \<Longrightarrow> t_template t = Some (template_id b) \<Longrightarrow>
   on_answer (\<lambda>d w'. t_cross_checked (d_trace d) \<and> w' = w \<and> serves d b ref ServedDuckDB) (serve_reference t ref b r w)"
  by (simp add: on_answer_def serve_reference_def Let_def serves_def)

lemma on_answer_engine:
  "t_template t = Some (template_id b) \<Longrightarrow>
   on_answer (\<lambda>d w'. t_cross_checked (d_trace d) = t_cross_checked t \<and> w' = w \<and> serves d b table ServedEngine)
     (serve_engine t table b r w)"
  by (simp add: on_answer_def serve_engine_def Let_def serves_def)

lemma on_answer_compare:
  assumes "t_cross_checked t" "t_template t = Some (template_id b)"
  shows "on_answer (\<lambda>d w'. t_cross_checked (d_trace d) \<and> w' = w \<and>
      (if verdict E sql table ref = Inr True then serves d b table ServedEngine else serves d b ref ServedDuckDB))
    (compare_and_serve E sql b table ref t r w)"
proof (cases "verdict E sql table ref = Inr True")
  case True
  then show ?thesis using assms
    by (auto simp: compare_and_serve_def Let_def intro!: on_answer_mono [OF on_answer_engine])
next
  case False
  have ref: "on_answer (\<lambda>d w'. t_cross_checked (d_trace d) \<and> w' = w \<and> serves d b ref ServedDuckDB)
      (serve_reference (add_guard g t') ref b r' w)" if "t_cross_checked t'" "t_template t' = Some (template_id b)" for g t' r'
    by (rule on_answer_reference) (use that in \<open>simp_all add: add_guard_def\<close>)
  show ?thesis
  proof (cases "verdict E sql table ref")
    case (Inl exc)
    then show ?thesis using assms by (simp add: compare_and_serve_def Let_def ref)
  next
    case (Inr ok)
    with False assms show ?thesis
      by (cases "verdict_diff E sql table ref")
        (auto simp: compare_and_serve_def Let_def on_answer_def [of _ "(Inl _, _)"] ref split: prod.splits)
  qed
qed

lemma on_answer_cross_check:
  assumes "t_template t = Some (template_id b)"
  shows "on_answer (\<lambda>d w'. unserved d \<or> checked_answer E sql ps b table w d w')
    (cross_check E sql ps b table t r w)"
proof -
  obtain res w1 where d: "duck E sql ps w = (res, w1)" by (metis surj_pair)
  show ?thesis
  proof (cases res)
    case (Inl exc)
    with d show ?thesis
      by (simp add: cross_check_def on_answer_mono [OF on_answer_fallback])
  next
    case (Inr p)
    obtain ref ms where p: "p = (ref, ms)" by (cases p)
    from d Inr p have "on_answer (\<lambda>d w'. unserved d \<or> checked_answer E sql ps b table w d w')
        (compare_and_serve E sql b table ref (t\<lparr>t_duckdb_ms := Some ms, t_cross_checked := True\<rparr>) r' w1)" for r'
      by (intro on_answer_mono [OF on_answer_compare]) (simp_all add: assms checked_answer_def)
    with d Inr p show ?thesis by (simp add: cross_check_def Let_def)
  qed
qed

lemma on_answer_execute:
  assumes "\<not> t_cross_checked t" "clock E w0 = (start, w1)" "engine_call E b bound w1 = (res, w2)"
  shows "on_answer (\<lambda>d w'. unserved d \<or> (\<exists>table server_ms. res = Inr (table, server_ms) \<and>
      answer_ok E r sql ps conn b table (if server_ms = None then snd (clock E w2) else w2) d w'))
    (execute_engine E sql ps conn b bound t r w0)"
proof (cases res)
  case (Inl exc)
  with assms show ?thesis
    by (simp add: execute_engine_def Let_def on_answer_mono [OF on_answer_fallback])
next
  case (Inr p)
  obtain table s where p: "p = (table, s)" by (cases p)
  define w3 where "w3 = (if s = None then snd (clock E w2) else w2)"
  obtain check w4 where sc: "should_cross_check E (count_execution b r) (template_id b) w3 = (check, w4)"
    by (metis surj_pair)
  obtain ms where x: "execute_engine E sql ps conn b bound t r w0 =
     (if check \<and> conn
      then cross_check E sql ps b table (routed_to (template_id b) (t\<lparr>t_bespoke_ms := Some ms\<rparr>)) (count_execution b r) w4
      else serve_engine (routed_to (template_id b) (t\<lparr>t_bespoke_ms := Some ms\<rparr>)) table b (count_execution b r) w4)"
  proof (cases s)
    case None
    obtain stop v where cl: "clock E w2 = (stop, v)" by (metis surj_pair)
    then show ?thesis using that [of "Num (Fin (stop - start))"] assms(2,3) Inr p sc None
      by (simp add: execute_engine_def Let_def w3_def)
  next
    case (Some a)
    then show ?thesis using that [of a] assms(2,3) Inr p sc
      by (simp add: execute_engine_def Let_def w3_def)
  qed
  let ?t = "routed_to (template_id b) (t\<lparr>t_bespoke_ms := Some ms\<rparr>)"
  have t: "t_template ?t = Some (template_id b)" "\<not> t_cross_checked ?t"
    using assms(1) by (simp_all add: routed_to_def)
  have "on_answer (\<lambda>d w'. unserved d \<or> answer_ok E r sql ps conn b table w3 d w')
      (execute_engine E sql ps conn b bound t r w0)"
  proof (cases "check \<and> conn")
    case True
    then show ?thesis unfolding x
      by simp (rule on_answer_mono [OF on_answer_cross_check [OF t(1)]], auto simp: answer_ok_def sc)
  next
    case False
    then show ?thesis unfolding x
      by (simp only: if_False) (rule on_answer_mono [OF on_answer_engine [OF t(1)]],
          use t(2) sc in \<open>auto simp: answer_ok_def\<close>)
  qed
  then show ?thesis using Inr p by (auto simp: w3_def intro: on_answer_mono)
qed

lemma on_answer_matched:
  assumes "\<not> t_cross_checked t" "routing_active (policy r)" "normalize_sql (lang E) sql = Some key"
    "reg_match (registry r) key = Some b"
  shows "on_answer (decision_ok E r sql ps conn w) (route_matched E sql ps conn b t r w)"
proof -
  have fb: "on_answer (decision_ok E r sql ps conn w) (fallback t' reason must r w')" for t' reason must w'
    by (rule on_answer_mono [OF on_answer_fallback]) (simp add: decision_ok_def unserved_def)
  obtain ok rs w1 where ev: "evaluate E \<lparr>g_sql = sql, g_binding = b, g_conn = conn,
      g_registry = registry r, g_params = ps\<rparr> w = ((ok, rs), w1)" by (metis surj_pair)
  show ?thesis
  proof (cases "ok \<and> bind_placeholders E b sql ps \<noteq> None")
    case True
    then obtain bound where bd: "bind_placeholders E b sql ps = Some bound" by auto
    obtain start v1 where c: "clock E w1 = (start, v1)" by (metis surj_pair)
    obtain res w2 where k: "engine_call E b bound v1 = (res, w2)" by (metis surj_pair)
    have nt: "\<not> t_cross_checked (fold add_guard rs t)" using assms(1) by (simp add: fold_add_guard)
    have "on_answer (decision_ok E r sql ps conn w) (execute_engine E sql ps conn b bound (fold add_guard rs t) r w1)"
    proof (rule on_answer_mono [OF on_answer_execute [OF nt c k]])
      fix d w'
      assume "unserved d \<or> (\<exists>table server_ms. res = Inr (table, server_ms) \<and>
        answer_ok E r sql ps conn b table (if server_ms = None then snd (clock E w2) else w2) d w')"
      then show "decision_ok E r sql ps conn w d w'"
      proof
        assume "\<exists>table server_ms. res = Inr (table, server_ms) \<and>
          answer_ok E r sql ps conn b table (if server_ms = None then snd (clock E w2) else w2) d w'"
        then obtain table s where o: "res = Inr (table, s)"
          "answer_ok E r sql ps conn b table (if s = None then snd (clock E w2) else w2) d w'" by blast
        have "engine_answered E r sql ps conn w b bound table (if s = None then snd (clock E w2) else w2)"
          using assms(2-4) ev True bd c k o(1) by (auto simp: engine_answered_def)
        moreover have "d_routed d"
          using o(2) by (auto simp: answer_ok_def checked_answer_def serves_def split: prod.splits if_splits)
        ultimately show ?thesis using o(2) by (auto simp: decision_ok_def)
      qed (simp add: decision_ok_def unserved_def)
    qed
    then show ?thesis using True ev bd by (simp add: route_matched_def Let_def)
  next
    case False
    then show ?thesis using ev by (auto simp: route_matched_def Let_def fb split: option.splits)
  qed
qed

lemma route_on_answer: "on_answer (decision_ok E r sql ps conn w) (route E r sql ps conn w)"
proof -
  have fb: "on_answer (decision_ok E r sql ps conn w) (fallback t' reason must r w)" for t' reason must
    by (rule on_answer_mono [OF on_answer_fallback]) (simp add: decision_ok_def unserved_def)
  show ?thesis unfolding route_def Let_def
    by (auto simp: new_trace_def fb split: option.splits intro!: on_answer_matched)
      (simp_all add: on_answer_def decision_ok_def no_result_def fell_back_def)
qed

lemma decision_result:
  assumes "decision_ok E r sql ps conn w d w'" "d_routed d"
  obtains res where "d_result d = Some res"
proof -
  from assms obtain b table w3 where "answer_ok E r sql ps conn b table w3 d w'" by (auto simp: decision_ok_def)
  then have "\<exists>x who. serves d b x who"
    by (cases "should_cross_check E (count_execution b r) (template_id b) w3")
      (auto simp: answer_ok_def checked_answer_def split: if_splits)
  then show ?thesis using that by (auto simp: serves_def)
qed

text \<open>
  C1. Serving is fail-closed. A routed answer is the outcome of this statement's own calls: the
  engine bound to its template passed the guards and answered it, and then, if the cross-check rule
  asked for a check on a connection, DuckDB answered the same statement after the engine and the
  engine's table is served exactly when the comparison of the two says equal, DuckDB's otherwise
  (divergence or failed comparison; a failed reference is never routed); without a check the engine's
  own table is served and nothing else was called. Every other statement carries no result and is
  a fallback.
\<close>

theorem route_fail_closed:
  assumes "route E r sql ps conn w = (Inr d, r', w')"
  shows "if d_routed d then
      (\<exists>b bound table w3. engine_answered E r sql ps conn w b bound table w3 \<and>
        (case should_cross_check E (count_execution b r) (template_id b) w3 of
           (check, w4) \<Rightarrow>
             if check \<and> conn then t_cross_checked (d_trace d) \<and>
               (\<exists>reference ms. duck E sql ps w4 = (Inr (reference, ms), w') \<and>
                  (if verdict E sql table reference = Inr True then serves d b table ServedEngine
                   else serves d b reference ServedDuckDB))
             else w' = w4 \<and> \<not> t_cross_checked (d_trace d) \<and> serves d b table ServedEngine))
    else d_result d = None \<and> t_decision (d_trace d) = Fallback"
proof -
  have "decision_ok E r sql ps conn w d w'"
    using route_on_answer [of E r sql ps conn w] assms by (simp add: on_answer_def)
  then show ?thesis unfolding decision_ok_def answer_ok_def checked_answer_def .
qed

section \<open>A concrete environment\<close>

definition select_sqlglot :: sqlglot where
  "select_sqlglot = tiny_sqlglot\<lparr>parse_one := (\<lambda>s. Some (Node ''Select'' [])), tokenize := (\<lambda>s. Some [])\<rparr>"

text \<open>An outside world with one engine and one DuckDB, each giving a fixed answer.\<close>

definition demo_outside ::
  "(py_error + arrow_table \<times> pyfloat option) \<Rightarrow> (py_error + arrow_table \<times> pyfloat) \<Rightarrow> unit outside" where
  "demo_outside engine_answer duck_answer =
     \<lparr>health = (\<lambda>e w. (Some (Inr True), w)), run = (\<lambda>e q b w. (engine_answer, w)),
      fingerprint = (\<lambda>ts w. (Some (Inr ''fp''), w)), duck = (\<lambda>s p w. (duck_answer, w)),
      clock = (\<lambda>w. (0, w)), dice = (\<lambda>w. (0, w)), exc_text = (\<lambda>e. ''error''), exc_repr = (\<lambda>e. ''error''),
      lang = select_sqlglot, pyfmt = plain_fmt\<rparr>"

definition demo_engine :: engine_binding where
  "demo_engine = (demo_binding ''T'' ''Select'')\<lparr>template_sql := Some ''select''\<rparr>"

definition demo_router :: router where
  "demo_router = new_router None (Some (reg_register demo_engine empty_registry))"

definition ints_table :: "int list \<Rightarrow> arrow" where
  "ints_table xs = [(''x'', map PInt xs)]"

lemma demo_served:
  "fst (route (demo_outside (Inr (ints_table [1], Some (Num (Fin 2)))) (Inr (ints_table [1], Num (Fin 6))))
       demo_router ''select'' NoParams True ()) =
   Inr \<lparr>d_routed = True, d_result = Some \<lparr>sr_table = ints_table [1], sr_types = None\<rparr>,
     d_trace =
       \<lparr>t_sql = ''select'', t_decision = Bespoke, t_reason = ''template match'', t_template = Some ''T'',
        t_guards = [(''engine_ready_guard'', True, ''engine ready''), (''select_only_guard'', True, ''SELECT''),
          (''dirty_table_guard'', True, ''tables clean''), (''schema_match_guard'', True, ''schema matches''),
          (''placeholder_arity_guard'', True, ''constant template, exact statement match'')],
        t_bespoke_ms = Some (Num (Fin 2)), t_duckdb_ms = Some (Num (Fin 6)), t_cross_checked = True,
        t_results_match = Some True, t_served_by = Some ServedEngine\<rparr>\<rparr>"
  by code_simp

lemma answer_cases:
  fixes out :: "unit outcome_state"
  assumes "(case fst out of Inl e \<Rightarrow> None | Inr d \<Rightarrow> Some (f d, g d)) = Some (x, y)"
    and "quarantined (registry (fst (snd out))) = q"
  shows "\<exists>d r'. out = (Inr d, r', ()) \<and> f d = x \<and> g d = y \<and> quarantined (registry r') = q"
  using assms by (cases out) (auto split: sum.splits)

lemma demo_diverged:
  "\<exists>d r'. route (demo_outside (Inr (ints_table [1], Some (Num (Fin 2)))) (Inr (ints_table [3], Num (Fin 6))))
       demo_router ''select'' NoParams True () = (Inr d, r', ()) \<and>
     t_results_match (d_trace d) = Some False \<and> t_template (d_trace d) = Some ''T'' \<and>
     quarantined (registry r') = {''T''}"
proof -
  let ?out = "route (demo_outside (Inr (ints_table [1], Some (Num (Fin 2)))) (Inr (ints_table [3], Num (Fin 6))))
       demo_router ''select'' NoParams True ()"
  have "(case fst ?out of Inl e \<Rightarrow> None
      | Inr d \<Rightarrow> Some (t_results_match (d_trace d), t_template (d_trace d))) = Some (Some False, Some ''T'')"
    by code_simp
  moreover have "quarantined (registry (fst (snd ?out))) = {''T''}" by code_simp
  ultimately show ?thesis by (rule answer_cases)
qed

theorem route_fail_closed_witness:
  "\<exists>d r'. route (demo_outside (Inr (ints_table [1], Some (Num (Fin 2)))) (Inr (ints_table [3], Num (Fin 6))))
       demo_router ''select'' NoParams True () = (Inr d, r', ()) \<and>
     serves d demo_engine (ints_table [3]) ServedDuckDB"
proof -
  let ?E = "demo_outside (Inr (ints_table [1], Some (Num (Fin 2)))) (Inr (ints_table [3], Num (Fin 6)))"
  let ?out = "route ?E demo_router ''select'' NoParams True ()"
  have "(case fst ?out of Inl e \<Rightarrow> None
      | Inr d \<Rightarrow> Some (d_routed d, t_cross_checked (d_trace d))) = Some (True, True)"
    by code_simp
  from answer_cases [OF this refl] obtain d r' where o: "?out = (Inr d, r', ())"
    and t: "d_routed d" "t_cross_checked (d_trace d)" by auto
  have key: "normalize_sql (lang ?E) ''select'' = Some ''Select''"
    "reg_match (registry demo_router) ''Select'' = Some demo_engine" by code_simp+
  have ve: "verdict ?E ''select'' (ints_table [1]) (ints_table [3]) = Inr False" by code_simp
  have dk: "duck ?E ''select'' NoParams u = (Inr (ints_table [3], Num (Fin 6)), ())" for u
    by (simp add: demo_outside_def)
  have en: "t = ints_table [1]" if "engine_call ?E demo_engine bound u = (Inr (t, ms), v)" for bound u v t ms
    using that by (auto simp: engine_call_def demo_outside_def split: option.splits)
  from route_fail_closed [OF o] obtain b bound table w3 where
    ea: "engine_answered ?E demo_router ''select'' NoParams True () b bound table w3" and
    sc: "case should_cross_check ?E (count_execution b demo_router) (template_id b) w3 of
           (check, w4) \<Rightarrow>
             if check \<and> True then t_cross_checked (d_trace d) \<and>
               (\<exists>reference ms. duck ?E ''select'' NoParams w4 = (Inr (reference, ms), ()) \<and>
                  (if verdict ?E ''select'' table reference = Inr True then serves d b table ServedEngine
                   else serves d b reference ServedDuckDB))
             else () = w4 \<and> \<not> t_cross_checked (d_trace d) \<and> serves d b table ServedEngine"
    unfolding if_P [OF t(1)] by (elim exE conjE) (rule that)
  from ea key have b: "b = demo_engine" by (auto simp: engine_answered_def)
  with ea have tb: "table = ints_table [1]" by (auto simp: engine_answered_def dest: en)
  from sc t(2) ve show ?thesis unfolding b tb dk using o by (auto split: prod.splits if_splits)
qed

section \<open>The kill switch\<close>

text \<open>
  With the router off or no engine registered, a statement falls back whatever the parser,
  the engines and DuckDB are: none of them is consulted and the outside world is unchanged.
\<close>

theorem route_inactive:
  assumes "\<not> routing_active (policy r) \<or> reg_len (registry r) = 0"
  shows "\<exists>t r'. \<forall>(E :: 'w outside) ps conn w. route E r sql ps conn w = (Inr (no_result t), r', w) \<and>
    t_decision t = Fallback \<and> registry r' = registry r \<and> exec_counts r' = exec_counts r"
proof (cases "routing_active (policy r)")
  case True
  then show ?thesis using assms
    by (intro exI [of _ "fell_back ''no engines registered'' (new_trace sql)"]
        exI [of _ "finish (fell_back ''no engines registered'' (new_trace sql)) r"])
      (simp add: route_def Let_def router_frame fell_back_def)
next
  case False
  then show ?thesis
    by (intro exI [of _ "fell_back (inactive_reason (policy r)) (new_trace sql)"]
        exI [of _ "finish (fell_back (inactive_reason (policy r)) (new_trace sql)) r"])
      (simp add: route_def Let_def router_frame fell_back_def)
qed

theorem route_inactive_witness:
  "\<exists>t r'. \<forall>(E :: unit outside) ps conn w.
     route E (new_router None None) ''select'' ps conn w = (Inr (no_result t), r', w) \<and>
     t_decision t = Fallback \<and> registry r' = registry (new_router None None) \<and>
     exec_counts r' = exec_counts (new_router None None)"
  by (rule route_inactive) (simp add: new_router_def empty_registry_def reg_len_def)

section \<open>When routing raises\<close>

text \<open>
  What the difference report can handle: no infinite float, no float so large that its quotient by
  the tolerance is an infinite double (from about 1.8e302 on), no unhashable cell.
\<close>

definition finite_cell :: "pyval \<Rightarrow> bool" where
  "finite_cell v = (case v of
     PFloat (Num (Fin x)) \<Rightarrow> \<bar>x / default_tol\<bar> < double_limit
   | PFloat (Num PosInf) \<Rightarrow> False | PFloat (Num NegInf) \<Rightarrow> False | _ \<Rightarrow> py_hashable v)"

definition finite_table :: "arrow \<Rightarrow> bool" where
  "finite_table t \<longleftrightarrow> (\<forall>r \<in> set (rows_of t). list_all finite_cell r)"

lemma to_double_finite: "\<bar>x\<bar> < double_limit \<Longrightarrow> \<exists>q. to_double x = Fin q"
  by (auto simp: to_double_def Let_def)

lemma finite_bucket:
  assumes "finite_cell v"
  shows "\<exists>c. bucket_cell default_tol v = Inr c \<and> bcell_hashable c"
proof (cases "\<exists>x. v = PFloat (Num (Fin x))")
  case True
  then obtain x where v: "v = PFloat (Num (Fin x))" by blast
  with assms have "\<bar>x / default_tol\<bar> < double_limit" by (simp add: finite_cell_def)
  from to_double_finite [OF this] obtain q where "to_double (x / default_tol) = Fin q" ..
  then show ?thesis by (simp add: bucket_cell_def v default_tol_def)
next
  case False
  with assms show ?thesis
    by (auto simp: finite_cell_def bucket_cell_def split: pyval.splits pyfloat.splits xnum.splits)
qed

lemma sum_map_total:
  "(\<And>x. x \<in> set xs \<Longrightarrow> \<exists>y. f x = Inr y \<and> P y) \<Longrightarrow> \<exists>ys. sum_map f xs = Inr ys \<and> list_all P ys"
proof (induction xs)
  case (Cons x xs)
  from Cons.prems [of x] obtain y where "f x = Inr y" "P y" by auto
  moreover obtain ys where "sum_map f xs = Inr ys" "list_all P ys"
    using Cons.IH Cons.prems by auto
  ultimately show ?case by simp
qed simp

lemma finite_bucket_rows:
  assumes "\<And>r. r \<in> set rs \<Longrightarrow> list_all finite_cell r"
  shows "\<exists>k. bucket_rows default_tol rs = Inr k"
proof -
  have "\<exists>ks. row_bucket default_tol r = Inr ks \<and> list_all bcell_hashable ks" if "r \<in> set rs" for r
    unfolding row_bucket_def using assms [OF that] finite_bucket
    by (intro sum_map_total) (auto simp: list_all_iff)
  from sum_map_total [of rs "row_bucket default_tol" "list_all bcell_hashable", OF this]
  show ?thesis by (auto simp: bucket_rows_def)
qed

lemma finite_results_diff:
  assumes "finite_table t" "finite_table u"
  shows "\<exists>x. results_diff default_tol limit ordered keys None None t u = Inr x"
proof -
  obtain a b where "bucket_rows default_tol (rows_of t) = Inr a" "bucket_rows default_tol (rows_of u) = Inr b"
    using finite_bucket_rows assms unfolding finite_table_def by metis
  then have "\<exists>x. multiset_diff default_tol limit (rows_of t) (rows_of u) = Inr x"
    by (simp add: multiset_diff_def Let_def)
  then show ?thesis by (auto simp: results_diff_def Let_def split: option.splits list.splits)
qed

text \<open>Every answer an engine or DuckDB may give is one the difference report can handle.\<close>

definition finite_answers :: "'w outside \<Rightarrow> bool" where
  "finite_answers E \<longleftrightarrow>
     (\<forall>e q b v t s v'. run E e q b v = (Inr (t, s), v') \<longrightarrow> finite_table t) \<and>
     (\<forall>s p v t ms v'. duck E s p v = (Inr (t, ms), v') \<longrightarrow> finite_table t)"

definition returns :: "'w outcome_state \<Rightarrow> bool" where
  "returns out \<longleftrightarrow> (\<exists>d r w. out = (Inr d, r, w))"

lemma returns_fallback: "mode (policy r) \<noteq> BESPOKE_ONLY \<Longrightarrow> returns (fallback t reason must r w)"
  by (simp add: returns_def fallback_def Let_def)

lemma returns_serve: "returns (serve_reference t ref b r w)" "returns (serve_engine t table b r w)"
  by (simp_all add: returns_def serve_reference_def serve_engine_def Let_def)

lemma returns_compare:
  assumes "finite_table table" "finite_table ref"
  shows "returns (compare_and_serve E sql b table ref t r w)"
proof -
  obtain ds n where "verdict_diff E sql table ref = Inr (ds, n)"
    using finite_results_diff [OF assms] unfolding verdict_diff_def by (metis surj_pair)
  then show ?thesis
    by (auto simp: compare_and_serve_def Let_def returns_serve split: sum.splits)
qed

lemma returns_cross_check:
  assumes "finite_table table" "finite_answers E" and "mode (policy r) \<noteq> BESPOKE_ONLY"
  shows "returns (cross_check E sql ps b table t r w)"
proof -
  obtain res w1 where d: "duck E sql ps w = (res, w1)" by (metis surj_pair)
  show ?thesis
  proof (cases res)
    case (Inl exc)
    with d assms(3) show ?thesis by (simp add: cross_check_def returns_fallback router_frame)
  next
    case (Inr p)
    obtain ref ms where p: "p = (ref, ms)" by (cases p)
    with d Inr assms(2) have "finite_table ref" unfolding finite_answers_def by blast
    with d Inr p show ?thesis by (simp add: cross_check_def Let_def returns_compare [OF assms(1)])
  qed
qed

lemma returns_execute:
  assumes "finite_answers E" "mode (policy r) \<noteq> BESPOKE_ONLY"
  shows "returns (execute_engine E sql ps conn b bound t r w)"
proof -
  obtain start w1 where c: "clock E w = (start, w1)" by (metis surj_pair)
  obtain res w2 where k: "engine_call E b bound w1 = (res, w2)" by (metis surj_pair)
  show ?thesis
  proof (cases res)
    case (Inl exc)
    with c k assms(2) show ?thesis
      by (simp add: execute_engine_def Let_def returns_fallback router_frame)
  next
    case (Inr p)
    obtain table s where p: "p = (table, s)" by (cases p)
    with k Inr obtain e where "run E e (query_id b) bound w1 = (Inr (table, s), w2)"
      by (auto simp: engine_call_def split: option.splits)
    then have fin: "finite_table table" using assms(1) unfolding finite_answers_def by blast
    have cc: "returns (cross_check E sql ps b table t' (count_execution b r) w')" for t' w'
      by (rule returns_cross_check [OF fin assms(1)]) (simp add: assms(2) router_frame)
    show ?thesis using c k Inr p
      by (auto simp: execute_engine_def Let_def returns_serve cc split: prod.splits)
  qed
qed

lemma returns_route:
  assumes "mode (policy r) \<noteq> BESPOKE_ONLY" "finite_answers E"
  shows "returns (route E r sql ps conn w)"
proof -
  have "returns (route_matched E sql ps conn b t r w)" for b t
    using returns_execute [OF assms(2,1)] returns_fallback [OF assms(1)]
    by (auto simp: route_matched_def Let_def split: prod.splits option.splits)
  then show ?thesis
    using returns_fallback [OF assms(1)]
    by (auto simp: route_def Let_def returns_def split: option.splits)
qed



text \<open>
  The hypothesis on floats is needed: an infinite float in a diverging answer makes the
  difference report raise out of \<open>route\<close>, before the template is quarantined.
\<close>

definition inf_table :: arrow where
  "inf_table = [(''x'', [PFloat (Num PosInf)])]"

lemma route_raises_on_infinity:
  "let out = route (demo_outside (Inr (inf_table, Some (Num (Fin 2)))) (Inr (ints_table [3], Num (Fin 6))))
       demo_router ''select'' NoParams True ()
   in fst out = Inl (OverflowError ''cannot convert float infinity to integer'') \<and>
      quarantined (registry (fst (snd out))) = {}"
  unfolding Let_def
proof
  show "fst (route (demo_outside (Inr (inf_table, Some (Num (Fin 2)))) (Inr (ints_table [3], Num (Fin 6))))
       demo_router ''select'' NoParams True ()) = Inl (OverflowError ''cannot convert float infinity to integer'')"
    by code_simp
  show "quarantined (registry (fst (snd (route (demo_outside (Inr (inf_table, Some (Num (Fin 2))))
      (Inr (ints_table [3], Num (Fin 6)))) demo_router ''select'' NoParams True ())))) = {}"
    by code_simp
qed

text \<open>A finite but huge float does the same.\<close>

lemma route_raises_on_huge:
  assumes "verdict E sql [(''x'', [PFloat (Num (Fin (2 * 10 ^ 302)))])] [(''x'', [PFloat (Num (Fin 1))])] = Inr False"
    "\<not> has_order_by (lang E) sql"
  shows "fst (compare_and_serve E sql b [(''x'', [PFloat (Num (Fin (2 * 10 ^ 302)))])]
      [(''x'', [PFloat (Num (Fin 1))])] t r w) = Inl (OverflowError ''cannot convert float infinity to integer'')"
  using assms huge_float_raises by (simp add: compare_and_serve_def Let_def verdict_diff_def verdict_keys_def)

section \<open>Burn-in\<close>

text \<open>Whether the policy asks for verification at all.\<close>

definition verifying :: "router_policy \<Rightarrow> bool" where
  "verifying p \<longleftrightarrow> mode p \<noteq> BESPOKE_ONLY \<and> \<not> float_le (cross_check_rate p) (Num (Fin 0))"

definition burn_in_ok :: "bool \<Rightarrow> router \<Rightarrow> route_decision \<Rightarrow> router \<Rightarrow> bool" where
  "burn_in_ok conn r d r' \<longleftrightarrow>
     (d_routed d \<and> \<not> t_cross_checked (d_trace d) \<and> conn \<and> verifying (policy r) \<longrightarrow>
      (\<exists>t. t_template (d_trace d) = Some t \<and>
         get_count (exec_counts r') t = get_count (exec_counts r) t + 1 \<and>
         verify_first_n (policy r) < int (get_count (exec_counts r') t)))"

lemma unchecked_past_burn_in:
  "should_cross_check E r t w = (False, w') \<Longrightarrow> verifying (policy r) \<Longrightarrow>
   verify_first_n (policy r) < int (get_count (exec_counts r) t)"
  by (auto simp: should_cross_check_def Let_def verifying_def split: if_splits)

lemma cross_check_marks:
  "cross_check E sql ps b table t r w = (Inr d, r', w') \<Longrightarrow> d_routed d \<Longrightarrow> t_cross_checked (d_trace d)"
  by (auto simp: cross_check_def compare_and_serve_def serve_reference_def serve_engine_def fallback_def
      no_result_def Let_def add_guard_def split: prod.splits sum.splits if_splits)

lemma burn_in_fallback: "fallback t reason must r w = (Inr d, r', w') \<Longrightarrow> burn_in_ok conn r0 d r'"
  by (auto simp: fallback_def Let_def no_result_def burn_in_ok_def split: if_splits)

lemma burn_in_execute:
  assumes "execute_engine E sql ps conn b bound t r w = (Inr d, r', w')"
  shows "burn_in_ok conn r d r'"
proof -
  obtain start w1 where c: "clock E w = (start, w1)" by (metis surj_pair)
  obtain res w2 where k: "engine_call E b bound w1 = (res, w2)" by (metis surj_pair)
  show ?thesis
  proof (cases res)
    case (Inl exc)
    with assms c k show ?thesis
      by (simp add: execute_engine_def Let_def) (rule burn_in_fallback)
  next
    case (Inr p)
    obtain table s where p: "p = (table, s)" by (cases p)
    let ?r1 = "count_execution b r"
    have n: "get_count (exec_counts ?r1) (template_id b) = get_count (exec_counts r) (template_id b) + 1"
      by (simp add: count_execution_def get_count_def)
    obtain ms w3 check w4 where
      sc: "should_cross_check E ?r1 (template_id b) w3 = (check, w4)" and
      o: "(if check \<and> conn then cross_check E sql ps b table
             (routed_to (template_id b) (t\<lparr>t_bespoke_ms := Some ms\<rparr>)) ?r1 w4
           else serve_engine (routed_to (template_id b) (t\<lparr>t_bespoke_ms := Some ms\<rparr>)) table b ?r1 w4)
         = (Inr d, r', w')"
      using assms c k Inr p by (auto simp: execute_engine_def Let_def split: prod.splits)
    show ?thesis
    proof (cases "check \<and> conn")
      case True
      with o cross_check_marks show ?thesis by (fastforce simp: burn_in_ok_def)
    next
      case False
      with o have d: "t_template (d_trace d) = Some (template_id b)" "exec_counts r' = exec_counts ?r1"
        by (auto simp: serve_engine_def Let_def router_frame routed_to_def)
      have "verify_first_n (policy r) < int (get_count (exec_counts ?r1) (template_id b))"
        if "conn" "verifying (policy r)"
        using unchecked_past_burn_in [of E ?r1 "template_id b" w3 w4] sc False that by (simp add: router_frame)
      with d n show ?thesis by (auto simp: burn_in_ok_def)
    qed
  qed
qed

text \<open>
  C19. Burn-in: while verification is on and a connection is at hand, an answer served without a
  cross-check means this template had already run more than \<open>verify_first_n\<close> times, this run
  included; the execution was counted.
\<close>

theorem route_burn_in:
  assumes "route E r sql ps conn w = (Inr d, r', w')"
    and "d_routed d" "\<not> t_cross_checked (d_trace d)" "conn" "verifying (policy r)"
  shows "\<exists>t. t_template (d_trace d) = Some t \<and>
    get_count (exec_counts r') t = get_count (exec_counts r) t + 1 \<and>
    verify_first_n (policy r) < int (get_count (exec_counts r') t)"
proof -
  have "burn_in_ok conn r d r'"
    using assms(1)
    by (auto simp: route_def route_matched_def Let_def no_result_def burn_in_ok_def [of _ _ "\<lparr>d_routed = False, d_result = _, d_trace = _\<rparr>"]
        split: if_splits option.splits prod.splits
        intro: burn_in_fallback burn_in_execute)
  with assms(2-5) show ?thesis by (simp add: burn_in_ok_def)
qed

theorem route_burn_in_witness:
  "let r = demo_router\<lparr>exec_counts := [''T'' \<mapsto> 10],
         policy := default_policy\<lparr>cross_check_rate := Num (Fin (1 / 10))\<rparr>\<rparr>;
       E = (demo_outside (Inr (ints_table [1], None)) (Inr (ints_table [1], Num (Fin 6))))
         \<lparr>dice := (\<lambda>w. (1 / 2, w))\<rparr>
   in \<exists>d r'. route E r ''select'' NoParams True () = (Inr d, r', ()) \<and> \<not> t_cross_checked (d_trace d) \<and>
        10 < get_count (exec_counts r') ''T''"
proof -
  let ?r = "demo_router\<lparr>exec_counts := [''T'' \<mapsto> 10],
         policy := default_policy\<lparr>cross_check_rate := Num (Fin (1 / 10))\<rparr>\<rparr>"
  let ?E = "(demo_outside (Inr (ints_table [1], None)) (Inr (ints_table [1], Num (Fin 6))))
         \<lparr>dice := (\<lambda>w. (1 / 2, w))\<rparr>"
  let ?out = "route ?E ?r ''select'' NoParams True ()"
  have "(case fst ?out of Inl e \<Rightarrow> None
      | Inr d \<Rightarrow> Some ((d_routed d, t_cross_checked (d_trace d)), t_template (d_trace d)))
      = Some ((True, False), Some ''T'')"
    by code_simp
  from answer_cases [OF this refl] obtain d r' where
    o: "?out = (Inr d, r', ())" and d: "(d_routed d, t_cross_checked (d_trace d)) = (True, False)"
      "t_template (d_trace d) = Some ''T''" by blast
  have v: "verifying (policy ?r)" by code_simp
  have pn: "verify_first_n (policy ?r) = 10" by code_simp
  have d1: "d_routed d" "\<not> t_cross_checked (d_trace d)" using d(1) by simp_all
  from route_burn_in [OF o d1 TrueI v] d(2) pn
  have "10 < int (get_count (exec_counts r') ''T'')" by auto
  with o d1 show ?thesis unfolding Let_def by (intro exI conjI) auto
qed

section \<open>What a query may change in the registry\<close>

definition registry_grows :: "registry \<Rightarrow> registry \<Rightarrow> bool" where
  "registry_grows a b \<longleftrightarrow> by_norm b = by_norm a \<and> dirty_tables b = dirty_tables a \<and>
     quarantined a \<subseteq> quarantined b \<and> (finite (quarantined a) \<longrightarrow> finite (quarantined b))"

lemma registry_grows_refl [simp]: "registry_grows a a"
  by (simp add: registry_grows_def)

lemma registry_grows_trans: "registry_grows a b \<Longrightarrow> registry_grows b c \<Longrightarrow> registry_grows a c"
  by (auto simp: registry_grows_def)

lemma grows_failure: "registry_grows (registry r) (registry (record_failure b r))"
  by (simp add: record_failure_def Let_def registry_grows_def reg_quarantine_def router_frame subset_insertI)

definition keeps :: "router \<Rightarrow> 'w outcome_state \<Rightarrow> bool" where
  "keeps r out \<longleftrightarrow> (case out of (res, r', w') \<Rightarrow>
     policy r' = policy r \<and> registry_grows (registry r) (registry r'))"

lemma keeps_fallback: "policy r1 = policy r \<Longrightarrow> registry_grows (registry r) (registry r1) \<Longrightarrow>
    keeps r (fallback t reason must r1 w)"
  by (simp add: keeps_def fallback_def Let_def router_frame)

lemma keeps_reference: "policy r1 = policy r \<Longrightarrow> registry_grows (registry r) (registry r1) \<Longrightarrow>
    keeps r (serve_reference t ref b r1 w)"
  by (simp add: keeps_def serve_reference_def Let_def router_frame)

lemma keeps_engine: "policy r1 = policy r \<Longrightarrow> registry_grows (registry r) (registry r1) \<Longrightarrow>
    keeps r (serve_engine t table b r1 w)"
  by (simp add: keeps_def serve_engine_def Let_def router_frame)

lemma keeps_compare:
  assumes "policy r1 = policy r" "registry_grows (registry r) (registry r1)"
  shows "keeps r (compare_and_serve E sql b table ref t r1 w)"
proof -
  have f: "registry_grows (registry r) (registry (record_failure b (add_log x (count_check_error r1))))" for x
    using registry_grows_trans [OF assms(2)] grows_failure [of "add_log x (count_check_error r1)" b]
    by (simp add: router_frame)
  have q: "registry_grows (registry r) (reg_quarantine (template_id b) (registry r1))"
    using assms(2) by (auto simp: registry_grows_def reg_quarantine_def)
  show ?thesis
    using assms f q
    by (auto simp: compare_and_serve_def Let_def router_frame split: sum.splits prod.splits
        intro!: keeps_reference keeps_engine) (simp add: keeps_def)
qed

lemma keeps_cross_check:
  assumes "policy r1 = policy r" "registry_grows (registry r) (registry r1)"
  shows "keeps r (cross_check E sql ps b table t r1 w)"
  using assms
  by (auto simp: cross_check_def Let_def router_frame split: sum.splits prod.splits
      intro!: keeps_fallback keeps_compare)

lemma keeps_execute:
  assumes "policy r1 = policy r" "registry_grows (registry r) (registry r1)"
  shows "keeps r (execute_engine E sql ps conn b bound t r1 w)"
proof -
  have f: "registry_grows (registry r) (registry (record_failure b (add_log x r1)))" for x
    using registry_grows_trans [OF assms(2)] grows_failure [of "add_log x r1" b]
    by (simp add: router_frame)
  show ?thesis
    using assms f
    by (auto simp: execute_engine_def Let_def router_frame split: sum.splits prod.splits option.splits
        intro!: keeps_fallback keeps_cross_check keeps_engine)
qed

lemma route_keeps: "keeps r (route E r sql ps conn w)"
proof -
  have "keeps r (route_matched E sql ps conn b t r w)" for b t
    by (auto simp: route_matched_def Let_def split: prod.splits option.splits
        intro!: keeps_fallback keeps_execute)
  then show ?thesis
    by (auto simp: route_def Let_def router_frame keeps_def [of _ "(Inr _, _)"]
        split: option.splits intro!: keeps_fallback)
qed

lemma route_registry:
  assumes "route E r sql ps conn w = (res, r', w')"
  shows "policy r' = policy r" "registry_grows (registry r) (registry r')"
  using route_keeps [of r E sql ps conn w] assms by (simp_all add: keeps_def)

section \<open>Divergence\<close>

text \<open>A decision whose verdict was negative quarantined the binding it names.\<close>

definition diverged_ok :: "engine_binding \<Rightarrow> 'w outcome_state \<Rightarrow> bool" where
  "diverged_ok b out \<longleftrightarrow> (case out of (Inl exc, r, w) \<Rightarrow> True
     | (Inr d, r, w) \<Rightarrow> t_results_match (d_trace d) = Some False \<longrightarrow>
         template_id b \<in> quarantined (registry r) \<and> t_served_by (d_trace d) = Some ServedDuckDB)"

lemma diverged_fallback: "t_results_match t \<noteq> Some False \<Longrightarrow> diverged_ok b (fallback t reason must r w)"
  by (simp add: diverged_ok_def fallback_def Let_def no_result_def fell_back_def)

lemma diverged_engine: "t_results_match t \<noteq> Some False \<Longrightarrow> diverged_ok b (serve_engine t table b' r w)"
  by (simp add: diverged_ok_def serve_engine_def Let_def)

lemma diverged_compare:
  "t_results_match t = None \<Longrightarrow> diverged_ok b (compare_and_serve E sql b table ref t r w)"
  by (auto simp: compare_and_serve_def Let_def diverged_ok_def serve_reference_def serve_engine_def
      add_guard_def router_frame reg_quarantine_def split: sum.splits prod.splits if_splits)

lemma diverged_execute:
  assumes "t_results_match t = None"
  shows "diverged_ok b (execute_engine E sql ps conn b bound t r w)"
  using assms
  by (auto simp: execute_engine_def cross_check_def Let_def routed_to_def split: sum.splits prod.splits option.splits
      intro!: diverged_fallback diverged_engine diverged_compare)

lemma diverged_matched:
  assumes "t_results_match t = None"
  shows "diverged_ok b (route_matched E sql ps conn b t r w)"
  using assms
  by (auto simp: route_matched_def Let_def fold_add_guard split: prod.splits option.splits
      intro!: diverged_fallback diverged_execute)

lemma route_diverged:
  assumes "route E r sql ps conn w = (Inr d, r', w')" "t_results_match (d_trace d) = Some False"
  obtains key b where "normalize_sql (lang E) sql = Some key" "reg_match (registry r) key = Some b"
    "template_id b \<in> quarantined (registry r')" "t_served_by (d_trace d) = Some ServedDuckDB"
proof (cases "routing_active (policy r) \<and> reg_len (registry r) \<noteq> 0 \<and>
    (\<exists>key b. normalize_sql (lang E) sql = Some key \<and> reg_match (registry r) key = Some b)")
  case True
  then obtain key b where kb: "normalize_sql (lang E) sql = Some key" "reg_match (registry r) key = Some b"
    by blast
  then have "route E r sql ps conn w = route_matched E sql ps conn b (new_trace sql) r w"
    using True by (simp add: route_def Let_def)
  moreover have "diverged_ok b (route_matched E sql ps conn b (new_trace sql) r w)"
    by (rule diverged_matched) (simp add: new_trace_def)
  ultimately have "diverged_ok b (Inr d, r', w')" using assms(1) by simp
  then show ?thesis using that [OF kb] assms(2) by (simp add: diverged_ok_def)
next
  case False
  then have "d_routed d = False \<and> t_results_match (d_trace d) = None"
    using assms(1)
    by (auto simp: route_def Let_def fallback_def no_result_def fell_back_def new_trace_def
        split: if_splits option.splits)
  with assms(2) show ?thesis by simp
qed

lemma reg_match_quarantined:
  "registry_grows a b \<Longrightarrow> reg_match a k = Some x \<Longrightarrow> template_id x \<in> quarantined b \<Longrightarrow> reg_match b k = None"
  by (auto simp: registry_grows_def reg_match_def split: option.splits if_splits)

text \<open>
  C12. A divergence is served by DuckDB and sidelines the engine at once: the next statement with
  the same structural key, whatever its text, falls back without touching the outside world.
\<close>

theorem divergence_sidelines:
  assumes "route E r sql ps conn w = (Inr d, r', w')" "t_results_match (d_trace d) = Some False"
    and "normalize_sql (lang E) sql' = normalize_sql (lang E) sql"
  shows "t_served_by (d_trace d) = Some ServedDuckDB \<and>
    (\<exists>t r''. \<forall>ps' conn' v. route E r' sql' ps' conn' v = (Inr (no_result t), r'', v))"
proof -
  from route_diverged [OF assms(1,2)] obtain key b where
    kb: "normalize_sql (lang E) sql = Some key" "reg_match (registry r) key = Some b"
      "template_id b \<in> quarantined (registry r')" "t_served_by (d_trace d) = Some ServedDuckDB" .
  note reg = route_registry [OF assms(1)]
  have none: "reg_match (registry r') key = None"
    by (rule reg_match_quarantined [OF reg(2) kb(2,3)])
  have nk: "normalize_sql (lang E) sql' = Some key" using assms(3) kb(1) by simp
  have "\<exists>t r''. \<forall>ps' conn' v. route E r' sql' ps' conn' v = (Inr (no_result t), r'', v)"
  proof (cases "\<not> routing_active (policy r') \<or> reg_len (registry r') = 0")
    case True
    then show ?thesis by (auto simp: route_def Let_def)
  next
    case False
    with nk none show ?thesis by (auto simp: route_def Let_def fallback_def)
  qed
  with kb(4) show ?thesis ..
qed

theorem divergence_sidelines_witness:
  "\<exists>d r' t r''. route (demo_outside (Inr (ints_table [1], Some (Num (Fin 2)))) (Inr (ints_table [3], Num (Fin 6))))
       demo_router ''select'' NoParams True () = (Inr d, r', ()) \<and>
     route (demo_outside (Inr (ints_table [1], Some (Num (Fin 2)))) (Inr (ints_table [3], Num (Fin 6))))
       r' ''select 2'' NoParams True () = (Inr (no_result t), r'', ())"
proof -
  let ?E = "demo_outside (Inr (ints_table [1], Some (Num (Fin 2)))) (Inr (ints_table [3], Num (Fin 6)))"
  obtain d r' where o: "route ?E demo_router ''select'' NoParams True () = (Inr d, r', ())"
      "t_results_match (d_trace d) = Some False"
    using demo_diverged by blast
  have n: "normalize_sql (lang ?E) ''select 2'' = normalize_sql (lang ?E) ''select''" by code_simp
  from divergence_sidelines [OF o n] obtain t r'' where
    "\<forall>ps' conn' v. route ?E r' ''select 2'' ps' conn' v = (Inr (no_result t), r'', v)" by blast
  then have "route ?E r' ''select 2'' NoParams True () = (Inr (no_result t), r'', ())" by blast
  with o(1) show ?thesis by (intro exI conjI)
qed

section \<open>The circuit breaker\<close>

lemma record_failure_step:
  "get_count (failures (record_failure b r)) (template_id b) = get_count (failures r) (template_id b) + 1"
  "template_id b \<in> quarantined (registry (record_failure b r)) \<longleftrightarrow>
     template_id b \<in> quarantined (registry r) \<or>
     breaker_threshold (policy r) \<le> int (get_count (failures r) (template_id b) + 1)"
  by (auto simp: record_failure_def Let_def get_count_def router_frame reg_quarantine_def reg_is_quarantined_def)

lemma failures_iterate:
  "get_count (failures ((record_failure b ^^ n) r)) (template_id b) = get_count (failures r) (template_id b) + n"
  "policy ((record_failure b ^^ n) r) = policy r"
  by (induction n) (simp_all add: record_failure_step router_frame)

text \<open>
  The breaker trips exactly at its threshold: after a success and then \<open>n > 0\<close> consecutive
  failures the template is quarantined iff it already was or \<open>n\<close> reaches \<open>breaker_threshold\<close>.
\<close>

theorem breaker_exact:
  assumes "0 < n"
  shows "template_id b \<in> quarantined (registry ((record_failure b ^^ n) (record_success b r))) \<longleftrightarrow>
    template_id b \<in> quarantined (registry r) \<or> breaker_threshold (policy r) \<le> int n"
  using assms
proof (induction n)
  case (Suc n)
  have zero: "get_count (failures (record_success b r)) (template_id b) = 0"
    by (simp add: record_success_def get_count_def)
  show ?case
  proof (cases n)
    case 0
    then show ?thesis using zero by (simp add: record_failure_step router_frame)
  next
    case (Suc k)
    then show ?thesis
      using Suc.IH failures_iterate [where n = n and b = b and r = "record_success b r"] zero
      by (auto simp: record_failure_step router_frame)
  qed
qed simp

theorem breaker_exact_witness:
  "''T'' \<in> quarantined (registry ((record_failure demo_engine ^^ 3) (record_success demo_engine demo_router))) \<and>
   ''T'' \<notin> quarantined (registry ((record_failure demo_engine ^^ 2) (record_success demo_engine demo_router)))"
proof -
  have id: "template_id demo_engine = ''T''" by (simp add: demo_engine_def demo_binding_def)
  have r: "breaker_threshold (policy demo_router) = 3" "quarantined (registry demo_router) = {}"
    by (simp_all add: demo_router_def new_router_def default_policy_def reg_defs empty_registry_def)
  from breaker_exact [of 3 demo_engine demo_router] breaker_exact [of 2 demo_engine demo_router]
  show ?thesis by (simp only: id r) simp
qed

section \<open>Accounting\<close>

definition accounted :: "router \<Rightarrow> route_decision \<Rightarrow> router \<Rightarrow> bool" where
  "accounted r d r' \<longleftrightarrow>
     (let t = d_trace d; a = counts r; c = counts r';
          engine = d_routed d \<and> t_served_by t = Some ServedEngine
      in c_routed c = c_routed a + (if engine then 1 else 0) \<and>
         c_fell_back c = c_fell_back a + (if d_routed d then 0 else 1) \<and>
         c_cross_checked c = c_cross_checked a + (if d_routed d \<and> t_cross_checked t then 1 else 0) \<and>
         c_mismatch c = c_mismatch a + (if t_results_match t = Some False then 1 else 0) \<and>
         c_blocked_writes c = c_blocked_writes a)"

lemma accounted_counts:
  "accounted r d r' \<Longrightarrow> c_routed (counts r0) = c_routed (counts r) \<Longrightarrow> c_fell_back (counts r0) = c_fell_back (counts r) \<Longrightarrow>
   c_cross_checked (counts r0) = c_cross_checked (counts r) \<Longrightarrow> c_mismatch (counts r0) = c_mismatch (counts r) \<Longrightarrow>
   c_blocked_writes (counts r0) = c_blocked_writes (counts r) \<Longrightarrow> accounted r0 d r'"
  by (simp add: accounted_def Let_def)

lemma accounted_fallback:
  "fallback t reason must r w = (Inr d, r', w') \<Longrightarrow> t_results_match t \<noteq> Some False \<Longrightarrow> accounted r d r'"
  by (auto simp: fallback_def Let_def no_result_def accounted_def router_frame tally_def fell_back_def
      split: if_splits)

lemma accounted_reference:
  "serve_reference t ref b r w = (Inr d, r', w') \<Longrightarrow> t_decision t = Bespoke \<Longrightarrow> t_cross_checked t \<Longrightarrow>
   accounted r d r'"
  by (auto simp: serve_reference_def Let_def accounted_def router_frame tally_def tally_check_def)

lemma accounted_engine:
  "serve_engine t table b r w = (Inr d, r', w') \<Longrightarrow> t_decision t = Bespoke \<Longrightarrow>
   t_results_match t \<noteq> Some False \<Longrightarrow> accounted r d r'"
  by (auto simp: serve_engine_def Let_def accounted_def router_frame tally_def tally_check_def)

lemma check_error_counts:
  "c_routed (counts (count_check_error r)) = c_routed (counts r)"
  "c_fell_back (counts (count_check_error r)) = c_fell_back (counts r)"
  "c_cross_checked (counts (count_check_error r)) = c_cross_checked (counts r)"
  "c_mismatch (counts (count_check_error r)) = c_mismatch (counts r)"
  "c_blocked_writes (counts (count_check_error r)) = c_blocked_writes (counts r)"
  by (simp_all add: count_check_error_def)

lemma accounted_compare:
  assumes "compare_and_serve E sql b table ref t r w = (Inr d, r', w')"
    and "t_decision t = Bespoke" "t_cross_checked t" "t_results_match t = None"
  shows "accounted r d r'"
proof (cases "verdict E sql table ref")
  case (Inl exc)
  define t1 where "t1 = add_guard (''cross_check'', False, ''cross-check comparison error: '' @ exc_repr E exc) t"
  define r1 where "r1 = record_failure b (add_log (ComparisonFailed (template_id b) exc) (count_check_error r))"
  have "serve_reference t1 ref b r1 w = (Inr d, r', w')"
    using assms(1) Inl by (simp add: compare_and_serve_def Let_def t1_def r1_def)
  then have "accounted r1 d r'"
    by (rule accounted_reference) (simp_all add: t1_def add_guard_def assms)
  then show ?thesis by (rule accounted_counts) (simp_all add: r1_def router_frame check_error_counts)
next
  case (Inr ok)
  show ?thesis
  proof (cases ok)
    case True
    then show ?thesis using assms Inr
      by (auto simp: compare_and_serve_def Let_def elim!: accounted_engine)
  next
    case False
    with assms(1) Inr obtain ds n msg where
      "serve_reference (add_guard (''cross_check'', False, msg) (t\<lparr>t_results_match := Some False\<rparr>)) ref b
         ((add_log (Diverged ds n) r)\<lparr>registry := reg_quarantine (template_id b) (registry (add_log (Diverged ds n) r))\<rparr>) w
       = (Inr d, r', w')"
      by (auto simp: compare_and_serve_def Let_def split: sum.splits prod.splits)
    then have "accounted ((add_log (Diverged ds n) r)
        \<lparr>registry := reg_quarantine (template_id b) (registry (add_log (Diverged ds n) r))\<rparr>) d r'"
      by (rule accounted_reference) (simp_all add: add_guard_def assms)
    then show ?thesis by (rule accounted_counts) (simp_all add: router_frame)
  qed
qed

lemma accounted_cross_check:
  assumes "cross_check E sql ps b table t r w = (Inr d, r', w')"
    and "t_decision t = Bespoke" "t_results_match t = None"
  shows "accounted r d r'"
proof -
  obtain res w1 where k: "duck E sql ps w = (res, w1)" by (metis surj_pair)
  show ?thesis
  proof (cases res)
    case (Inl exc)
    then have "fallback t (''cross-check reference error: '' @ exc_repr E exc) True
        (add_log (ReferenceFailed (template_id b) exc) (count_check_error r)) w1 = (Inr d, r', w')"
      using assms(1) k by (simp add: cross_check_def)
    then have "accounted (add_log (ReferenceFailed (template_id b) exc) (count_check_error r)) d r'"
      by (rule accounted_fallback) (simp add: assms)
    then show ?thesis by (rule accounted_counts) (simp_all add: router_frame check_error_counts)
  next
    case (Inr p)
    obtain ref ms where p: "p = (ref, ms)" by (cases p)
    define t1 where "t1 = t\<lparr>t_duckdb_ms := Some ms, t_cross_checked := True\<rparr>"
    obtain tm where "compare_and_serve E sql b table ref t1 (r\<lparr>template_timing := tm\<rparr>) w1 = (Inr d, r', w')"
      using assms(1) k Inr p
      by (cases "truthy_ms (t_bespoke_ms t1) \<and> truthy_ms (t_duckdb_ms t1)")
        (auto simp: cross_check_def Let_def t1_def intro: that [of "template_timing r"] that)
    then have "accounted (r\<lparr>template_timing := tm\<rparr>) d r'"
      by (rule accounted_compare) (simp_all add: t1_def assms)
    then show ?thesis by (rule accounted_counts) simp_all
  qed
qed

lemma accounted_execute:
  assumes "execute_engine E sql ps conn b bound t r w = (Inr d, r', w')" "t_results_match t = None"
  shows "accounted r d r'"
proof -
  obtain start w1 where c: "clock E w = (start, w1)" by (metis surj_pair)
  obtain res w2 where k: "engine_call E b bound w1 = (res, w2)" by (metis surj_pair)
  show ?thesis
  proof (cases res)
    case (Inl exc)
    then obtain lvl where "fallback t (''engine error: '' @ exc_repr E exc) True
       (record_failure b (add_log (EngineFault lvl (template_id b) exc) r)) w2 = (Inr d, r', w')"
      using assms(1) c k by (auto simp: execute_engine_def Let_def)
    then have "accounted (record_failure b (add_log (EngineFault lvl (template_id b) exc) r)) d r'"
      by (rule accounted_fallback) (simp add: assms)
    then show ?thesis by (rule accounted_counts) (simp_all add: router_frame)
  next
    case (Inr p)
    obtain table s where p: "p = (table, s)" by (cases p)
    obtain ms check w4 where
      "(if check \<and> conn then cross_check E sql ps b table
             (routed_to (template_id b) (t\<lparr>t_bespoke_ms := Some ms\<rparr>)) (count_execution b r) w4
        else serve_engine (routed_to (template_id b) (t\<lparr>t_bespoke_ms := Some ms\<rparr>)) table b (count_execution b r) w4)
       = (Inr d, r', w')"
      using assms(1) c k Inr p by (auto simp: execute_engine_def Let_def split: prod.splits)
    then have "accounted (count_execution b r) d r'"
      by (auto simp: routed_to_def assms(2) split: if_splits elim!: accounted_cross_check accounted_engine)
    then show ?thesis by (rule accounted_counts) (simp_all add: router_frame)
  qed
qed

text \<open>
  The counters account for every decision: a routed engine answer, a fallback and a
  cross-check are each counted once, a served DuckDB reference is not counted as routed, and the
  mismatch counter moves exactly on a negative verdict.
\<close>

theorem route_accounted:
  assumes "route E r sql ps conn w = (Inr d, r', w')"
  shows "accounted r d r'"
proof -
  have fb: "accounted r d r'" if "fallback (new_trace sql) reason must r w = (Inr d, r', w')" for reason must
    using that by (rule accounted_fallback) (simp add: new_trace_def)
  have m: "accounted r d r'" if "route_matched E sql ps conn b (new_trace sql) r w = (Inr d, r', w')" for b
  proof -
    obtain ok rs w1 where ev: "evaluate E \<lparr>g_sql = sql, g_binding = b, g_conn = conn,
        g_registry = registry r, g_params = ps\<rparr> w = ((ok, rs), w1)" by (metis surj_pair)
    have "t_results_match (fold add_guard rs (new_trace sql)) = None"
      by (simp add: fold_add_guard new_trace_def)
    then show ?thesis using that ev
      by (auto simp: route_matched_def Let_def split: if_splits option.splits
          elim!: accounted_execute accounted_fallback)
  qed
  have z: "accounted r (no_result (fell_back x (new_trace sql))) (finish (fell_back x (new_trace sql)) r)" for x
    by (simp add: accounted_def Let_def no_result_def fell_back_def new_trace_def router_frame tally_def)
  show ?thesis using assms z
    by (auto simp: route_def Let_def split: if_splits option.splits intro: fb m)
qed

theorem route_accounted_witness:
  "\<exists>d r'. route (demo_outside (Inr (ints_table [1], Some (Num (Fin 2)))) (Inr (ints_table [3], Num (Fin 6))))
       demo_router ''select'' NoParams True () = (Inr d, r', ()) \<and>
     c_mismatch (counts r') = c_mismatch (counts demo_router) + 1"
proof -
  from demo_diverged obtain d r' where
    o: "route (demo_outside (Inr (ints_table [1], Some (Num (Fin 2)))) (Inr (ints_table [3], Num (Fin 6))))
       demo_router ''select'' NoParams True () = (Inr d, r', ())" "t_results_match (d_trace d) = Some False"
    by blast
  from route_accounted [OF o(1)] o(2) have "c_mismatch (counts r') = c_mismatch (counts demo_router) + 1"
    by (simp add: accounted_def Let_def)
  with o(1) show ?thesis by (intro exI conjI)
qed

end
