(* ===== verification/Router_Session.thy ===== *)
theory Router_Session
  imports Query_Router
begin

text \<open>
  The router over a whole session: the step relation of the calls a connection makes on it, the
  invariants of the reachable states, and the agreement of the inspection \<open>why\<close> with \<open>route\<close>.
\<close>

section \<open>Steps\<close>

text \<open>
  One rule per call that changes the router: a query, a registration, a withdrawal, tables marked
  dirty or clean, a refused write. \<open>reset_quarantine\<close> is an operator's step of its own.
\<close>

inductive session_step :: "'w outside \<Rightarrow> router \<times> 'w \<Rightarrow> router \<times> 'w \<Rightarrow> bool" for E where
  query: "route E r sql ps conn w = (res, r', w') \<Longrightarrow> session_step E (r, w) (r', w')"
| register: "session_step E (r, w) (r\<lparr>registry := reg_register b (registry r)\<rparr>, w')"
| unregister: "session_step E (r, w) (r\<lparr>registry := reg_unregister k (registry r)\<rparr>, w')"
| mark_dirty: "session_step E (r, w) (r\<lparr>registry := reg_mark_dirty ts (registry r)\<rparr>, w')"
| clear_dirty: "session_step E (r, w) (r\<lparr>registry := reg_clear_dirty cs (registry r)\<rparr>, w')"
| blocked_write: "session_step E (r, w) (note_blocked_write r, w')"

inductive_cases session_stepE: "session_step E (r, w) s"

inductive session_reaches :: "'w outside \<Rightarrow> router \<times> 'w \<Rightarrow> router \<times> 'w \<Rightarrow> bool" for E where
  here: "session_reaches E s s"
| step: "session_reaches E s t \<Longrightarrow> session_step E t u \<Longrightarrow> session_reaches E s u"

section \<open>Quarantine is never lifted by the session\<close>

lemma step_quarantined:
  "session_step E (r, w) (r', w') \<Longrightarrow> quarantined (registry r) \<subseteq> quarantined (registry r')"
proof (erule session_stepE, goal_cases)
  case (1 sql ps conn res r2 w2)
  then show ?case using route_registry(2) [of E r sql ps conn w res r' w'] by (simp add: registry_grows_def)
qed (auto simp: reg_defs note_blocked_write_def split: option.splits)

lemma reaches_quarantined:
  "session_reaches E s t \<Longrightarrow> quarantined (registry (fst s)) \<subseteq> quarantined (registry (fst t))"
proof (induction rule: session_reaches.induct)
  case (step s t u)
  then show ?case using step_quarantined [of E "fst t" "snd t" "fst u" "snd u"] by auto
qed simp

text \<open>A routed decision names the matched binding, which is not sidelined.\<close>

lemma execute_template:
  "execute_engine E sql ps conn b bound t r w = (Inr d, r', w') \<Longrightarrow> d_routed d \<Longrightarrow>
   t_template (d_trace d) = Some (template_id b)"
  by (auto simp: execute_engine_def cross_check_def compare_and_serve_def serve_reference_def
      serve_engine_def fallback_def no_result_def Let_def add_guard_def routed_to_def
      split: prod.splits sum.splits if_splits option.splits)

lemma route_template:
  assumes "route E r sql ps conn w = (Inr d, r', w')" "d_routed d"
  obtains key b where "normalize_sql (lang E) sql = Some key" "reg_match (registry r) key = Some b"
    "t_template (d_trace d) = Some (template_id b)"
proof -
  from assms obtain key b where kb: "normalize_sql (lang E) sql = Some key" "reg_match (registry r) key = Some b"
    and m: "route_matched E sql ps conn b (new_trace sql) r w = (Inr d, r', w')"
    by (auto simp: route_def Let_def no_result_def fallback_def split: if_splits option.splits)
  from m assms(2) have "t_template (d_trace d) = Some (template_id b)"
    by (auto simp: route_matched_def Let_def fallback_def no_result_def split: prod.splits if_splits option.splits
        elim!: execute_template)
  with kb show ?thesis by (rule that)
qed


definition sidelined_router :: router where
  "sidelined_router = demo_router\<lparr>registry := reg_quarantine ''other'' (registry demo_router)\<rparr>"

definition reregistered_router :: router where
  "reregistered_router =
     sidelined_router\<lparr>registry := reg_register demo_engine (registry sidelined_router)\<rparr>"


section \<open>Invariants of a session\<close>

text \<open>
  The breakdown of the fallback reasons adds up to the fallback counter, no more mismatches than
  cross-checks are counted, and the registry stays well formed.
\<close>

definition reasons_total :: "router \<Rightarrow> nat" where
  "reasons_total r = (\<Sum>k \<in> dom (fallback_reasons r). get_count (fallback_reasons r) k)"

definition session_inv :: "router \<Rightarrow> bool" where
  "session_inv r \<longleftrightarrow> registry_inv (registry r) \<and> finite (dom (fallback_reasons r)) \<and>
     reasons_total r = c_fell_back (counts r) \<and> c_mismatch (counts r) \<le> c_cross_checked (counts r)"

text \<open>The bookkeeping that touches these counters.\<close>

definition books_ok :: "router \<Rightarrow> bool" where
  "books_ok r \<longleftrightarrow> finite (dom (fallback_reasons r)) \<and> reasons_total r = c_fell_back (counts r) \<and>
     c_mismatch (counts r) \<le> c_cross_checked (counts r)"

lemma books_cong:
  "fallback_reasons a = fallback_reasons b \<Longrightarrow> c_fell_back (counts a) = c_fell_back (counts b) \<Longrightarrow>
   c_mismatch (counts a) = c_mismatch (counts b) \<Longrightarrow> c_cross_checked (counts a) = c_cross_checked (counts b) \<Longrightarrow>
   books_ok a = books_ok b"
  by (simp add: books_ok_def reasons_total_def)

lemma sum_bump:
  assumes "finite (dom m)"
  shows "(\<Sum>k \<in> dom (m(x \<mapsto> get_count m x + 1)). get_count (m(x \<mapsto> get_count m x + 1)) k) =
    (\<Sum>k \<in> dom m. get_count m k) + 1"
proof (cases "x \<in> dom m")
  case True
  then have d: "dom (m(x \<mapsto> get_count m x + 1)) = dom m" by auto
  have "(\<Sum>k \<in> dom m. get_count (m(x \<mapsto> get_count m x + 1)) k) =
      (\<Sum>k \<in> dom m. get_count m k + (if k = x then 1 else 0))"
    by (rule sum.cong) (auto simp: get_count_def)
  also have "\<dots> = (\<Sum>k \<in> dom m. get_count m k) + 1"
    using assms True by (simp add: sum.distrib)
  finally show ?thesis by (simp only: d)
next
  case False
  have "(\<Sum>k \<in> dom m. get_count (m(x \<mapsto> get_count m x + 1)) k) = (\<Sum>k \<in> dom m. get_count m k)"
    using False by (intro sum.cong) (auto simp: get_count_def)
  moreover have "get_count m x = 0" using False by (simp add: get_count_def dom_def)
  moreover have "get_count (m(x \<mapsto> n)) x = n" for n by (simp add: get_count_def)
  moreover have "dom (m(x \<mapsto> n)) = insert x (dom m)" for n by simp
  ultimately show ?thesis using False assms by (simp only: sum.insert) simp
qed

lemma books_finish: "books_ok r \<Longrightarrow> books_ok (finish t r)"
proof -
  assume r: "books_ok r"
  have "books_ok (tally t r)"
  proof (cases "t_decision t")
    case Fallback
    with r sum_bump show ?thesis
      by (simp add: books_ok_def tally_def reasons_total_def)
  qed (use r in \<open>auto simp: books_ok_def tally_def tally_check_def reasons_total_def Let_def\<close>)
  then show ?thesis
    using books_cong [of "finish t r" "tally t r"] by (simp add: router_frame)
qed

lemma books_fallback: "books_ok r \<Longrightarrow> books_ok (fst (snd (fallback t reason must r w)))"
  using books_cong [of "emit x r" r for x] books_finish by (simp add: fallback_def Let_def router_frame)

lemma books_reference: "books_ok r \<Longrightarrow> books_ok (fst (snd (serve_reference t ref b r w)))"
  using books_finish by (simp add: serve_reference_def Let_def)

lemma books_engine: "books_ok r \<Longrightarrow> books_ok (fst (snd (serve_engine t table b r w)))"
  using books_finish books_cong [of "record_success b r" r]
  by (simp add: serve_engine_def Let_def router_frame)

lemma books_failure: "books_ok (record_failure b r) = books_ok r"
  by (rule books_cong) (simp_all add: router_frame)

lemma books_log: "books_ok (add_log x r) = books_ok r"
  by (rule books_cong) (simp_all add: router_frame)

lemma books_error: "books_ok (count_check_error r) = books_ok r"
  by (rule books_cong) (simp_all add: router_frame check_error_counts)

lemma books_execution: "books_ok (count_execution b r) = books_ok r"
  by (rule books_cong) (simp_all add: router_frame)

lemma books_registry: "books_ok (r\<lparr>registry := g\<rparr>) = books_ok r"
  by (rule books_cong) simp_all

lemma books_timing: "books_ok (r\<lparr>template_timing := g\<rparr>) = books_ok r"
  by (rule books_cong) simp_all

lemmas books = books_failure books_log books_error books_execution books_registry books_timing

lemma books_compare: "books_ok r \<Longrightarrow> books_ok (fst (snd (compare_and_serve E sql b table ref t r w)))"
  by (auto simp: compare_and_serve_def Let_def books split: sum.splits prod.splits
      intro!: books_reference books_engine)

lemma books_cross_check: "books_ok r \<Longrightarrow> books_ok (fst (snd (cross_check E sql ps b table t r w)))"
  by (auto simp: cross_check_def Let_def books split: sum.splits prod.splits
      intro!: books_fallback books_compare)

lemma books_execute: "books_ok r \<Longrightarrow> books_ok (fst (snd (execute_engine E sql ps conn b bound t r w)))"
  by (auto simp: execute_engine_def Let_def books split: sum.splits prod.splits option.splits
      intro!: books_fallback books_cross_check books_engine)

lemma books_matched: "books_ok r \<Longrightarrow> books_ok (fst (snd (route_matched E sql ps conn b t r w)))"
  by (auto simp: route_matched_def Let_def split: prod.splits option.splits
      intro!: books_fallback books_execute)

lemma books_route: "books_ok r \<Longrightarrow> books_ok (fst (snd (route E r sql ps conn w)))"
  by (auto simp: route_def Let_def split: option.splits
      intro!: books_fallback books_matched books_finish)

lemma registry_inv_grows: "registry_grows a b \<Longrightarrow> registry_inv a \<Longrightarrow> registry_inv b"
  by (auto simp: registry_grows_def registry_inv_def)

lemma session_inv_books: "session_inv r \<longleftrightarrow> registry_inv (registry r) \<and> books_ok r"
  by (auto simp: session_inv_def books_ok_def)

lemma step_inv:
  "session_step E (r, w) (r', w') \<Longrightarrow> session_inv r \<Longrightarrow> session_inv r'"
proof (erule session_stepE, goal_cases)
  case (1 sql ps conn res r2 w2)
  then have "route E r sql ps conn w = (res, r', w')" by simp
  then show ?case
    using 1(1) route_registry(2) [of E r sql ps conn w res r' w'] registry_inv_grows
      books_route [of r E sql ps conn w] by (auto simp: session_inv_books)
next
  case (2 b)
  then show ?case using registry_step_inv [of "registry r" "Register b"] by (simp add: session_inv_books books)
next
  case (3 k)
  then show ?case using registry_step_inv [of "registry r" "Unregister k"] by (simp add: session_inv_books books)
next
  case (4 ts)
  then show ?case using registry_step_inv [of "registry r" "MarkDirty ts"] by (simp add: session_inv_books books)
next
  case (5 cs)
  then show ?case using registry_step_inv [of "registry r" "ClearDirty cs"] by (simp add: session_inv_books books)
next
  case 6
  then have "books_ok (note_blocked_write r) = books_ok r"
    by (intro books_cong) (simp_all add: note_blocked_write_def)
  with 6 show ?case by (simp add: session_inv_books note_blocked_write_def)
qed

text \<open>
  Every state a session can reach from a fresh router keeps the books: the fallback reasons
  add up to the fallback counter, mismatches never exceed cross-checks, and the registry is well
  formed (one binding per key, lower-case dirty tables).
\<close>

theorem session_invariant:
  assumes "session_reaches E (new_router p None, w) (r, w')"
  shows "session_inv r"
proof -
  have start: "session_inv (new_router p None)"
    by (simp add: session_inv_def new_router_def registry_inv_empty reasons_total_def zero_counters_def)
  have "session_inv (fst s) \<Longrightarrow> session_inv (fst t)" if "session_reaches E s t" for s t
    using that
  proof (induction rule: session_reaches.induct)
    case (step s t u)
    then show ?case using step_inv [of E "fst t" "snd t" "fst u" "snd u"] by simp
  qed simp
  from this [OF assms] start show ?thesis by simp
qed

theorem session_invariant_witness:
  "session_inv (note_blocked_write (new_router None None))"
proof (rule session_invariant)
  show "session_reaches (demo_outside (Inl IndexError) (Inl IndexError)) (new_router None None, ())
      (note_blocked_write (new_router None None), ())"
    by (rule session_reaches.step [OF session_reaches.here session_step.blocked_write])
qed

section \<open>Inspection agrees with routing\<close>

text \<open>
  C33. \<open>why\<close> tells what \<open>route\<close> does: a would-route answer means the engine is called with the very
  placeholders it shows, and a would-fall-back answer means the query falls back for that reason
  (a quarantined template is reported as such, where \<open>route\<close> records no match). Both leave the
  outside world alike.
\<close>

theorem why_agrees:
  assumes "why_route E r sql ps conn w = (y, w1)" "mode (policy r) \<noteq> BESPOKE_ONLY"
  shows "(y_decision y = WouldRoute \<longrightarrow>
      (\<exists>b bound t. y_template y = Some (template_id b) \<and> y_placeholders y = Some bound \<and>
         route E r sql ps conn w = execute_engine E sql ps conn b bound t r w1)) \<and>
    (y_decision y = WouldFallBack \<longrightarrow>
      (\<exists>d r'. route E r sql ps conn w = (Inr d, r', w1) \<and> \<not> d_routed d \<and>
         (t_reason (d_trace d) = y_reason y \<or>
          y_reason y = quarantine_reason \<and> t_reason (d_trace d) = ''no template match'')))"
proof
  show "y_decision y = WouldRoute \<longrightarrow>
      (\<exists>b bound t. y_template y = Some (template_id b) \<and> y_placeholders y = Some bound \<and>
         route E r sql ps conn w = execute_engine E sql ps conn b bound t r w1)"
    using assms(1)
    by (auto simp: why_route_def route_def route_matched_def Let_def
        split: if_splits option.splits prod.splits) blast+
  show "y_decision y = WouldFallBack \<longrightarrow>
      (\<exists>d r'. route E r sql ps conn w = (Inr d, r', w1) \<and> \<not> d_routed d \<and>
         (t_reason (d_trace d) = y_reason y \<or>
          y_reason y = quarantine_reason \<and> t_reason (d_trace d) = ''no template match''))"
    using assms
    by (auto simp: why_route_def route_def route_matched_def Let_def fallback_def no_result_def fell_back_def
        split: if_splits option.splits prod.splits)
qed

theorem why_agrees_witness:
  "\<exists>b bound t. template_id b = ''T'' \<and>
    route (demo_outside (Inl IndexError) (Inl IndexError)) demo_router ''select'' NoParams True () =
    execute_engine (demo_outside (Inl IndexError) (Inl IndexError)) ''select'' NoParams True b bound t demo_router ()"
proof -
  let ?E = "demo_outside (Inl IndexError) (Inl IndexError)"
  obtain y where y: "why_route ?E demo_router ''select'' NoParams True () = (y, ())"
    by (metis (full_types) old.unit.exhaust surj_pair)
  have "y_decision (fst (why_route ?E demo_router ''select'' NoParams True ())) = WouldRoute"
    "y_template (fst (why_route ?E demo_router ''select'' NoParams True ())) = Some ''T''"
    by code_simp+
  then have d: "y_decision y = WouldRoute" "y_template y = Some ''T''" by (simp_all only: y fst_conv)
  have m: "mode (policy demo_router) \<noteq> BESPOKE_ONLY"
    by (simp add: demo_router_def new_router_def default_policy_def)
  from why_agrees [OF y m] d obtain b bound t where "template_id b = ''T''"
    "route ?E demo_router ''select'' NoParams True () =
      execute_engine ?E ''select'' NoParams True b bound t demo_router ()" by auto
  then show ?thesis by blast
qed


section \<open>A failing engine is retired\<close>

text \<open>The same statement routed \<open>n\<close> times.\<close>

definition route_times :: "'w outside \<Rightarrow> string \<Rightarrow> params \<Rightarrow> bool \<Rightarrow> nat \<Rightarrow> router \<times> 'w \<Rightarrow> router \<times> 'w" where
  "route_times E sql ps conn n = ((\<lambda>(r, w). snd (route E r sql ps conn w)) ^^ n)"

lemma route_times_Suc: "route_times E sql ps conn (Suc n) s =
   (\<lambda>(r, w). snd (route E r sql ps conn w)) (route_times E sql ps conn n s)"
  by (simp add: route_times_def)

text \<open>A template is stuck when its statements match, pass every guard and bind, but its engine raises.\<close>

definition stuck_template :: "'w outside \<Rightarrow> registry \<Rightarrow> string \<Rightarrow> params \<Rightarrow> bool \<Rightarrow> engine_binding \<Rightarrow> bool" where
  "stuck_template E reg sql ps conn b \<longleftrightarrow>
     (\<exists>key bound. normalize_sql (lang E) sql = Some key \<and> reg_match reg key = Some b \<and>
        bind_placeholders E b sql ps = Some bound \<and> (\<forall>w. \<exists>e w'. engine_call E b bound w = (Inl e, w'))) \<and>
     (\<forall>w. \<exists>rs w'. evaluate E \<lparr>g_sql = sql, g_binding = b, g_conn = conn, g_registry = reg, g_params = ps\<rparr> w = ((True, rs), w'))"

lemma stuck_step:
  assumes "stuck_template E (registry r) sql ps conn b" "routing_active (policy r)" "reg_len (registry r) \<noteq> 0"
    and "route E r sql ps conn w = (res, r', w')"
  shows "failures r' = (failures r)(template_id b \<mapsto> get_count (failures r) (template_id b) + 1) \<and> policy r' = policy r \<and>
    registry r' = (if breaker_threshold (policy r) \<le> int (get_count (failures r) (template_id b) + 1) \<and>
        \<not> reg_is_quarantined (registry r) (template_id b)
      then reg_quarantine (template_id b) (registry r) else registry r)"
proof -
  from assms(1) obtain key bound where k: "normalize_sql (lang E) sql = Some key" "reg_match (registry r) key = Some b"
    "bind_placeholders E b sql ps = Some bound" "\<And>w. \<exists>e w'. engine_call E b bound w = (Inl e, w')"
    unfolding stuck_template_def by blast
  obtain rs w1 where g: "evaluate E \<lparr>g_sql = sql, g_binding = b, g_conn = conn, g_registry = registry r, g_params = ps\<rparr> w = ((True, rs), w1)"
    using assms(1) unfolding stuck_template_def by blast
  obtain t0 w2 where c: "clock E w1 = (t0, w2)" by fastforce
  obtain e w3 where f: "engine_call E b bound w2 = (Inl e, w3)" using k(4) by blast
  from assms(4) show ?thesis
    using assms(2,3) k(1-3) g c f
    by (auto simp: route_def Let_def route_matched_def execute_engine_def fallback_def record_failure_def router_frame
        split: if_splits)
qed

text \<open>
  C9. A failing engine is retired: if a template's engine raises on every call (its statements match,
  pass the guards and bind), then after exactly \<open>breaker_threshold\<close> routed statements the template is
  quarantined, and until then every one of them still goes to the engine; DuckDB answers all of them.
\<close>

theorem failing_engine_retired:
  assumes "stuck_template E (registry r) sql ps conn b" "routing_active (policy r)" "reg_len (registry r) \<noteq> 0"
    and "failures r (template_id b) = None" "breaker_threshold (policy r) = int n" "0 < n"
    and "\<not> reg_is_quarantined (registry r) (template_id b)"
  shows "reg_is_quarantined (registry (fst (route_times E sql ps conn n (r, w)))) (template_id b) \<and>
    (\<forall>k < n. registry (fst (route_times E sql ps conn k (r, w))) = registry r)"
proof -
  have inv: "failures (fst s) (template_id b) = (if k = 0 then None else Some k) \<and> policy (fst s) = policy r \<and>
      registry (fst s) = (if k < n then registry r else reg_quarantine (template_id b) (registry r))"
    if "k \<le> n" "s = route_times E sql ps conn k (r, w)" for k s
    using that
  proof (induction k arbitrary: s)
    case 0
    then show ?case using assms(4,6) by (simp add: route_times_def)
  next
    case (Suc k)
    obtain r1 w1 where s1: "route_times E sql ps conn k (r, w) = (r1, w1)" by fastforce
    from Suc.IH [OF _ s1 [symmetric]] Suc.prems(1) have i: "failures r1 (template_id b) = (if k = 0 then None else Some k)"
      "policy r1 = policy r" "registry r1 = registry r" by simp_all
    obtain res r2 w2 where rt: "route E r1 sql ps conn w1 = (res, r2, w2)" by (rule prod_cases3)
    have "s = (r2, w2)" using Suc.prems(2) s1 rt by (simp add: route_times_Suc)
    moreover have "get_count (failures r1) (template_id b) = k" using i(1) by (simp add: get_count_def)
    ultimately show ?case
      using stuck_step [OF _ _ _ rt, of b] i assms Suc.prems(1) by auto
  qed
  from inv [OF _ refl, of n] have "reg_is_quarantined (registry (fst (route_times E sql ps conn n (r, w)))) (template_id b)"
    by (simp add: reg_is_quarantined_def reg_quarantine_def)
  moreover have "\<forall>k < n. registry (fst (route_times E sql ps conn k (r, w))) = registry r"
    using inv [OF _ refl] by simp
  ultimately show ?thesis ..
qed

theorem failing_engine_retired_witness:
  "reg_is_quarantined (registry (fst (route_times (demo_outside (Inl (RuntimeError ''crash'')) (Inr (ints_table [3], Num (Fin 6))))
     ''select'' NoParams True 3 (demo_router, ())))) ''T''"
proof -
  let ?E = "demo_outside (Inl (RuntimeError ''crash'')) (Inr (ints_table [3], Num (Fin 6)))"
  have unit_eff: "\<forall>w. \<exists>w'. f w = (x, w')" if "fst (f ()) = x" for f :: "unit \<Rightarrow> 'c \<times> unit" and x
    using that by (metis (full_types) old.unit.exhaust prod.collapse)
  have key: "normalize_sql (lang ?E) ''select'' = Some ''Select''" by code_simp
  have hit: "reg_match (registry demo_router) ''Select'' = Some demo_engine" by code_simp
  have bnd: "bind_placeholders ?E demo_engine ''select'' NoParams = Some []" by code_simp
  have "fst (evaluate ?E \<lparr>g_sql = ''select'', g_binding = demo_engine, g_conn = True, g_registry = registry demo_router, g_params = NoParams\<rparr> ()) =
     (True, [(''engine_ready_guard'', True, ''engine ready''), (''select_only_guard'', True, ''SELECT''),
          (''dirty_table_guard'', True, ''tables clean''), (''schema_match_guard'', True, ''schema matches''),
          (''placeholder_arity_guard'', True, ''constant template, exact statement match'')])" by code_simp
  note guards = unit_eff [of "evaluate ?E \<lparr>g_sql = ''select'', g_binding = demo_engine, g_conn = True, g_registry = registry demo_router, g_params = NoParams\<rparr>", OF this]
  have "fst (engine_call ?E demo_engine [] ()) = Inl (RuntimeError ''crash'')" by code_simp
  note call = unit_eff [of "engine_call ?E demo_engine []", OF this]
  have st: "stuck_template ?E (registry demo_router) ''select'' NoParams True demo_engine"
    unfolding stuck_template_def using key hit bnd guards call by blast
  have c: "routing_active (policy demo_router)" "reg_len (registry demo_router) \<noteq> 0"
    "failures demo_router (template_id demo_engine) = None" "breaker_threshold (policy demo_router) = int 3"
    "\<not> reg_is_quarantined (registry demo_router) (template_id demo_engine)" "template_id demo_engine = ''T''" by code_simp+
  from failing_engine_retired [OF st c(1-4) _ c(5)] show ?thesis unfolding c(6) by simp
qed

end
