(* ===== verification/Result_Cursor.thy ===== *)
theory Result_Cursor
  imports Result_Compare
begin

text \<open>
  The result object handed to the user (\<open>duckdb_compat/result.py\<close>): rows materialised once, a
  position consumed by the \<open>fetch*\<close> calls, and the egress methods that ignore the position. The
  abstract contract of a DB-API cursor is the locale \<open>row_cursor\<close>: its state is the list of rows not
  yet fetched. \<open>SynnoResult\<close> implements it.
\<close>

section \<open>The result\<close>

record synno_result =
  res_table :: arrow
  res_rows :: "row list"
  res_pos :: nat
  res_types :: "string list option"

definition new_result :: "arrow \<Rightarrow> string list option \<Rightarrow> synno_result" where
  "new_result t types = \<lparr>res_table = t, res_rows = rows_of t, res_pos = 0, res_types = types\<rparr>"

text \<open>\<open>arrow_types\<close> is \<open>[str(f.type) for f in table.schema]\<close>, which pyarrow computes.\<close>

definition result_description :: "(arrow \<Rightarrow> string list) \<Rightarrow> synno_result \<Rightarrow> (string \<times> string) list" where
  "result_description arrow_types r =
     (let names = column_names (res_table r) in
      zip names (case res_types r of
          Some ts \<Rightarrow> if length ts = length names then ts else arrow_types (res_table r)
        | None \<Rightarrow> arrow_types (res_table r)))"

definition result_columns :: "synno_result \<Rightarrow> string list" where
  "result_columns r = column_names (res_table r)"

definition result_len :: "synno_result \<Rightarrow> nat" where
  "result_len r = num_rows (res_table r)"

definition fetchone :: "synno_result \<Rightarrow> row option \<times> synno_result" where
  "fetchone r =
     (if length (res_rows r) \<le> res_pos r then (None, r)
      else (Some (res_rows r ! res_pos r), r\<lparr>res_pos := res_pos r + 1\<rparr>))"

definition fetchall :: "synno_result \<Rightarrow> row list \<times> synno_result" where
  "fetchall r = (drop (res_pos r) (res_rows r), r\<lparr>res_pos := length (res_rows r)\<rparr>)"

definition fetchmany :: "int \<Rightarrow> synno_result \<Rightarrow> row list \<times> synno_result" where
  "fetchmany n r =
     (if n < 0 then fetchall r
      else (let e = res_pos r + nat n in
        (drop (res_pos r) (take e (res_rows r)), r\<lparr>res_pos := min e (length (res_rows r))\<rparr>)))"

text \<open>The generator behind \<open>__iter__\<close>, run to its end.\<close>

function iterate_rows :: "synno_result \<Rightarrow> row list \<times> synno_result" where
  "iterate_rows r = (case fetchone r of
     (None, r') \<Rightarrow> ([], r')
   | (Some x, r') \<Rightarrow> (case iterate_rows r' of (xs, r'') \<Rightarrow> (x # xs, r'')))"
  by pat_completeness auto
termination
  by (relation "measure (\<lambda>r. length (res_rows r) - res_pos r)")
    (auto simp: fetchone_def split: if_splits)

declare iterate_rows.simps [simp del]

definition to_arrow_table :: "synno_result \<Rightarrow> arrow" where
  "to_arrow_table r = res_table r"

section \<open>The contract of a cursor\<close>

locale row_cursor =
  fixes one :: "'s \<Rightarrow> 'r option \<times> 's"
    and many :: "int \<Rightarrow> 's \<Rightarrow> 'r list \<times> 's"
    and all_rows :: "'s \<Rightarrow> 'r list \<times> 's"
    and rest :: "'s \<Rightarrow> 'r list"
  assumes one_rest: "one s = (x, s') \<Longrightarrow>
      (case x of None \<Rightarrow> rest s = [] \<and> rest s' = [] | Some r \<Rightarrow> rest s = r # rest s')"
    and many_rest: "0 \<le> n \<Longrightarrow> many n s = (xs, s') \<Longrightarrow>
      xs = take (nat n) (rest s) \<and> rest s' = drop (nat n) (rest s)"
    and many_neg: "n < 0 \<Longrightarrow> many n s = all_rows s"
    and all_rest: "all_rows s = (xs, s') \<Longrightarrow> xs = rest s \<and> rest s' = []"
begin

text \<open>Whatever is called, the rows delivered followed by the rows left are the rows there were.\<close>

lemma one_split: "one s = (x, s') \<Longrightarrow> (case x of None \<Rightarrow> [] | Some r \<Rightarrow> [r]) @ rest s' = rest s"
  using one_rest [of s x s'] by (simp split: option.splits)

lemma many_split: "many n s = (xs, s') \<Longrightarrow> xs @ rest s' = rest s"
proof (cases "n < 0")
  case True
  assume "many n s = (xs, s')"
  with many_neg [OF True] have "all_rows s = (xs, s')" by simp
  from all_rest [OF this] show ?thesis by simp
next
  case False
  assume "many n s = (xs, s')"
  from many_rest [OF _ this] False show ?thesis by simp
qed

lemma all_split: "all_rows s = (xs, s') \<Longrightarrow> xs @ rest s' = rest s"
  using all_rest [of s xs s'] by simp

lemma many_length: "many n s = (xs, s') \<Longrightarrow>
    length xs = (if n < 0 then length (rest s) else min (nat n) (length (rest s)))"
proof (cases "n < 0")
  case True
  assume "many n s = (xs, s')"
  with many_neg [OF True] have "all_rows s = (xs, s')" by simp
  from all_rest [OF this] True show ?thesis by simp
next
  case False
  assume "many n s = (xs, s')"
  from many_rest [OF _ this] False show ?thesis by (simp add: min.commute)
qed

lemma exhausted: "rest s = [] \<Longrightarrow> fst (one s) = None \<and> fst (many n s) = [] \<and> fst (all_rows s) = []"
proof -
  assume e: "rest s = []"
  obtain x s1 where o: "one s = (x, s1)" by (cases "one s")
  obtain xs s2 where m: "many n s = (xs, s2)" by (cases "many n s")
  obtain ys s3 where a: "all_rows s = (ys, s3)" by (cases "all_rows s")
  from one_split [OF o] many_split [OF m] all_split [OF a] e o m a show ?thesis
    by (cases x) simp_all
qed

end

definition rest_of :: "synno_result \<Rightarrow> row list" where
  "rest_of r = drop (res_pos r) (res_rows r)"

interpretation cursor: row_cursor fetchone fetchmany fetchall rest_of
proof
  show "case x of None \<Rightarrow> rest_of s = [] \<and> rest_of s' = [] | Some r \<Rightarrow> rest_of s = r # rest_of s'"
    if "fetchone s = (x, s')" for s x s'
    using that Cons_nth_drop_Suc [of "res_pos s" "res_rows s"]
    by (auto simp: fetchone_def rest_of_def split: if_splits)
  show "xs = take (nat n) (rest_of s) \<and> rest_of s' = drop (nat n) (rest_of s)"
    if "0 \<le> n" "fetchmany n s = (xs, s')" for n s xs s'
    using that by (auto simp: fetchmany_def rest_of_def Let_def drop_take min_def add.commute)
qed (auto simp: fetchmany_def fetchall_def rest_of_def)

section \<open>Sequences of fetches\<close>

datatype fetch = FetchOne | FetchMany int | FetchAll | Iterate

definition fetch_step :: "fetch \<Rightarrow> synno_result \<Rightarrow> row list \<times> synno_result" where
  "fetch_step f r = (case f of
     FetchOne \<Rightarrow> (case fetchone r of (x, r') \<Rightarrow> (case x of None \<Rightarrow> [] | Some row \<Rightarrow> [row], r'))
   | FetchMany n \<Rightarrow> fetchmany n r
   | FetchAll \<Rightarrow> fetchall r
   | Iterate \<Rightarrow> iterate_rows r)"

fun fetch_run :: "fetch list \<Rightarrow> synno_result \<Rightarrow> row list \<times> synno_result" where
  "fetch_run [] r = ([], r)"
| "fetch_run (f # fs) r = (case fetch_step f r of
     (xs, r1) \<Rightarrow> (case fetch_run fs r1 of (ys, r2) \<Rightarrow> (xs @ ys, r2)))"

definition fetch_size :: "fetch \<Rightarrow> nat option" where
  "fetch_size f = (case f of FetchOne \<Rightarrow> Some 1 | FetchMany n \<Rightarrow> if n < 0 then None else Some (nat n) | _ \<Rightarrow> None)"

lemma iterate_rest: "iterate_rows r = (xs, r') \<Longrightarrow> xs = rest_of r \<and> rest_of r' = []"
proof (induction r arbitrary: xs r' rule: iterate_rows.induct)
  case (1 r)
  obtain x r1 where o: "fetchone r = (x, r1)" by (cases "fetchone r")
  show ?case
  proof (cases x)
    case None
    with 1(2) o cursor.one_rest [OF o] show ?thesis by (subst (asm) iterate_rows.simps) simp
  next
    case (Some row)
    obtain ys r2 where i: "iterate_rows r1 = (ys, r2)" by (cases "iterate_rows r1")
    with 1(2) o Some have "xs = row # ys" "r' = r2" by (subst (asm) iterate_rows.simps; simp)+
    moreover from 1(1) [OF o [symmetric] Some i] have "ys = rest_of r1 \<and> rest_of r2 = []" .
    ultimately show ?thesis using cursor.one_rest [OF o] Some by simp
  qed
qed

text \<open>Iterating is \<open>fetchall\<close>.\<close>

lemma iterate_is_fetchall: "fst (iterate_rows r) = fst (fetchall r)"
  using iterate_rest [of r] by (cases "iterate_rows r") (simp add: fetchall_def rest_of_def)

lemma fetch_step_split: "fetch_step f r = (xs, r') \<Longrightarrow> xs @ rest_of r' = rest_of r"
proof (cases f)
  case FetchOne
  obtain x r1 where o: "fetchone r = (x, r1)" by (cases "fetchone r")
  moreover assume "fetch_step f r = (xs, r')"
  ultimately show ?thesis using cursor.one_split [OF o] FetchOne by (simp add: fetch_step_def)
qed (use cursor.many_split cursor.all_split iterate_rest in \<open>auto simp: fetch_step_def\<close>)

lemma fetch_step_size: "fetch_step f r = (xs, r') \<Longrightarrow>
   length xs = (case fetch_size f of None \<Rightarrow> length (rest_of r) | Some n \<Rightarrow> min n (length (rest_of r)))"
proof (cases f)
  case FetchOne
  moreover assume "fetch_step f r = (xs, r')"
  ultimately show ?thesis using cursor.one_rest [of r]
    by (cases "fetchone r") (force simp: fetch_step_def fetch_size_def split: option.splits)
next
  case (FetchMany n)
  moreover assume "fetch_step f r = (xs, r')"
  ultimately show ?thesis using cursor.many_length [of n r xs r']
    by (simp add: fetch_step_def fetch_size_def)
qed (use cursor.all_rest iterate_rest in \<open>auto simp: fetch_step_def fetch_size_def\<close>)

text \<open>
  C40. A result is delivered once, in order and completely, however it is fetched: any sequence of
  \<open>fetchone\<close>, \<open>fetchmany\<close>, \<open>fetchall\<close> and iteration on a fresh result yields a prefix of the table's
  rows, the next fetch gives exactly the rows it asks for or all that are left, and once all have
  been delivered every further fetch gives none.
\<close>

theorem fetches_deliver:
  assumes "fetch_run fs (new_result t types) = (xs, r)"
  shows "xs @ rest_of r = rows_of t \<and>
    length (fst (fetch_step f r)) =
      (case fetch_size f of None \<Rightarrow> length (rows_of t) - length xs
       | Some n \<Rightarrow> min n (length (rows_of t) - length xs))"
proof
  have "fetch_run fs s = (xs, r) \<Longrightarrow> xs @ rest_of r = rest_of s" for s xs r
  proof (induction fs arbitrary: s xs r)
    case (Cons g fs)
    then show ?case using fetch_step_split [of g s]
      by (fastforce split: prod.splits)
  qed simp
  from this [OF assms] show split: "xs @ rest_of r = rows_of t" by (simp add: rest_of_def new_result_def)
  then have "length (rest_of r) = length (rows_of t) - length xs"
    by (metis add_diff_cancel_left' length_append)
  then show "length (fst (fetch_step f r)) =
      (case fetch_size f of None \<Rightarrow> length (rows_of t) - length xs
       | Some n \<Rightarrow> min n (length (rows_of t) - length xs))"
    using fetch_step_size [of f r] by (metis prod.collapse)
qed

definition five_rows :: arrow where
  "five_rows = [(''n'', map PInt [1, 2, 3, 4, 5])]"

theorem fetches_deliver_witness:
  "\<exists>r. fetch_run [FetchOne, FetchMany 2] (new_result five_rows None) = ([[PInt 1], [PInt 2], [PInt 3]], r) \<and>
     [[PInt 1], [PInt 2], [PInt 3]] @ rest_of r = rows_of five_rows \<and>
     length (fst (fetch_step (FetchMany 9) r)) = 2"
proof -
  have "fst (fetch_run [FetchOne, FetchMany 2] (new_result five_rows None)) = [[PInt 1], [PInt 2], [PInt 3]]"
    by code_simp
  then obtain r where r: "fetch_run [FetchOne, FetchMany 2] (new_result five_rows None) =
      ([[PInt 1], [PInt 2], [PInt 3]], r)" by (metis prod.collapse)
  have "length (rows_of five_rows) = 5" by code_simp
  with fetches_deliver [OF r, of "FetchMany 9"] r show ?thesis by (simp add: fetch_size_def)
qed

end
