(* ===== verification/Engine_Wire.thy ===== *)
theory Engine_Wire
  imports Sql_Tree
begin

text \<open>
  The line a serving engine is fed (\<open>workloads/workload_provider.py\<close> and
  \<open>workloads/query_params.py\<close>): query id, request id and the rendered placeholder values. The text of
  floats and dates is the record \<open>py_fmt\<close>; the SHA-256 hex digest is a parameter.
\<close>

section \<open>Rendering\<close>

text \<open>\<open>format(d, "f")\<close> of a decimal: never scientific notation.\<close>

definition dec_fixed :: "int \<Rightarrow> int \<Rightarrow> string" where
  "dec_fixed c e =
     (let ds = str_nat (nat \<bar>c\<bar>); n = int (length ds); sign = (if c < 0 then ''-'' else '''')
      in if 0 \<le> e then (if c = 0 then ds else sign @ ds @ replicate (nat e) (CHR ''0''))
         else if 0 < n + e then sign @ take (nat (n + e)) ds @ ''.'' @ drop (nat (n + e)) ds
         else sign @ ''0.'' @ replicate (nat (- (n + e))) (CHR ''0'') @ ds)"

definition render_in_member :: "py_fmt \<Rightarrow> pyval \<Rightarrow> string" where
  "render_in_member F v = (case v of
     PDate d \<Rightarrow> ''date '' @ [CHR 0x27] @ drepr F d @ [CHR 0x27]
   | PDec c e \<Rightarrow> dec_fixed c e
   | PInt i \<Rightarrow> str_int i
   | PFloat a \<Rightarrow> frepr F a
   | _ \<Rightarrow> [CHR 0x27] @ py_replace_char (CHR 0x27) [CHR 0x27, CHR 0x27] (py_str (frepr F) (drepr F) v) @ [CHR 0x27])"

definition render_in_list :: "py_fmt \<Rightarrow> pyval list \<Rightarrow> string" where
  "render_in_list F vs = ''('' @ py_join '', '' (map (render_in_member F) vs) @ '')''"

definition render_value :: "py_fmt \<Rightarrow> pyval \<Rightarrow> string" where
  "render_value F v = (case v of
     PList vs \<Rightarrow> render_in_list F vs
   | PTuple vs \<Rightarrow> render_in_list F vs
   | PDate d \<Rightarrow> drepr F d
   | PDec c e \<Rightarrow> dec_fixed c e
   | PFloat a \<Rightarrow> frepr F a
   | _ \<Rightarrow> py_str (frepr F) (drepr F) v)"

text \<open>One placeholder value on the line; a string starting with a parenthesis is not quoted.\<close>

definition wire_value :: "py_fmt \<Rightarrow> pyval \<Rightarrow> string" where
  "wire_value F v =
     (let v' = (case v of PList vs \<Rightarrow> PStr (render_in_list F vs) | PTuple vs \<Rightarrow> PStr (render_in_list F vs) | _ \<Rightarrow> v)
      in case v' of
           PStr s \<Rightarrow> if py_startswith s ''('' then s else [CHR 0x22] @ s @ [CHR 0x22]
         | _ \<Rightarrow> [CHR 0x22] @ py_str (frepr F) (drepr F) v' @ [CHR 0x22])"

definition format_placeholder_values :: "py_fmt \<Rightarrow> (string \<times> pyval) list \<Rightarrow> string" where
  "format_placeholder_values F phs = py_join '' '' (map (wire_value F \<circ> snd) phs)"

definition gen_req_id ::
  "(string \<Rightarrow> string) \<Rightarrow> py_fmt \<Rightarrow> string \<Rightarrow> (string \<times> pyval) list \<Rightarrow> string option \<Rightarrow> string" where
  "gen_req_id sha F q phs disambiguator =
     ''req_'' @ q @ ''_'' @ take 12 (sha (py_join ''|''
        [q, format_placeholder_values F phs, case disambiguator of None \<Rightarrow> '''' | Some d \<Rightarrow> d]))"

definition format_sample_args :: "py_fmt \<Rightarrow> string \<Rightarrow> (string \<times> pyval) list \<Rightarrow> string" where
  "format_sample_args F q phs = q @ '' '' @ format_placeholder_values F phs"

definition format_args_element ::
  "(string \<Rightarrow> string) \<Rightarrow> py_fmt \<Rightarrow> string \<Rightarrow> (string \<times> pyval) list \<Rightarrow> string option \<Rightarrow> string" where
  "format_args_element sha F q phs disambiguator =
     q @ '' '' @ gen_req_id sha F q phs disambiguator @ '' '' @ format_placeholder_values F phs"

definition format_args_string ::
  "(string \<Rightarrow> string) \<Rightarrow> py_fmt \<Rightarrow> string list \<Rightarrow> (string \<times> pyval) list list \<Rightarrow> string list" where
  "format_args_string sha F qs ps = map (\<lambda>(q, p). format_args_element sha F q p None) (zip qs ps)"

section \<open>Reading the line back\<close>

text \<open>The quoted fields of a line: every second piece between quotes.\<close>

fun second_pieces :: "'a list \<Rightarrow> 'a list" where
  "second_pieces (x # y # zs) = y # second_pieces zs"
| "second_pieces _ = []"

definition quoted_fields :: "string \<Rightarrow> string list" where
  "quoted_fields s = second_pieces (py_split_char (CHR 0x22) s)"

text \<open>A value whose rendering is quoted and holds no quote of its own.\<close>

definition plain_value :: "py_fmt \<Rightarrow> pyval \<Rightarrow> bool" where
  "plain_value F v \<longleftrightarrow> (\<forall>vs. v \<noteq> PList vs \<and> v \<noteq> PTuple vs) \<and>
     CHR 0x22 \<notin> set (py_str (frepr F) (drepr F) v) \<and>
     (\<forall>s. v = PStr s \<longrightarrow> \<not> py_startswith s ''('')"

lemma wire_value_plain:
  "plain_value F v \<Longrightarrow> wire_value F v = CHR 0x22 # py_str (frepr F) (drepr F) v @ [CHR 0x22]"
  by (cases v) (auto simp: wire_value_def plain_value_def py_str_def)

lemma quoted_fields_line:
  "list_all (plain_value F) vs \<Longrightarrow>
   quoted_fields (py_join '' '' (map (wire_value F) vs)) = map (py_str (frepr F) (drepr F)) vs"
proof (induction vs rule: induct_list012)
  case 1
  then show ?case by (simp add: quoted_fields_def)
next
  case (2 v)
  then have q: "CHR 0x22 \<notin> set (py_str (frepr F) (drepr F) v)" by (simp add: plain_value_def)
  have "py_split_char (CHR 0x22) (wire_value F v) = [[], py_str (frepr F) (drepr F) v, []]"
    using 2 py_split_char_append_sep [OF q, of "[]"] by (simp add: wire_value_plain)
  then show ?case by (simp add: quoted_fields_def)
next
  case (3 v w vs)
  then have q: "CHR 0x22 \<notin> set (py_str (frepr F) (drepr F) v)" by (simp add: plain_value_def)
  obtain rest where r: "py_join '' '' (map (wire_value F) (w # vs)) = CHR 0x22 # rest"
    using 3(3) by (cases vs) (auto simp: wire_value_plain)
  have "py_split_char (CHR 0x22) (py_join '' '' (map (wire_value F) (v # w # vs))) =
      [] # py_str (frepr F) (drepr F) v # ('' '' # py_split_char (CHR 0x22) rest)"
  proof -
    have "py_join '' '' (map (wire_value F) (v # w # vs)) =
        CHR 0x22 # py_str (frepr F) (drepr F) v @ CHR 0x22 # CHR '' '' # CHR 0x22 # rest"
      using 3(3) r by (simp add: wire_value_plain)
    then show ?thesis using py_split_char_append_sep [OF q] by simp
  qed
  moreover have "py_split_char (CHR 0x22) (py_join '' '' (map (wire_value F) (w # vs))) =
      [] # py_split_char (CHR 0x22) rest" by (simp only: r) simp
  ultimately show ?case using 3(2) [OF _] 3(3)
    by (cases "py_split_char (CHR 0x22) rest") (simp_all add: quoted_fields_def)
qed



text \<open>A value holding a quote is not escaped: it can pass for two values, request id included.\<close>

definition quote_pair :: string where
  "quote_pair = ''x'' @ [CHR 0x22, CHR '' '', CHR 0x22] @ ''y''"

lemma wire_ambiguous:
  "format_args_element sha F q [(''A'', PStr quote_pair)] d =
   format_args_element sha F q [(''A'', PStr ''x''), (''B'', PStr ''y'')] d"
  by (simp add: format_args_element_def gen_req_id_def format_placeholder_values_def wire_value_def
      py_startswith_def quote_pair_def)

end
