(* ===== verification/Py_Effects.thy ===== *)
theory Py_Effects
  imports Py_Values
begin

text \<open>
  Computations that may raise and that act on a state. A pure fallible computation is a sum
  (\<open>ebind\<close>, \<open>traverse_e\<close>); an effectful one maps a state to a sum and a new state (\<open>eff\<close>):
  \<open>bind_eff\<close> is sequencing, \<open>try_eff\<close> is \<open>try ... except Exception\<close>, \<open>finally_eff\<close> is
  \<open>try ... finally\<close>. A raise keeps the effects made before it, as in Python.
\<close>

section \<open>Fallible computations\<close>

definition ebind :: "'e + 'a \<Rightarrow> ('a \<Rightarrow> 'e + 'b) \<Rightarrow> 'e + 'b" where
  "ebind x f = (case x of Inl e \<Rightarrow> Inl e | Inr a \<Rightarrow> f a)"

fun traverse_e :: "('a \<Rightarrow> 'e + 'b) \<Rightarrow> 'a list \<Rightarrow> 'e + 'b list" where
  "traverse_e f [] = Inr []"
| "traverse_e f (x # xs) = ebind (f x) (\<lambda>y. ebind (traverse_e f xs) (\<lambda>ys. Inr (y # ys)))"

lemma ebind_simps [simp]: "ebind (Inr a) f = f a" "ebind (Inl e) f = Inl e"
  by (simp_all add: ebind_def)

lemma ebind_Inr_iff: "ebind x f = Inr b \<longleftrightarrow> (\<exists>a. x = Inr a \<and> f a = Inr b)"
  by (cases x) simp_all

lemma traverse_e_inverse:
  "(\<And>x. x \<in> set xs \<Longrightarrow> f (g x) = Inr x) \<Longrightarrow> traverse_e f (map g xs) = Inr xs"
  by (induction xs) simp_all

lemma traverse_e_Inr:
  "traverse_e f xs = Inr ys \<longleftrightarrow> list_all2 (\<lambda>x y. f x = Inr y) xs ys"
proof (induction xs arbitrary: ys)
  case (Cons x xs)
  then show ?case by (cases ys) (auto simp: ebind_Inr_iff)
qed auto

section \<open>Effects\<close>

type_synonym ('w, 'a) eff = "'w \<Rightarrow> (py_error + 'a) \<times> 'w"

definition return_eff :: "'a \<Rightarrow> 'w \<Rightarrow> ('e + 'a) \<times> 'w" where
  "return_eff a w = (Inr a, w)"

definition raise_eff :: "'e \<Rightarrow> 'w \<Rightarrow> ('e + 'a) \<times> 'w" where
  "raise_eff e w = (Inl e, w)"

definition bind_eff ::
  "('w \<Rightarrow> ('e + 'a) \<times> 'w) \<Rightarrow> ('a \<Rightarrow> 'w \<Rightarrow> ('e + 'b) \<times> 'w) \<Rightarrow> 'w \<Rightarrow> ('e + 'b) \<times> 'w"
where
  "bind_eff m f w = (case m w of (Inl e, w') \<Rightarrow> (Inl e, w') | (Inr a, w') \<Rightarrow> f a w')"

definition try_eff ::
  "('w \<Rightarrow> ('e + 'a) \<times> 'w) \<Rightarrow> ('e \<Rightarrow> 'w \<Rightarrow> ('d + 'a) \<times> 'w) \<Rightarrow> 'w \<Rightarrow> ('d + 'a) \<times> 'w"
where
  "try_eff m h w = (case m w of (Inl e, w') \<Rightarrow> h e w' | (Inr a, w') \<Rightarrow> (Inr a, w'))"

definition finally_eff ::
  "('w \<Rightarrow> ('e + 'a) \<times> 'w) \<Rightarrow> ('w \<Rightarrow> ('e + unit) \<times> 'w) \<Rightarrow> 'w \<Rightarrow> ('e + 'a) \<times> 'w"
where
  "finally_eff m c w = (case m w of (r, w') \<Rightarrow>
     (case c w' of (Inl e, w'') \<Rightarrow> (Inl e, w'') | (Inr u, w'') \<Rightarrow> (r, w'')))"

fun traverse_eff :: "('a \<Rightarrow> ('w, 'b) eff) \<Rightarrow> 'a list \<Rightarrow> ('w, 'b list) eff" where
  "traverse_eff f [] = return_eff []"
| "traverse_eff f (x # xs) = bind_eff (f x) (\<lambda>y. bind_eff (traverse_eff f xs) (\<lambda>ys. return_eff (y # ys)))"

named_theorems eff_simps \<open>unfolding effects at a state\<close>

lemma eff_at [eff_simps]:
  "return_eff a w = (Inr a, w)" "raise_eff e w = (Inl e, w)"
  "bind_eff m f w = (case m w of (Inl e, w') \<Rightarrow> (Inl e, w') | (Inr a, w') \<Rightarrow> f a w')"
  "try_eff m h w = (case m w of (Inl e, w') \<Rightarrow> h e w' | (Inr a, w') \<Rightarrow> (Inr a, w'))"
  by (simp_all add: return_eff_def raise_eff_def bind_eff_def try_eff_def)

text \<open>A read: a computation that leaves the state alone.\<close>

lemma traverse_eff_read:
  "(\<And>x. x \<in> set xs \<Longrightarrow> f x w = (Inr (g x), w)) \<Longrightarrow> traverse_eff f xs w = (Inr (map g xs), w)"
  by (induction xs) (simp_all add: eff_simps)

end
