(* ===== verification/Shm_Transport.thy ===== *)
theory Shm_Transport
  imports Result_Compare Py_Effects
begin

text \<open>
  The shared-memory data plane of \<open>router/shm_transport.py\<close>: segment names that carry their owner,
  the writer that owns segments, the sweeps that reclaim the segments of dead owners, the budget
  check and the staging of tables. A tmpfs directory is an association list from names to entries;
  Arrow's IPC codec and the operating system's process table are parameters.
\<close>

section \<open>Processes\<close>

text \<open>The outcome of \<open>os.kill(pid, 0)\<close>; a pid that is no C \<open>int\<close> raises \<open>OverflowError\<close> first.\<close>

datatype kill_result = Delivered | NoSuchProcess | NotPermitted

record process_table =
  kill0 :: "nat \<Rightarrow> kill_result"
  stat_text :: "nat \<Rightarrow> string option"

definition pid_alive :: "process_table \<Rightarrow> nat \<Rightarrow> py_error + bool" where
  "pid_alive P pid =
     (if 2 ^ 31 \<le> pid then Inl (OverflowError ''signed integer is greater than maximum'')
      else Inr (case kill0 P pid of NoSuchProcess \<Rightarrow> False | NotPermitted \<Rightarrow> True | Delivered \<Rightarrow> True))"

text \<open>The text after the last closing parenthesis, and field 22 of the stat line.\<close>

definition after_last_paren :: "string \<Rightarrow> string" where
  "after_last_paren s =
     (let back = takeWhile (\<lambda>c. c \<noteq> CHR '')'') (rev s) in
      if length back = length s then drop 1 s else drop 1 (rev back))"

definition proc_start_time :: "process_table \<Rightarrow> nat \<Rightarrow> string option" where
  "proc_start_time P pid = (case stat_text P pid of
     None \<Rightarrow> None
   | Some s \<Rightarrow> (let post = py_split_ws (after_last_paren s) in
       if 19 < length post then Some (post ! 19) else None))"

section \<open>Sweeping orphans\<close>

text \<open>Whether an ingest directory name belongs to a process that is gone; \<open>None\<close>: not ours.\<close>

definition ingest_orphan :: "process_table \<Rightarrow> string \<Rightarrow> string \<Rightarrow> py_error + bool" where
  "ingest_orphan P prefix name =
     (if \<not> py_startswith name prefix then Inr False
      else
        (let parts = py_split_char CHR ''-'' (drop (length prefix) name);
             pid_str = hd parts;
             tagged = (if 1 < length parts then Some (parts ! 1) else None)
         in if \<not> py_isdigit pid_str then Inr False
            else
              (let pid = the (digits_us pid_str) in
               ebind (pid_alive P pid) (\<lambda>alive.
                 Inr (\<not> (alive \<and> (tagged = None \<or> proc_start_time P pid = None
                   \<or> proc_start_time P pid = tagged)))))))"

definition segment_prefix :: string where
  "segment_prefix = ''synnodb-''"

definition segment_orphan :: "process_table \<Rightarrow> string \<Rightarrow> py_error + bool" where
  "segment_orphan P name =
     (if \<not> py_startswith name segment_prefix then Inr False
      else
        (let pid_str = hd (py_split_char CHR ''-'' (drop (length segment_prefix) name))
         in if \<not> py_isdigit pid_str then Inr False
            else ebind (pid_alive P (the (digits_us pid_str))) (\<lambda>alive. Inr (\<not> alive))))"

text \<open>
  Both sweeps walk the directory, delete the orphans and count them; an error leaves the entries
  already deleted deleted. A directory that cannot be listed is \<open>None\<close>.
\<close>

fun sweep :: "(string \<Rightarrow> py_error + bool) \<Rightarrow> (string \<times> 'a) list \<Rightarrow> (py_error + nat) \<times> (string \<times> 'a) list" where
  "sweep orphan [] = (Inr 0, [])"
| "sweep orphan ((n, x) # es) = (case orphan n of
     Inl e \<Rightarrow> (Inl e, (n, x) # es)
   | Inr True \<Rightarrow> (case sweep orphan es of (r, es') \<Rightarrow> (map_sum id Suc r, es'))
   | Inr False \<Rightarrow> (case sweep orphan es of (r, es') \<Rightarrow> (r, (n, x) # es')))"

definition sweep_ingest_orphans ::
  "process_table \<Rightarrow> string \<Rightarrow> (string \<times> 'a) list option \<Rightarrow> (py_error + nat) \<times> (string \<times> 'a) list option"
where
  "sweep_ingest_orphans P prefix d = (case d of
     None \<Rightarrow> (Inr 0, None)
   | Some es \<Rightarrow> (case sweep (ingest_orphan P prefix) es of (r, es') \<Rightarrow> (r, Some es')))"

definition sweep_orphans ::
  "process_table \<Rightarrow> (string \<times> 'a) list option \<Rightarrow> (py_error + nat) \<times> (string \<times> 'a) list option"
where
  "sweep_orphans P d = (case d of
     None \<Rightarrow> (Inr 0, None)
   | Some es \<Rightarrow> (case sweep (segment_orphan P) es of (r, es') \<Rightarrow> (r, Some es')))"

section \<open>The budget\<close>

definition check_shm_budget :: "nat \<Rightarrow> nat \<Rightarrow> nat \<Rightarrow> bool \<times> nat \<times> nat" where
  "check_shm_budget disk_size free needed =
     (let reserve = max (64 * 1024 * 1024) (disk_size div 20)
      in (needed + reserve \<le> free, free, reserve))"

section \<open>Segments\<close>

text \<open>
  Writing a table as Arrow IPC can fail when the file is opened (nothing is created) or later (a
  partial file is left); a complete segment holds the table and its size in bytes.
\<close>

datatype ipc_outcome = Written nat | FailedOpen py_error | FailedWrite py_error

datatype segment = Complete arrow nat | Partial

type_synonym shm_dir = "(string \<times> segment) list"

definition write_ipc :: "(arrow \<Rightarrow> ipc_outcome) \<Rightarrow> string \<Rightarrow> arrow \<Rightarrow> shm_dir \<Rightarrow> (py_error + nat) \<times> shm_dir" where
  "write_ipc ipc name t d = (case ipc t of
     Written n \<Rightarrow> (Inr n, AList.update name (Complete t n) d)
   | FailedOpen e \<Rightarrow> (Inl e, d)
   | FailedWrite e \<Rightarrow> (Inl e, AList.update name Partial d))"

text \<open>
  Staging the tables of a database in its fresh ingest directory; on any failure the whole
  directory is removed (\<open>None\<close>) and the error propagates.
\<close>

fun write_segments ::
  "(arrow \<Rightarrow> ipc_outcome) \<Rightarrow> (string \<times> arrow) list \<Rightarrow> nat \<Rightarrow> shm_dir \<Rightarrow> (py_error + nat) \<times> shm_dir option"
where
  "write_segments ipc [] acc d = (Inr acc, Some d)"
| "write_segments ipc ((name, t) # ts) acc d = (case write_ipc ipc (name @ ''.arrow'') t d of
     (Inl e, d') \<Rightarrow> (Inl e, None)
   | (Inr n, d') \<Rightarrow> write_segments ipc ts (acc + n) d')"

definition write_arrow_segments ::
  "(arrow \<Rightarrow> ipc_outcome) \<Rightarrow> (string \<times> arrow) list \<Rightarrow> shm_dir \<Rightarrow> (py_error + nat) \<times> shm_dir option"
where
  "write_arrow_segments ipc tables d = write_segments ipc tables 0 d"

record segment_ref =
  ref_name :: string
  ref_nbytes :: nat

record shm_writer =
  w_owner :: nat
  w_counter :: nat
  w_segments :: "string list"

definition new_writer :: "nat \<Rightarrow> nat option \<Rightarrow> shm_writer" where
  "new_writer self owner_pid =
     \<lparr>w_owner = (case owner_pid of None \<Rightarrow> self | Some p \<Rightarrow> p), w_counter = 0, w_segments = []\<rparr>"

text \<open>The \<open>:06d\<close> format.\<close>

definition pad6 :: "nat \<Rightarrow> string" where
  "pad6 n = replicate (6 - length (str_nat n)) (CHR ''0'') @ str_nat n"

definition segment_name :: "nat \<Rightarrow> nat \<Rightarrow> string" where
  "segment_name owner k = segment_prefix @ str_nat owner @ ''-'' @ pad6 k @ ''.arrow''"

definition write_table ::
  "(arrow \<Rightarrow> ipc_outcome) \<Rightarrow> arrow \<Rightarrow> shm_writer \<times> shm_dir \<Rightarrow> (py_error + segment_ref) \<times> shm_writer \<times> shm_dir"
where
  "write_table ipc t s =
     (let w1 = (fst s)\<lparr>w_counter := w_counter (fst s) + 1\<rparr>;
          name = segment_name (w_owner w1) (w_counter w1)
      in case write_ipc ipc name t (snd s) of
           (Inl e, d') \<Rightarrow> (Inl e, w1, d')
         | (Inr n, d') \<Rightarrow>
             (Inr \<lparr>ref_name = name, ref_nbytes = n\<rparr>, w1\<lparr>w_segments := w_segments w1 @ [name]\<rparr>, d'))"

definition unlink_segment :: "segment_ref \<Rightarrow> shm_writer \<times> shm_dir \<Rightarrow> shm_writer \<times> shm_dir" where
  "unlink_segment ref s =
     ((fst s)\<lparr>w_segments := filter (\<lambda>p. p \<noteq> ref_name ref) (w_segments (fst s))\<rparr>,
      AList.delete (ref_name ref) (snd s))"

definition close_writer :: "shm_writer \<times> shm_dir \<Rightarrow> shm_writer \<times> shm_dir" where
  "close_writer s =
     ((fst s)\<lparr>w_segments := []\<rparr>, fold AList.delete (w_segments (fst s)) (snd s))"

definition read_table :: "segment_ref \<Rightarrow> shm_dir \<Rightarrow> py_error + arrow" where
  "read_table ref d = (case map_of d (ref_name ref) of
     None \<Rightarrow> Inl (OSError ''No such file or directory'')
   | Some Partial \<Rightarrow> Inl (OSError ''not an Arrow file'')
   | Some (Complete t n) \<Rightarrow> Inr t)"

section \<open>Names\<close>


lemma digit_fold_zeros: "foldl (\<lambda>a c. 10 * a + digit_value c) 0 (replicate k (CHR ''0'')) = 0"
  by (induction k) (simp_all add: digit_value_def)

lemma pad6_value: "foldl (\<lambda>a c. 10 * a + digit_value c) 0 (pad6 n) = n"
  by (simp add: pad6_def digit_fold_zeros str_nat_value)

lemma pad6_inject: "pad6 m = pad6 n \<longleftrightarrow> m = n"
  using pad6_value by metis

lemma segment_name_pid: "hd (py_split_char CHR ''-'' (drop (length segment_prefix) (segment_name p k))) = str_nat p"
  using str_nat_no_dash by (simp add: segment_name_def py_split_char_append_sep)

lemma segment_name_inject: "segment_name p j = segment_name p k \<longleftrightarrow> j = k"
  by (simp add: segment_name_def pad6_inject)

lemma segment_name_prefix: "py_startswith (segment_name p k) segment_prefix"
  by (simp add: py_startswith_def segment_name_def)

text \<open>The owner written into a name is the owner the sweep reads out of it.\<close>

lemma segment_orphan_name:
  "p < 2 ^ 31 \<Longrightarrow> segment_orphan P (segment_name p k) = Inr (kill0 P p = NoSuchProcess)"
  using segment_name_pid [of p k]
  by (simp add: segment_orphan_def segment_name_prefix digits_us_str_nat pid_alive_def Let_def
      split: kill_result.split)

section \<open>What a sweep removes\<close>

lemma sweep_exact:
  assumes "\<And>n x. (n, x) \<in> set es \<Longrightarrow> orphan n = Inr (gone n)"
  shows "sweep orphan es = (Inr (length (filter (\<lambda>(n, x). gone n) es)), filter (\<lambda>(n, x). \<not> gone n) es)"
  using assms
proof (induction es)
  case (Cons x es)
  obtain n v where x: "x = (n, v)" by (cases x)
  from Cons.prems [of n v] have "orphan n = Inr (gone n)" by (simp add: x)
  moreover have "sweep orphan es = (Inr (length (filter (\<lambda>(n, x). gone n) es)), filter (\<lambda>(n, x). \<not> gone n) es)"
    by (rule Cons.IH) (use Cons.prems in auto)
  ultimately show ?case by (cases "gone n") (simp_all add: x)
qed simp

lemma segment_name_owner: "segment_name p j = segment_name q k \<Longrightarrow> p = q"
  using segment_name_pid [of p j] segment_name_pid [of q k] by (metis str_nat_inject)

lemma length_filter_split: "length (filter P xs) + length (filter (\<lambda>x. \<not> P x) xs) = length xs"
  by (induction xs) auto

text \<open>
  The sweep frees what crashed owners left and nothing else: in a directory of segments (their
  owners' pids in range) and foreign files it deletes exactly the segments whose owner is no longer
  a process, keeps every other entry with its content, and counts what it deleted.
\<close>

theorem sweep_frees_dead_owners:
  assumes "\<And>n x. (n, x) \<in> set es \<Longrightarrow>
      (\<exists>p j. n = segment_name p j \<and> p < 2 ^ 31) \<or> \<not> py_startswith n segment_prefix"
  shows "\<exists>k. sweep_orphans P (Some es) =
      (Inr k, Some (filter (\<lambda>(n, x). \<forall>p j. n = segment_name p j \<longrightarrow> kill0 P p \<noteq> NoSuchProcess) es)) \<and>
    k + length (filter (\<lambda>(n, x). \<forall>p j. n = segment_name p j \<longrightarrow> kill0 P p \<noteq> NoSuchProcess) es) = length es"
proof -
  let ?gone = "\<lambda>n. \<exists>p j. n = segment_name p j \<and> kill0 P p = NoSuchProcess"
  have "segment_orphan P n = Inr (?gone n)" if "(n, x) \<in> set es" for n x
  proof (cases "py_startswith n segment_prefix")
    case True
    with assms [OF that] obtain p j where "n = segment_name p j" "p < 2 ^ 31" by blast
    moreover from this have "?gone n \<longleftrightarrow> kill0 P p = NoSuchProcess" by (auto dest: segment_name_owner)
    ultimately show ?thesis using segment_orphan_name [of p P j] by simp
  next
    case False
    then show ?thesis using segment_name_prefix by (auto simp: segment_orphan_def)
  qed
  from sweep_exact [of es "segment_orphan P" ?gone, OF this]
  have "sweep (segment_orphan P) es =
      (Inr (length (filter (\<lambda>(n, x). ?gone n) es)), filter (\<lambda>(n, x). \<not> ?gone n) es)" .
  moreover have "filter (\<lambda>(n, x). \<not> ?gone n) es =
      filter (\<lambda>(n, x). \<forall>p j. n = segment_name p j \<longrightarrow> kill0 P p \<noteq> NoSuchProcess) es"
    by (rule filter_cong) auto
  moreover have "length (filter (\<lambda>(n, x). ?gone n) es) + length (filter (\<lambda>(n, x). \<not> ?gone n) es) = length es"
    using length_filter_split [of "\<lambda>(n, x). ?gone n" es] by (simp add: case_prod_beta')
  ultimately show ?thesis by (simp add: sweep_orphans_def)
qed

definition demo_processes :: process_table where
  "demo_processes = \<lparr>kill0 = (\<lambda>p. if p = 12 then NoSuchProcess else Delivered), stat_text = (\<lambda>p. None)\<rparr>"

theorem sweep_frees_dead_owners_witness:
  "\<exists>k. sweep_orphans demo_processes (Some [(segment_name 12 1, True), (segment_name 7 1, False), (''other'', True)]) =
     (Inr k, Some [(segment_name 7 1, False), (''other'', True)])"
proof -
  let ?es = "[(segment_name 12 1, True), (segment_name 7 1, False), (''other'', True)]"
  have o: "\<not> py_startswith ''other'' segment_prefix" by code_simp
  then have f: "''other'' \<noteq> segment_name p j" for p j using segment_name_prefix [of p j] by auto
  define kept where "kept n \<longleftrightarrow> (\<forall>p j. n = segment_name p j \<longrightarrow> kill0 demo_processes p \<noteq> NoSuchProcess)" for n
  have dead: "\<not> kept (segment_name 12 1)" by (auto simp: kept_def demo_processes_def)
  have live: "kept (segment_name 7 1)"
    unfolding kept_def
  proof (intro allI impI)
    fix p j assume "segment_name 7 1 = segment_name p j"
    then have "7 = p" by (rule segment_name_owner)
    then show "kill0 demo_processes p \<noteq> NoSuchProcess" by (simp add: demo_processes_def)
  qed
  have other: "kept ''other''" using f by (simp add: kept_def)
  have rest: "filter (\<lambda>(n, x). kept n) ?es = [(segment_name 7 1, False), (''other'', True)]"
    by (simp only: filter.simps prod.case dead live other if_True if_False)
  have names: "(\<exists>p j. n = segment_name p j \<and> p < 2 ^ 31) \<or> \<not> py_startswith n segment_prefix"
    if "(n, x) \<in> set ?es" for n x
  proof -
    from that consider "n = segment_name 12 1" | "n = segment_name 7 1" | "n = ''other''" by auto
    then show ?thesis
    proof cases
      case 1 then show ?thesis by (intro disjI1 exI [of _ 12] exI [of _ 1]) simp
    next
      case 2 then show ?thesis by (intro disjI1 exI [of _ 7] exI [of _ 1]) simp
    qed (use o in simp)
  qed
  have "\<exists>k. sweep_orphans demo_processes (Some ?es) = (Inr k, Some (filter (\<lambda>(n, x). kept n) ?es)) \<and>
      k + length (filter (\<lambda>(n, x). kept n) ?es) = length ?es"
    unfolding kept_def by (rule sweep_frees_dead_owners) (rule names)
  then show ?thesis unfolding rest by blast
qed

text \<open>A name whose pid is no C \<open>int\<close> makes the sweep raise and leaves everything in place.\<close>

lemma sweep_raises_on_huge_pid:
  "sweep_ingest_orphans demo_processes ''synno-ingest-''
     (Some [(''synno-ingest-99999999999-0-x'', x), (''synno-ingest-12-0-y'', y)]) =
   (Inl (OverflowError ''signed integer is greater than maximum''),
    Some [(''synno-ingest-99999999999-0-x'', x), (''synno-ingest-12-0-y'', y)])"
proof -
  have parts: "py_split_char CHR ''-'' (drop (length ''synno-ingest-'') ''synno-ingest-99999999999-0-x'') =
      [''99999999999'', ''0'', ''x'']"
    "py_startswith ''synno-ingest-99999999999-0-x'' ''synno-ingest-''" "py_isdigit ''99999999999''"
    by code_simp+
  have "digits_us ''99999999999'' = Some 99999999999"
    by (simp add: digits_us_def is_digit_char_def digit_value_def)
  with parts have "ingest_orphan demo_processes ''synno-ingest-'' ''synno-ingest-99999999999-0-x'' =
      Inl (OverflowError ''signed integer is greater than maximum'')"
    unfolding ingest_orphan_def by (simp add: pid_alive_def Let_def)
  then show ?thesis by (simp add: sweep_ingest_orphans_def)
qed

section \<open>The life of a writer\<close>

text \<open>A written segment reads back as the table, until it is unlinked or the writer closes.\<close>

lemma segment_roundtrip:
  "write_table ipc t s = (Inr ref, s') \<Longrightarrow> read_table ref (snd s') = Inr t"
  by (auto simp: write_table_def write_ipc_def read_table_def Let_def split: ipc_outcome.splits)

datatype writer_op = Write arrow | Unlink segment_ref

definition writer_step :: "(arrow \<Rightarrow> ipc_outcome) \<Rightarrow> shm_writer \<times> shm_dir \<Rightarrow> writer_op \<Rightarrow> shm_writer \<times> shm_dir" where
  "writer_step ipc s x = (case x of Write t \<Rightarrow> snd (write_table ipc t s) | Unlink ref \<Rightarrow> unlink_segment ref s)"

definition writer_run :: "(arrow \<Rightarrow> ipc_outcome) \<Rightarrow> shm_writer \<times> shm_dir \<Rightarrow> writer_op list \<Rightarrow> shm_writer \<times> shm_dir" where
  "writer_run ipc s ops = foldl (writer_step ipc) s ops"

text \<open>An operation of the writer names only its own segments.\<close>

definition own_op :: "nat \<Rightarrow> writer_op \<Rightarrow> bool" where
  "own_op p x \<longleftrightarrow> (case x of Write t \<Rightarrow> True | Unlink ref \<Rightarrow> \<exists>k. ref_name ref = segment_name p k)"

text \<open>
  What the writer changed in the directory \<open>d0\<close>: its tracked segments, and partial files of writes
  that failed, which it does not track.
\<close>

definition writer_inv :: "nat \<Rightarrow> shm_dir \<Rightarrow> shm_writer \<times> shm_dir \<Rightarrow> bool" where
  "writer_inv p d0 s \<longleftrightarrow> w_owner (fst s) = p \<and>
     (\<forall>n \<in> set (w_segments (fst s)). \<exists>k. n = segment_name p k) \<and>
     (\<forall>n. map_of (snd s) n \<noteq> map_of d0 n \<longrightarrow> (\<exists>k. n = segment_name p k) \<and>
        (n \<in> set (w_segments (fst s)) \<or> map_of (snd s) n = Some Partial))"

definition unused :: "nat \<Rightarrow> shm_dir \<Rightarrow> bool" where
  "unused p d \<longleftrightarrow> (\<forall>k. map_of d (segment_name p k) = None)"

lemma writer_inv_step:
  assumes "writer_inv p d0 s" "own_op p x" "unused p d0"
  shows "writer_inv p d0 (writer_step ipc s x)"
proof (cases x)
  case (Write t)
  with assms(1) show ?thesis
    by (auto simp: writer_step_def write_table_def write_ipc_def writer_inv_def Let_def
        split: ipc_outcome.splits if_splits)
next
  case (Unlink ref)
  with assms show ?thesis
    by (auto simp: writer_step_def unlink_segment_def writer_inv_def own_op_def unused_def split: if_splits)
qed

lemma writer_inv_run:
  "writer_inv p d0 s \<Longrightarrow> list_all (own_op p) ops \<Longrightarrow> unused p d0 \<Longrightarrow> writer_inv p d0 (writer_run ipc s ops)"
  by (induction ops arbitrary: s) (simp_all add: writer_run_def writer_inv_step)

lemma map_of_delete_all:
  "map_of (fold AList.delete ns d) n = (if n \<in> set ns then None else map_of d n)"
  by (induction ns arbitrary: d) auto

text \<open>
  A closed writer leaves only its failures: after any sequence of writes and unlinks and the
  final \<open>close\<close>, every entry of the directory is what it was before the writer was made, except for
  partial files of writes that failed half-way - which \<open>close\<close> does not reclaim.
\<close>

theorem writer_reclaims:
  assumes "list_all (own_op p) ops" "unused p d0"
    and "close_writer (writer_run ipc (new_writer p None, d0) ops) = (w, d)"
  shows "w_segments w = [] \<and>
    (\<forall>n. map_of d n = map_of d0 n \<or> (\<exists>k. n = segment_name p k) \<and> map_of d n = Some Partial)"
proof -
  let ?s = "writer_run ipc (new_writer p None, d0) ops"
  have "writer_inv p d0 (new_writer p None, d0)" by (simp add: writer_inv_def new_writer_def)
  from writer_inv_run [OF this assms(1,2)] have inv: "writer_inv p d0 ?s" .
  from assms(3) have d: "map_of d n = (if n \<in> set (w_segments (fst ?s)) then None else map_of (snd ?s) n)" for n
    by (auto simp: close_writer_def map_of_delete_all)
  have "map_of d n = map_of d0 n \<or> (\<exists>k. n = segment_name p k) \<and> map_of d n = Some Partial" for n
  proof (cases "n \<in> set (w_segments (fst ?s))")
    case True
    with inv assms(2) have "map_of d0 n = None" by (auto simp: writer_inv_def unused_def)
    with True show ?thesis by (simp add: d)
  next
    case False
    with inv show ?thesis by (auto simp: writer_inv_def d)
  qed
  with assms(3) show ?thesis by (auto simp: close_writer_def)
qed

definition big_tables_fail :: "arrow \<Rightarrow> ipc_outcome" where
  "big_tables_fail t = (if num_columns t \<le> 1 then Written 10 else FailedWrite (OSError ''No space left on device''))"

text \<open>The partial file of a failed write survives \<open>close\<close>.\<close>

lemma failed_write_leaks:
  "map_of (snd (close_writer (writer_run big_tables_fail (new_writer 7 None, [])
      [Write [(''a'', []), (''b'', [])]]))) (segment_name 7 1) = Some Partial"
  by (simp add: writer_run_def writer_step_def write_table_def write_ipc_def big_tables_fail_def
      num_columns_def close_writer_def new_writer_def Let_def)

theorem writer_reclaims_witness:
  "\<exists>w d. close_writer (writer_run big_tables_fail (new_writer 7 None, [(''x'', Complete [] 3)]) [Write [], Write []]) = (w, d) \<and>
     map_of d ''x'' = Some (Complete [] 3)"
proof -
  obtain w d where c: "close_writer (writer_run big_tables_fail (new_writer 7 None, [(''x'', Complete [] 3)]) [Write [], Write []]) = (w, d)"
    by (cases "close_writer (writer_run big_tables_fail (new_writer 7 None, [(''x'', Complete [] 3)]) [Write [], Write []])")
  have "\<not> py_startswith ''x'' segment_prefix" by code_simp
  then have x: "''x'' \<noteq> segment_name p k" for p k using segment_name_prefix [of p k] by auto
  have u: "unused 7 [(''x'', Complete [] 3)]" using not_sym [OF x] by (auto simp: unused_def)
  have o: "list_all (own_op 7) [Write [], Write []]" by (simp add: own_op_def)
  from conjunct2 [OF writer_reclaims [OF o u c], rule_format, of "''x''"] x
  have "map_of d ''x'' = Some (Complete [] 3)" by simp
  with c show ?thesis by blast
qed

text \<open>Staging removes its directory on every failure.\<close>

lemma write_segments_total:
  "fst (write_segments ipc ts acc d) = Inl e \<Longrightarrow> snd (write_segments ipc ts acc d) = None"
  by (induction ipc ts acc d rule: write_segments.induct) (auto split: prod.splits sum.splits)

lemma write_segments_complete:
  "write_segments ipc ts acc d = (Inr n, Some d') \<Longrightarrow> distinct (map fst ts) \<Longrightarrow> (name, t) \<in> set ts \<Longrightarrow>
   \<exists>k. map_of d' (name @ ''.arrow'') = Some (Complete t k)"
proof (induction ipc ts acc d rule: write_segments.induct)
  case (2 ipc nm tab ts acc d)
  from 2(2) obtain k d1 where w: "write_ipc ipc (nm @ ''.arrow'') tab d = (Inr k, d1)"
    and rest: "write_segments ipc ts (acc + k) d1 = (Inr n, Some d')"
    by (auto split: prod.splits sum.splits)
  have keep: "write_segments ipc xs a e = (Inr m, Some e') \<Longrightarrow> nm \<notin> fst ` set xs \<Longrightarrow>
      map_of e' (nm @ ''.arrow'') = map_of e (nm @ ''.arrow'')" for xs a e m e'
  proof (induction ipc xs a e rule: write_segments.induct)
    case (2 ipc nm2 tab2 xs a e)
    then show ?case by (auto simp: write_ipc_def split: prod.splits sum.splits ipc_outcome.splits)
  qed simp
  show ?case
  proof (cases "(name, t) = (nm, tab)")
    case True
    from w have "map_of d1 (nm @ ''.arrow'') = Some (Complete tab k)"
      by (auto simp: write_ipc_def split: ipc_outcome.splits)
    with keep [OF rest] 2(3) True show ?thesis by auto
  next
    case False
    with 2(1) [OF w [symmetric] refl rest] 2(3,4) show ?thesis by auto
  qed
qed simp

end
