(* ===== verification/Engine_Process.thy ===== *)
theory Engine_Process
  imports Engine_Wire Shm_Transport
begin

text \<open>
  The serving engines: \<open>LocalCallableEngine\<close> (\<open>router/engine.py\<close>), \<open>ProcessEngine\<close> and
  \<open>ShmHotLoadEngine\<close> (\<open>router/process_engine.py\<close>). The object's attributes are the record
  \<open>process_engine\<close>; the machine it acts on is the record \<open>machine\<close>: a file system of data files,
  folders and one-level symbolic links, the runner handles that are open, and the rest of the
  world \<open>'w\<close>. The warm subprocess behind a handle (\<open>HotpatchProc\<close>) is the parameter \<open>batch\<close> of the
  record \<open>engine_host\<close>: it may change any file and may raise. Creating a folder or a
  link is taken to succeed where the source does not test it.
\<close>

section \<open>The machine\<close>

datatype entry = Data segment | Folder | Link string

record 'w machine =
  entries :: "(string \<times> entry) list"
  next_proc :: nat
  open_procs :: "nat list"
  rest_of_world :: 'w

definition exists_path :: "string \<Rightarrow> 'w machine \<Rightarrow> bool" where
  "exists_path p m = (case map_of (entries m) p of
     None \<Rightarrow> False | Some (Link q) \<Rightarrow> map_of (entries m) q \<noteq> None | Some _ \<Rightarrow> True)"

definition put_entry :: "string \<Rightarrow> entry \<Rightarrow> 'w machine \<Rightarrow> 'w machine" where
  "put_entry p x m = m\<lparr>entries := AList.update p x (entries m)\<rparr>"

definition unlink_path :: "string \<Rightarrow> 'w machine \<Rightarrow> 'w machine" where
  "unlink_path p m = m\<lparr>entries := AList.delete p (entries m)\<rparr>"

text \<open>\<open>mkdir(exist_ok=True)\<close> and \<open>shutil.rmtree(ignore_errors=True)\<close>.\<close>

definition make_dir :: "string \<Rightarrow> 'w machine \<Rightarrow> 'w machine" where
  "make_dir p m = (if map_of (entries m) p = None then put_entry p Folder m else m)"

definition below :: "string \<Rightarrow> string \<Rightarrow> bool" where
  "below d p \<longleftrightarrow> p = d \<or> py_startswith p (d @ ''/'')"

definition remove_tree :: "string \<Rightarrow> 'w machine \<Rightarrow> 'w machine" where
  "remove_tree d m = m\<lparr>entries := filter (\<lambda>(p, x). \<not> below d p) (entries m)\<rparr>"

text \<open>\<open>os.listdir\<close>: the names directly below a directory.\<close>

definition list_dir :: "string \<Rightarrow> 'w machine \<Rightarrow> string list" where
  "list_dir d m = filter (\<lambda>n. n \<noteq> [] \<and> CHR ''/'' \<notin> set n)
     (map (\<lambda>(p, x). drop (length d + 1) p) (filter (\<lambda>(p, x). py_startswith p (d @ ''/'')) (entries m)))"

record query_result =
  qr_req_id :: string
  qr_elapsed_ms :: pyfloat
  qr_error :: string

record batch_result =
  br_response :: string
  br_stderr :: string
  br_results :: "query_result list"

record 'w engine_host =
  batch :: "nat \<Rightarrow> string list \<Rightarrow> (string \<times> string) list \<Rightarrow> (string \<times> entry) list \<times> 'w \<Rightarrow>
     (py_error + batch_result) \<times> (string \<times> entry) list \<times> 'w"
  running :: "nat \<Rightarrow> 'w machine \<Rightarrow> bool"
  can_write :: "string \<Rightarrow> 'w machine \<Rightarrow> bool"
  user_id :: nat
  temp_dir :: string
  self_pid :: nat
  processes :: process_table
  arrow_ipc :: "arrow \<Rightarrow> ipc_outcome"
  arrow_nbytes :: "arrow \<Rightarrow> nat"
  disk_usage :: "string \<Rightarrow> 'w machine \<Rightarrow> nat \<times> nat"
  fresh_suffix :: "string \<Rightarrow> 'w machine \<Rightarrow> string"
  sha256_hex :: "string \<Rightarrow> string"
  value_fmt :: py_fmt
  host_exc_text :: "py_error \<Rightarrow> string"

text \<open>\<open>HotpatchProc.run\<close>: the subprocess acts on files and the world, not on our handles.\<close>

definition call_batch ::
  "'w engine_host \<Rightarrow> nat \<Rightarrow> string list \<Rightarrow> (string \<times> string) list \<Rightarrow> 'w machine
     \<Rightarrow> (py_error + batch_result) \<times> 'w machine"
where
  "call_batch H h ls env m = (case batch H h ls env (entries m, rest_of_world m) of
     (r, es, w) \<Rightarrow> (r, m\<lparr>entries := es, rest_of_world := w\<rparr>))"

section \<open>Attributes\<close>

record process_engine =
  pe_engine_id :: string
  pe_workspace :: string
  pe_parquet_dir :: string
  pe_binary :: string
  pe_extra_env :: "(string \<times> string) list"
  pe_proc :: "nat option"
  pe_closed :: bool
  pe_loaded_data :: bool
  pe_result_dir :: string
  pe_cwd :: string
  pe_hot :: bool
  pe_shm_base :: "string option"
  pe_ingest_dir :: "string option"
  pe_loaded :: bool

definition new_process_engine :: "string \<Rightarrow> string \<Rightarrow> string \<Rightarrow> (string \<times> string) list \<Rightarrow> process_engine" where
  "new_process_engine eid ws pq env =
     \<lparr>pe_engine_id = eid, pe_workspace = ws, pe_parquet_dir = py_rstrip_char (CHR ''/'') pq @ ''/'',
      pe_binary = ''./db'', pe_extra_env = env, pe_proc = None, pe_closed = False,
      pe_loaded_data = False, pe_result_dir = ws @ ''/results'', pe_cwd = ws, pe_hot = False,
      pe_shm_base = None, pe_ingest_dir = None, pe_loaded = False\<rparr>"

definition default_shm :: string where
  "default_shm = ''/dev/shm''"

definition new_hot_engine :: "string \<Rightarrow> string \<Rightarrow> string option \<Rightarrow> (string \<times> string) list \<Rightarrow> process_engine" where
  "new_hot_engine eid ws shm env =
     (new_process_engine eid ws (case shm of None \<Rightarrow> default_shm | Some d \<Rightarrow> d) env)
       \<lparr>pe_hot := True, pe_shm_base := shm\<rparr>"

section \<open>Operations\<close>

definition engine_health :: "process_engine \<Rightarrow> 'w machine \<Rightarrow> bool" where
  "engine_health e m \<longleftrightarrow>
     \<not> pe_closed e \<and> exists_path (pe_workspace e @ ''/'' @ py_lstrip_chars ''./'' (pe_binary e)) m \<and>
     (pe_hot e \<longrightarrow> pe_loaded e)"

definition link_missing :: "string \<Rightarrow> string \<Rightarrow> string \<Rightarrow> 'w machine \<Rightarrow> 'w machine" where
  "link_missing src dst n m =
     (if \<not> exists_path (dst @ ''/'' @ n) m then put_entry (dst @ ''/'' @ n) (Link (src @ ''/'' @ n)) m else m)"

definition scratch_dir :: "'w engine_host \<Rightarrow> string \<Rightarrow> string" where
  "scratch_dir H eid = temp_dir H @ ''/synnodb-'' @ str_nat (user_id H) @ ''/'' @ eid"

definition ensure_writable_cwd ::
  "'w engine_host \<Rightarrow> process_engine \<Rightarrow> 'w machine \<Rightarrow> process_engine \<times> 'w machine" where
  "ensure_writable_cwd H e m =
     (let ws = pe_workspace e; build = ws @ ''/build''; reload = build @ ''/.reload'' in
      if can_write H reload m then (e, m)
      else if \<not> exists_path reload m \<and> can_write H build m then (e, m)
      else
        (let scratch = scratch_dir H (pe_engine_id e);
             m1 = fold (link_missing ws scratch) (filter (\<lambda>n. n \<noteq> ''build'') (list_dir ws m)) (make_dir scratch m);
             sb = scratch @ ''/build'';
             m2 = make_dir (sb @ ''/.reload'') (make_dir sb m1);
             m3 = (if exists_path build m2
                   then fold (link_missing build sb) (filter (\<lambda>n. n \<noteq> ''.reload'') (list_dir build m2)) m2
                   else m2)
         in (e\<lparr>pe_cwd := scratch, pe_result_dir := scratch @ ''/results''\<rparr>,
             make_dir (scratch @ ''/results'') m3)))"

definition runner :: "'w engine_host \<Rightarrow> process_engine \<Rightarrow> 'w machine \<Rightarrow> nat \<times> process_engine \<times> 'w machine" where
  "runner H e m = (case pe_proc e of
     Some h \<Rightarrow> (h, e, m)
   | None \<Rightarrow> (case ensure_writable_cwd H e m of (e1, m1) \<Rightarrow>
       (let h = next_proc m1 in
        (h, e1\<lparr>pe_proc := Some h\<rparr>, m1\<lparr>next_proc := h + 1, open_procs := open_procs m1 @ [h]\<rparr>))))"

definition read_result_table :: "string \<Rightarrow> 'w machine \<Rightarrow> py_error + arrow" where
  "read_result_table p m = (case map_of (entries m) p of
     Some (Data (Complete t n)) \<Rightarrow> Inr t
   | _ \<Rightarrow> Inl (OSError ''not an Arrow IPC file''))"

definition read_and_delete_result :: "string \<Rightarrow> 'w machine \<Rightarrow> (py_error + arrow) \<times> 'w machine" where
  "read_and_delete_result p m = (read_result_table p m, unlink_path p m)"

text \<open>The walk over the per-query results: the first error raises, the last measurement wins.\<close>

fun scan_results :: "string \<Rightarrow> string \<Rightarrow> pyfloat option \<Rightarrow> query_result list \<Rightarrow> py_error + pyfloat option" where
  "scan_results q req ms [] = Inr ms"
| "scan_results q req ms (r # rs) =
     (if qr_error r \<noteq> [] then
        Inl (EngineExecutionError (''engine reported an error for query '' @ q @ '': '' @ qr_error r))
      else scan_results q req
        (if qr_req_id r = req \<and> float_le (Num (Fin 0)) (qr_elapsed_ms r) then Some (qr_elapsed_ms r) else ms) rs)"

definition batch_env :: "process_engine \<Rightarrow> (string \<times> string) list" where
  "batch_env e = AList.update ''SYNNODB_RESULT_DIR'' (pe_result_dir e) (pe_extra_env e)"

type_synonym ('w, 'a) engine_outcome = "(py_error + 'a) \<times> process_engine \<times> 'w machine"

definition request_line :: "'w engine_host \<Rightarrow> string \<Rightarrow> (string \<times> pyval) list \<Rightarrow> string" where
  "request_line H q phs = format_args_element (sha256_hex H) (value_fmt H) q phs None"

text \<open>The request id is the second word of the line.\<close>

definition request_id :: "'w engine_host \<Rightarrow> string \<Rightarrow> (string \<times> pyval) list \<Rightarrow> string" where
  "request_id H q phs = py_split_ws (request_line H q phs) ! 1"

definition result_path :: "process_engine \<Rightarrow> string \<Rightarrow> string" where
  "result_path e req = pe_result_dir e @ ''/result_'' @ req @ ''.arrow''"

definition collect_result ::
  "'w engine_host \<Rightarrow> string \<Rightarrow> string \<Rightarrow> string \<Rightarrow> batch_result \<Rightarrow> process_engine \<Rightarrow> 'w machine
     \<Rightarrow> ('w, arrow \<times> pyfloat option) engine_outcome"
where
  "collect_result H q req path br e m = (case scan_results q req None (br_results br) of
     Inl exc \<Rightarrow> (Inl exc, e, m)
   | Inr ms \<Rightarrow>
       if \<not> exists_path path m then
         (Inl (EngineExecutionError ''engine produced no result file (result_<req_id>.arrow)''), e, m)
       else (case read_and_delete_result path m of
           (Inl exc, m') \<Rightarrow>
             (Inl (EngineExecutionError (''failed to read engine result: '' @ host_exc_text H exc)), e, m')
         | (Inr t, m') \<Rightarrow> (Inr (t, ms), e, m')))"

definition run_process ::
  "'w engine_host \<Rightarrow> string \<Rightarrow> (string \<times> pyval) list \<Rightarrow> process_engine \<Rightarrow> 'w machine
     \<Rightarrow> ('w, arrow \<times> pyfloat option) engine_outcome"
where
  "run_process H q phs e m =
     (let line = request_line H q phs; req = request_id H q phs in
      case runner H e m of (h, e1, m1) \<Rightarrow>
        (let m2 = make_dir (pe_result_dir e1) m1;
             path = result_path e1 req;
             m3 = (if exists_path path m2 then unlink_path path m2 else m2)
         in case call_batch H h [line] (batch_env e1) m3 of
              (Inl exc, m4) \<Rightarrow> (Inl exc, e1, m4)
            | (Inr br, m4) \<Rightarrow> collect_result H q req path br e1 m4))"

definition before_ingest :: "string \<Rightarrow> process_engine \<Rightarrow> py_error" where
  "before_ingest what e = RuntimeError (''engine '' @ pe_engine_id e @ '': '' @ what @ ''() called before ingest()'')"

definition run_engine ::
  "'w engine_host \<Rightarrow> string \<Rightarrow> (string \<times> pyval) list \<Rightarrow> process_engine \<Rightarrow> 'w machine
     \<Rightarrow> ('w, arrow \<times> pyfloat option) engine_outcome"
where
  "run_engine H q phs e m =
     (if pe_hot e \<and> \<not> pe_loaded e then (Inl (before_ingest ''run'' e), e, m) else run_process H q phs e m)"

definition load_process :: "'w engine_host \<Rightarrow> process_engine \<Rightarrow> 'w machine \<Rightarrow> ('w, unit) engine_outcome" where
  "load_process H e m =
     (if pe_loaded_data e then (Inr (), e, m)
      else case runner H e m of (h, e1, m1) \<Rightarrow>
        (case call_batch H h [] (batch_env e1) (make_dir (pe_result_dir e1) m1) of
           (Inl exc, m2) \<Rightarrow> (Inl exc, e1, m2)
         | (Inr br, m2) \<Rightarrow>
             if \<not> running H h m2 then
               (Inl (EngineExecutionError ''engine crashed during data loading''), e1, m2)
             else (Inr (), e1\<lparr>pe_loaded_data := True\<rparr>, m2)))"

definition load_data :: "'w engine_host \<Rightarrow> process_engine \<Rightarrow> 'w machine \<Rightarrow> ('w, unit) engine_outcome" where
  "load_data H e m =
     (if pe_hot e \<and> \<not> pe_loaded e then (Inl (before_ingest ''load_data'' e), e, m) else load_process H e m)"

text \<open>\<open>terminate\<close> closes the handle; an exception it raises is swallowed.\<close>

definition close_engine :: "process_engine \<times> 'w machine \<Rightarrow> process_engine \<times> 'w machine" where
  "close_engine s =
     (let e = fst s; m = snd s;
          m1 = (case pe_proc e of None \<Rightarrow> m | Some h \<Rightarrow> m\<lparr>open_procs := filter (\<lambda>k. k \<noteq> h) (open_procs m)\<rparr>);
          e1 = e\<lparr>pe_closed := True, pe_loaded_data := False, pe_proc := None\<rparr>
      in if pe_hot e then
           (e1\<lparr>pe_ingest_dir := None, pe_loaded := False\<rparr>,
            case pe_ingest_dir e of None \<Rightarrow> m1 | Some d \<Rightarrow> remove_tree d m1)
         else (e1, m1))"

section \<open>Staging a snapshot\<close>

definition ingest_prefix :: string where
  "ingest_prefix = ''synno-ingest-''"

text \<open>The sweep over \<open>base\<close>: the trees of the orphans it finds are removed.\<close>

definition sweep_base :: "'w engine_host \<Rightarrow> string \<Rightarrow> 'w machine \<Rightarrow> (py_error + nat) \<times> 'w machine" where
  "sweep_base H base m =
     (let names = map (\<lambda>n. (n, ())) (list_dir base m) in
      case sweep (ingest_orphan (processes H) ingest_prefix) names of
        (r, kept) \<Rightarrow> (r, fold (\<lambda>n. remove_tree (base @ ''/'' @ n))
          (filter (\<lambda>n. (n, ()) \<notin> set kept) (map fst names)) m))"

definition drop_snapshot :: "process_engine \<Rightarrow> 'w machine \<Rightarrow> process_engine \<times> 'w machine" where
  "drop_snapshot e m = (case pe_ingest_dir e of
     None \<Rightarrow> (e, m)
   | Some d \<Rightarrow> (e\<lparr>pe_ingest_dir := None, pe_loaded := False, pe_loaded_data := False\<rparr>, remove_tree d m))"

definition ingest_dir_name :: "'w engine_host \<Rightarrow> string \<Rightarrow> 'w machine \<Rightarrow> string" where
  "ingest_dir_name H base m =
     base @ ''/'' @ ingest_prefix @ str_nat (self_pid H) @ ''-''
       @ (case proc_start_time (processes H) (self_pid H) of None \<Rightarrow> ''0'' | Some s \<Rightarrow> if s = [] then ''0'' else s)
       @ ''-'' @ fresh_suffix H base m"

definition put_segments :: "string \<Rightarrow> shm_dir \<Rightarrow> 'w machine \<Rightarrow> 'w machine" where
  "put_segments d segs m = fold (\<lambda>(n, s). put_entry (d @ ''/'' @ n) (Data s)) segs (make_dir d m)"

definition attach_snapshot :: "string \<Rightarrow> process_engine \<Rightarrow> process_engine" where
  "attach_snapshot d e = e\<lparr>pe_ingest_dir := Some d, pe_parquet_dir := py_rstrip_char (CHR ''/'') d @ ''/'',
     pe_result_dir := d, pe_extra_env := AList.update ''SYNNODB_SHM_INGEST'' d (pe_extra_env e), pe_loaded := True\<rparr>"

definition stage_tables ::
  "'w engine_host \<Rightarrow> string \<Rightarrow> (string \<times> arrow) list \<Rightarrow> process_engine \<Rightarrow> 'w machine \<Rightarrow> ('w, unit) engine_outcome"
where
  "stage_tables H base ts e m =
     (case check_shm_budget (fst (disk_usage H base m)) (snd (disk_usage H base m))
         (sum_list (map (arrow_nbytes H \<circ> snd) ts)) of
        (fits, _, _) \<Rightarrow>
          if \<not> fits then
            (Inl (EngineResourceError (''not enough shared memory to hot-load this database into '' @ base)), e, m)
          else
            (let d = ingest_dir_name H base m in
             case write_arrow_segments (arrow_ipc H) ts [] of
               (Inl exc, _) \<Rightarrow> (Inl exc, e, remove_tree d (make_dir d m))
             | (Inr n, None) \<Rightarrow> (Inr (), e, m)
             | (Inr n, Some segs) \<Rightarrow> (Inr (), attach_snapshot d e, put_segments d segs m)))"

definition ingest ::
  "'w engine_host \<Rightarrow> (string \<times> arrow) list \<Rightarrow> process_engine \<Rightarrow> 'w machine \<Rightarrow> ('w, unit) engine_outcome" where
  "ingest H ts e m =
     (let base = (case pe_shm_base e of None \<Rightarrow> default_shm | Some d \<Rightarrow> d) in
      case drop_snapshot e m of (e1, m1) \<Rightarrow>
        (case sweep_base H base (make_dir base m1) of
           (Inl exc, m2) \<Rightarrow> (Inl exc, e1, m2)
         | (Inr n, m2) \<Rightarrow> stage_tables H base ts e1 m2))"

section \<open>The in-process engine\<close>

record local_engine =
  le_engine_id :: string
  le_queries :: "string \<rightharpoonup> ((string \<times> pyval) list \<Rightarrow> py_error + arrow option)"
  le_healthy :: bool

definition local_health :: "local_engine \<Rightarrow> bool" where
  "local_health e = le_healthy e"

definition set_healthy :: "bool \<Rightarrow> local_engine \<Rightarrow> local_engine" where
  "set_healthy v e = e\<lparr>le_healthy := v\<rparr>"

text \<open>A query function returns a table, another object (\<open>None\<close>) or raises.\<close>

definition local_run :: "string \<Rightarrow> (string \<times> pyval) list \<Rightarrow> local_engine \<Rightarrow> py_error + arrow \<times> pyfloat option" where
  "local_run q phs e = (case le_queries e q of
     None \<Rightarrow> Inl (KeyError (''engine '' @ le_engine_id e @ '' has no query '' @ q))
   | Some f \<Rightarrow> ebind (f phs) (\<lambda>r. case r of
        None \<Rightarrow> Inl (TypeError (''engine '' @ le_engine_id e @ '' query '' @ q @ '' returned no pyarrow.Table''))
      | Some t \<Rightarrow> Inr (t, None)))"

definition local_load :: "local_engine \<Rightarrow> (py_error + unit) \<times> local_engine" where
  "local_load e = (Inr (), e)"

definition local_close :: "local_engine \<Rightarrow> local_engine" where
  "local_close e = e"

section \<open>The contract of an engine handle\<close>

text \<open>
  What the connection relies on when it loads and releases engines: loading is a one-time cost, and
  closing may be repeated.
\<close>

locale engine_handle =
  fixes load :: "'s \<Rightarrow> (py_error + unit) \<times> 's" and close :: "'s \<Rightarrow> 's"
  assumes load_again: "load s = (Inr u, s') \<Longrightarrow> load s' = (Inr (), s')"
    and close_again: "close (close s) = close s"
begin

lemma load_settles: "load s = (Inr u, s') \<Longrightarrow> ((\<lambda>s. snd (load s)) ^^ n) s' = s'"
  by (induction n) (simp_all add: load_again)

lemma close_settles: "(close ^^ Suc n) s = close s"
  by (induction n) (simp_all add: close_again)

end

definition load_state :: "'w engine_host \<Rightarrow> process_engine \<times> 'w machine \<Rightarrow> (py_error + unit) \<times> process_engine \<times> 'w machine" where
  "load_state H s = load_data H (fst s) (snd s)"

named_theorems engine_frame \<open>what a step of an engine leaves alone\<close>

lemma ensure_frame:
  "ensure_writable_cwd H e m = (e1, m1) \<Longrightarrow> \<exists>c r. e1 = e\<lparr>pe_cwd := c, pe_result_dir := r\<rparr>"
proof -
  assume a: "ensure_writable_cwd H e m = (e1, m1)"
  have same: "\<exists>c r. e = e\<lparr>pe_cwd := c, pe_result_dir := r\<rparr>"
    by (intro exI [of _ "pe_cwd e"] exI [of _ "pe_result_dir e"]) simp
  show ?thesis using arg_cong [OF a, of fst] same
    unfolding ensure_writable_cwd_def Let_def by (auto split: if_splits)
qed

lemma runner_frame [engine_frame]:
  assumes "runner H e m = (h, e1, m1)"
  shows "pe_hot e1 = pe_hot e" "pe_loaded e1 = pe_loaded e" "pe_loaded_data e1 = pe_loaded_data e"
    "pe_ingest_dir e1 = pe_ingest_dir e" "pe_closed e1 = pe_closed e" "pe_proc e1 = Some h"
    "pe_extra_env e1 = pe_extra_env e" "pe_workspace e1 = pe_workspace e" "pe_binary e1 = pe_binary e"
    "pe_engine_id e1 = pe_engine_id e" "pe_shm_base e1 = pe_shm_base e"
  using assms by (auto simp: runner_def Let_def split: option.splits prod.splits dest!: ensure_frame)

interpretation proc: engine_handle "load_state H" close_engine for H
proof
  fix s :: "process_engine \<times> 'a machine" and u s'
  assume l: "load_state H s = (Inr u, s')"
  show "load_state H s' = (Inr (), s')"
  proof (cases "pe_loaded_data (fst s)")
    case True
    with l show ?thesis by (auto simp: load_state_def load_data_def load_process_def split: if_splits)
  next
    case False
    obtain h e1 m1 where r: "runner H (fst s) (snd s) = (h, e1, m1)" by (metis prod_cases3)
    with l False runner_frame(1,2) [OF r] show ?thesis
      by (auto simp: load_state_def load_data_def load_process_def split: if_splits prod.splits sum.splits)
  qed
qed (auto simp: close_engine_def Let_def split: option.splits)

interpretation local: engine_handle local_load local_close
  by unfold_locales (auto simp: local_load_def local_close_def)

section \<open>A query is answered by its own run\<close>

lemma scan_results_ok:
  "scan_results q req ms rs = Inr ms' \<Longrightarrow> list_all (\<lambda>r. qr_error r = []) rs"
  by (induction rs arbitrary: ms) (auto split: if_splits)

lemma exists_unlinked: "\<not> exists_path p (if exists_path p m then unlink_path p m else m)"
  by (auto simp: exists_path_def unlink_path_def)

lemma make_dir_frame [simp]:
  "open_procs (make_dir p m) = open_procs m" "next_proc (make_dir p m) = next_proc m"
  by (simp_all add: make_dir_def put_entry_def)

lemma collect_result_ok:
  assumes "collect_result H q req path br e m = (Inr (t, ms), e', m')"
  shows "list_all (\<lambda>r. qr_error r = []) (br_results br)"
    "\<exists>n. map_of (entries m) path = Some (Data (Complete t n))" "map_of (entries m') path = None" "e' = e"
  using assms
  by (auto simp: collect_result_def read_and_delete_result_def read_result_table_def unlink_path_def
      split: sum.splits if_splits option.splits entry.splits segment.splits dest: scan_results_ok)

lemma run_engine_batch:
  assumes "run_engine H q phs e m = (Inr (t, ms), e', m')"
  obtains h e1 m3 br m4 where "call_batch H h [request_line H q phs] (batch_env e1) m3 = (Inr br, m4)"
    "\<not> exists_path (result_path e1 (request_id H q phs)) m3"
    "collect_result H q (request_id H q phs) (result_path e1 (request_id H q phs)) br e1 m4 = (Inr (t, ms), e', m')"
proof -
  let ?req = "request_id H q phs"
  obtain h e1 m1 where r: "runner H e m = (h, e1, m1)" by (metis prod_cases3)
  define m2 where "m2 = make_dir (pe_result_dir e1) m1"
  define m3 where "m3 = (if exists_path (result_path e1 ?req) m2 then unlink_path (result_path e1 ?req) m2 else m2)"
  from assms have "run_process H q phs e m = (Inr (t, ms), e', m')"
    by (auto simp: run_engine_def split: if_splits)
  then obtain br m4 where b: "call_batch H h [request_line H q phs] (batch_env e1) m3 = (Inr br, m4)"
    and c: "collect_result H q ?req (result_path e1 ?req) br e1 m4 = (Inr (t, ms), e', m')"
    unfolding m3_def m2_def by (auto simp: run_process_def r Let_def split: prod.splits sum.splits)
  have "\<not> exists_path (result_path e1 ?req) m3" unfolding m3_def by (rule exists_unlinked)
  from that [OF b this c] show ?thesis .
qed

text \<open>
  C23. An answer is never stale: a table that \<open>run\<close> returns was written by the very batch it sent -
  the result path did not exist when the batch started, held exactly this table, complete, when it
  ended, no query of the batch reported an error - and the file is gone afterwards.
\<close>

theorem run_result_fresh:
  assumes "run_engine H q phs e m = (Inr (t, ms), e', m')"
  shows "\<exists>h env m1 br m2 n. call_batch H h [request_line H q phs] env m1 = (Inr br, m2) \<and>
    map_of env ''SYNNODB_RESULT_DIR'' = Some (pe_result_dir e') \<and>
    \<not> exists_path (result_path e' (request_id H q phs)) m1 \<and>
    map_of (entries m2) (result_path e' (request_id H q phs)) = Some (Data (Complete t n)) \<and>
    list_all (\<lambda>r. qr_error r = []) (br_results br) \<and>
    map_of (entries m') (result_path e' (request_id H q phs)) = None"
proof -
  let ?req = "request_id H q phs"
  obtain h e1 m3 br m4 where b: "call_batch H h [request_line H q phs] (batch_env e1) m3 = (Inr br, m4)"
    and p: "\<not> exists_path (result_path e1 ?req) m3"
    and c: "collect_result H q ?req (result_path e1 ?req) br e1 m4 = (Inr (t, ms), e', m')"
    using assms by (rule run_engine_batch)
  have "map_of (batch_env e1) ''SYNNODB_RESULT_DIR'' = Some (pe_result_dir e1)"
    by (simp add: batch_env_def)
  then show ?thesis
    using collect_result_ok [OF c] b p unfolding collect_result_ok(4) [OF c] by blast
qed

text \<open>A host whose subprocess answers every query with a one-row table.\<close>

definition one_row :: arrow where
  "one_row = [(''n'', [PInt 1])]"

definition demo_batch ::
  "nat \<Rightarrow> string list \<Rightarrow> (string \<times> string) list \<Rightarrow> (string \<times> entry) list \<times> unit \<Rightarrow>
     (py_error + batch_result) \<times> (string \<times> entry) list \<times> unit"
where
  "demo_batch h ls env s = (case ls of
     [] \<Rightarrow> (Inr \<lparr>br_response = ''ok'', br_stderr = '''', br_results = []\<rparr>, s)
   | l # _ \<Rightarrow>
       (let req = py_split_ws l ! 1; d = the (map_of env ''SYNNODB_RESULT_DIR'') in
        (Inr \<lparr>br_response = ''ok'', br_stderr = '''',
           br_results = [\<lparr>qr_req_id = req, qr_elapsed_ms = Num (Fin 2), qr_error = ''''\<rparr>]\<rparr>,
         AList.update (d @ ''/result_'' @ req @ ''.arrow'') (Data (Complete one_row 8)) (fst s), ())))"

definition demo_host :: "unit engine_host" where
  "demo_host = \<lparr>batch = demo_batch, running = (\<lambda>h m. True), can_write = (\<lambda>p m. True), user_id = 9,
     temp_dir = ''/tmp'', self_pid = 7, processes = demo_processes, arrow_ipc = (\<lambda>t. Written 8),
     arrow_nbytes = (\<lambda>t. 8), disk_usage = (\<lambda>d m. (0, 0)), fresh_suffix = (\<lambda>d m. ''a''),
     sha256_hex = (\<lambda>s. ''0123456789abcdef''), value_fmt = plain_fmt, host_exc_text = (\<lambda>e. ''failed'')\<rparr>"

definition demo_machine :: "unit machine" where
  "demo_machine = \<lparr>entries = [(''/e/db'', Data (Complete [] 1)),
       (''/e/results/result_req_1_0123456789ab.arrow'', Data (Complete [(''old'', [])] 9))],
     next_proc = 0, open_procs = [], rest_of_world = ()\<rparr>"

theorem run_result_fresh_witness:
  "\<exists>e' m' path. run_engine demo_host ''1'' [] (new_process_engine ''eng-1'' ''/e'' ''/d'' []) demo_machine =
      (Inr (one_row, Some (Num (Fin 2))), e', m') \<and>
    path = result_path e' (request_id demo_host ''1'' []) \<and> map_of (entries m') path = None"
proof -
  let ?r = "run_engine demo_host ''1'' [] (new_process_engine ''eng-1'' ''/e'' ''/d'' []) demo_machine"
  have "fst ?r = Inr (one_row, Some (Num (Fin 2)))" by code_simp
  moreover obtain x e' m' where x: "?r = (x, e', m')" by (rule prod_cases3)
  ultimately have r: "?r = (Inr (one_row, Some (Num (Fin 2))), e', m')" by (simp only: fst_conv)
  from run_result_fresh [OF r] have "map_of (entries m') (result_path e' (request_id demo_host ''1'' [])) = None"
    by blast
  with r show ?thesis by blast
qed

section \<open>The life of a serving engine\<close>

text \<open>
  What any sequence of calls keeps: a snapshot is attached exactly while the engine counts as loaded,
  the loader is pointed at it, a warm engine has its subprocess, and only the hot-load engine stages.
\<close>

definition engine_inv :: "process_engine \<Rightarrow> bool" where
  "engine_inv e \<longleftrightarrow>
     (pe_loaded e \<longleftrightarrow> pe_ingest_dir e \<noteq> None) \<and>
     (pe_loaded e \<longrightarrow> pe_hot e) \<and>
     (\<forall>d. pe_ingest_dir e = Some d \<longrightarrow> map_of (pe_extra_env e) ''SYNNODB_SHM_INGEST'' = Some d) \<and>
     (pe_loaded_data e \<longrightarrow> pe_proc e \<noteq> None)"

definition handles_ok :: "process_engine \<Rightarrow> 'w machine \<Rightarrow> bool" where
  "handles_ok e m \<longleftrightarrow> (\<forall>h. h \<in> set (open_procs m) \<longleftrightarrow> pe_proc e = Some h) \<and> (\<forall>h \<in> set (open_procs m). h < next_proc m)"

inductive engine_step :: "'w engine_host \<Rightarrow> process_engine \<times> 'w machine \<Rightarrow> process_engine \<times> 'w machine \<Rightarrow> bool"
  for H where
  run_query: "run_engine H q phs e m = (r, e', m') \<Longrightarrow> engine_step H (e, m) (e', m')"
| load: "load_data H e m = (r, e', m') \<Longrightarrow> engine_step H (e, m) (e', m')"
| stage: "pe_hot e \<Longrightarrow> ingest H ts e m = (r, e', m') \<Longrightarrow> engine_step H (e, m) (e', m')"
| close: "engine_step H (e, m) (close_engine (e, m))"
| others: "engine_step H (e, m) (e, m\<lparr>entries := es, rest_of_world := w\<rparr>)"

inductive engine_reaches :: "'w engine_host \<Rightarrow> process_engine \<times> 'w machine \<Rightarrow> process_engine \<times> 'w machine \<Rightarrow> bool"
  for H where
  start: "engine_reaches H s s"
| step: "engine_reaches H s t \<Longrightarrow> engine_step H t u \<Longrightarrow> engine_reaches H s u"

lemma machine_frames [simp]:
  "open_procs (remove_tree d m) = open_procs m" "next_proc (remove_tree d m) = next_proc m"
  "open_procs (unlink_path p m) = open_procs m" "next_proc (unlink_path p m) = next_proc m"
  "open_procs (put_entry p x m) = open_procs m" "next_proc (put_entry p x m) = next_proc m"
  by (simp_all add: remove_tree_def unlink_path_def put_entry_def)

lemma fold_frame:
  "(\<And>x m. open_procs (f x m) = open_procs m \<and> next_proc (f x m) = next_proc m) \<Longrightarrow>
   open_procs (fold f xs m) = open_procs m \<and> next_proc (fold f xs m) = next_proc m"
  by (induction xs arbitrary: m) simp_all

lemma put_segments_frame [simp]:
  "open_procs (put_segments d segs m) = open_procs m \<and> next_proc (put_segments d segs m) = next_proc m"
  using fold_frame [of "\<lambda>(n, s). put_entry (d @ ''/'' @ n) (Data s)" segs "make_dir d m"]
  by (simp add: put_segments_def split_beta)

lemma call_batch_frame:
  "call_batch H h ls env m = (r, m') \<Longrightarrow> open_procs m' = open_procs m \<and> next_proc m' = next_proc m"
  by (auto simp: call_batch_def split: prod.splits)

lemma ensure_machine:
  "ensure_writable_cwd H e m = (e1, m1) \<Longrightarrow> open_procs m1 = open_procs m \<and> next_proc m1 = next_proc m"
proof -
  assume "ensure_writable_cwd H e m = (e1, m1)"
  then have "m1 = snd (ensure_writable_cwd H e m)" by simp
  moreover have "open_procs (fold (link_missing a b) ns k) = open_procs k \<and>
      next_proc (fold (link_missing a b) ns k) = next_proc k" for a b ns and k :: "'a machine"
    by (rule fold_frame) (simp add: link_missing_def)
  ultimately show ?thesis by (simp add: ensure_writable_cwd_def Let_def)
qed

lemma runner_handles:
  assumes "runner H e m = (h, e1, m1)" "handles_ok e m"
  shows "handles_ok e1 m1"
proof (cases "pe_proc e")
  case None
  obtain e2 m2 where c: "ensure_writable_cwd H e m = (e2, m2)" by (cases "ensure_writable_cwd H e m")
  from assms(1) None c have "e1 = e2\<lparr>pe_proc := Some (next_proc m2)\<rparr>"
    "m1 = m2\<lparr>next_proc := next_proc m2 + 1, open_procs := open_procs m2 @ [next_proc m2]\<rparr>"
    by (auto simp: runner_def Let_def)
  with assms(2) None ensure_machine [OF c] show ?thesis by (auto simp: handles_ok_def)
qed (use assms in \<open>auto simp: runner_def\<close>)

lemma runner_inv: "runner H e m = (h, e1, m1) \<Longrightarrow> engine_inv e \<Longrightarrow> engine_inv e1"
  by (simp add: engine_inv_def engine_frame)

lemma collect_result_frame:
  "collect_result H q req path br e m = (r, e', m') \<Longrightarrow>
   e' = e \<and> open_procs m' = open_procs m \<and> next_proc m' = next_proc m"
  by (auto simp: collect_result_def read_and_delete_result_def split: sum.splits if_splits)

lemma handles_cong:
  "open_procs m' = open_procs m \<Longrightarrow> next_proc m' = next_proc m \<Longrightarrow> pe_proc e' = pe_proc e \<Longrightarrow>
   handles_ok e m \<Longrightarrow> handles_ok e' m'"
  by (simp add: handles_ok_def)

lemma run_keeps:
  assumes "run_engine H q phs e m = (r, e', m')" "engine_inv e" "handles_ok e m"
  shows "engine_inv e' \<and> handles_ok e' m'"
proof (cases "pe_hot e \<and> \<not> pe_loaded e")
  case False
  obtain h e1 m1 where c: "runner H e m = (h, e1, m1)" by (metis prod_cases3)
  define p where "p = result_path e1 (request_id H q phs)"
  define m3 where "m3 = (if exists_path p (make_dir (pe_result_dir e1) m1)
      then unlink_path p (make_dir (pe_result_dir e1) m1) else make_dir (pe_result_dir e1) m1)"
  obtain b m4 where k: "call_batch H h [request_line H q phs] (batch_env e1) m3 = (b, m4)"
    by (cases "call_batch H h [request_line H q phs] (batch_env e1) m3")
  have "open_procs m4 = open_procs m1 \<and> next_proc m4 = next_proc m1"
    using call_batch_frame [OF k] by (simp add: m3_def)
  moreover have "(r, e', m') = (case b of Inl exc \<Rightarrow> (Inl exc, e1, m4)
      | Inr br \<Rightarrow> collect_result H q (request_id H q phs) p br e1 m4)"
    using assms(1) False c k unfolding m3_def p_def
    by (auto simp: run_engine_def run_process_def Let_def split: sum.splits)
  ultimately have "e' = e1 \<and> open_procs m' = open_procs m1 \<and> next_proc m' = next_proc m1"
  proof (cases b)
    case (Inr br)
    assume "(r, e', m') = (case b of Inl exc \<Rightarrow> (Inl exc, e1, m4)
        | Inr br \<Rightarrow> collect_result H q (request_id H q phs) p br e1 m4)"
      and f: "open_procs m4 = open_procs m1 \<and> next_proc m4 = next_proc m1"
    with Inr have "collect_result H q (request_id H q phs) p br e1 m4 = (r, e', m')" by simp
    from collect_result_frame [OF this] f show ?thesis by simp
  qed simp
  with runner_inv [OF c assms(2)] runner_handles [OF c assms(3)] show ?thesis
    using handles_cong [of m' m1 e' e1] by simp
qed (use assms in \<open>auto simp: run_engine_def\<close>)

lemma load_keeps:
  assumes "load_data H e m = (r, e', m')" "engine_inv e" "handles_ok e m"
  shows "engine_inv e' \<and> handles_ok e' m'"
proof (cases "pe_hot e \<and> \<not> pe_loaded e \<or> pe_loaded_data e")
  case False
  obtain h e1 m1 where c: "runner H e m = (h, e1, m1)" by (metis prod_cases3)
  obtain b m2 where k: "call_batch H h [] (batch_env e1) (make_dir (pe_result_dir e1) m1) = (b, m2)"
    by (cases "call_batch H h [] (batch_env e1) (make_dir (pe_result_dir e1) m1)")
  have "engine_inv (e1\<lparr>pe_loaded_data := True\<rparr>)"
    using runner_inv [OF c assms(2)] runner_frame(6) [OF c] by (simp add: engine_inv_def)
  moreover have "m' = m2 \<and> (e' = e1 \<or> e' = e1\<lparr>pe_loaded_data := True\<rparr>)"
    using assms(1) False c k by (auto simp: load_data_def load_process_def split: sum.splits if_splits)
  moreover have "handles_ok (e1\<lparr>pe_loaded_data := b\<rparr>) m2" for b
    using call_batch_frame [OF k] runner_handles [OF c assms(3)]
      handles_cong [of m2 m1 "e1\<lparr>pe_loaded_data := b\<rparr>" e1] by simp
  moreover from this [of "pe_loaded_data e1"] have "handles_ok e1 m2" by simp
  ultimately show ?thesis using runner_inv [OF c assms(2)] by auto
qed (use assms in \<open>auto simp: load_data_def load_process_def split: if_splits\<close>)

lemma sweep_base_frame:
  "sweep_base H base m = (r, m') \<Longrightarrow> open_procs m' = open_procs m \<and> next_proc m' = next_proc m"
  using fold_frame [of "\<lambda>n. remove_tree (base @ ''/'' @ n)"]
  by (auto simp: sweep_base_def Let_def split: prod.splits)

lemma stage_frame:
  "stage_tables H base ts e m = (r, e', m') \<Longrightarrow>
   open_procs m' = open_procs m \<and> next_proc m' = next_proc m \<and> (e' = e \<or> (\<exists>d. e' = attach_snapshot d e))"
  by (auto simp: stage_tables_def Let_def split: prod.splits if_splits sum.splits option.splits)

lemma ingest_keeps:
  assumes "ingest H ts e m = (r, e', m')" "engine_inv e" "handles_ok e m" "pe_hot e"
  shows "engine_inv e' \<and> handles_ok e' m'"
proof -
  define base where "base = (case pe_shm_base e of None \<Rightarrow> default_shm | Some d \<Rightarrow> d)"
  obtain e1 m1 where d: "drop_snapshot e m = (e1, m1)" by (cases "drop_snapshot e m")
  obtain s m2 where w: "sweep_base H base (make_dir base m1) = (s, m2)"
    by (cases "sweep_base H base (make_dir base m1)")
  have inv1: "engine_inv e1" "pe_hot e1" and h1: "pe_proc e1 = pe_proc e"
    and m1: "open_procs m1 = open_procs m \<and> next_proc m1 = next_proc m"
    using d assms(2,4) by (auto simp: drop_snapshot_def engine_inv_def split: option.splits)
  have i: "(r, e', m') = (case s of Inl exc \<Rightarrow> (Inl exc, e1, m2) | Inr n \<Rightarrow> stage_tables H base ts e1 m2)"
    using assms(1) d w by (simp add: ingest_def base_def Let_def split: sum.splits)
  have "open_procs m' = open_procs m2 \<and> next_proc m' = next_proc m2 \<and> (e' = e1 \<or> (\<exists>d. e' = attach_snapshot d e1))"
    using i stage_frame [of H base ts e1 m2 r e' m'] by (cases s) simp_all
  moreover have "engine_inv (attach_snapshot d e1) \<and> pe_proc (attach_snapshot d e1) = pe_proc e1" for d
    using inv1 by (simp add: attach_snapshot_def engine_inv_def)
  ultimately show ?thesis
    using inv1 h1 m1 sweep_base_frame [OF w] handles_cong [of m' m e' e] assms(3) by auto
qed

lemma close_keeps:
  assumes "engine_inv e" "handles_ok e m"
  shows "engine_inv (fst (close_engine (e, m))) \<and> handles_ok (fst (close_engine (e, m))) (snd (close_engine (e, m)))"
  using assms
  by (auto simp: close_engine_def engine_inv_def handles_ok_def Let_def split: option.splits)

lemma step_keeps: "engine_step H s t \<Longrightarrow> engine_inv (fst s) \<Longrightarrow> handles_ok (fst s) (snd s) \<Longrightarrow>
   engine_inv (fst t) \<and> handles_ok (fst t) (snd t)"
proof (induction rule: engine_step.induct)
  case (close e m)
  then show ?case using close_keeps [of e m] by simp
next
  case (others e m es w)
  then show ?case by (simp add: handles_ok_def)
qed (use run_keeps load_keeps ingest_keeps in fastforce)+

lemma reaches_keeps: "engine_reaches H s t \<Longrightarrow> engine_inv (fst s) \<Longrightarrow> handles_ok (fst s) (snd s) \<Longrightarrow>
   engine_inv (fst t) \<and> handles_ok (fst t) (snd t)"
proof (induction rule: engine_reaches.induct)
  case (step s t u)
  then show ?case using step_keeps [of H t u] by blast
qed simp

lemma closed_engine:
  assumes "engine_inv e" "handles_ok e m" "close_engine (e, m) = (e', m')"
  shows "open_procs m' = [] \<and> \<not> engine_health e' m' \<and>
    (\<forall>d p. pe_ingest_dir e = Some d \<longrightarrow> below d p \<longrightarrow> map_of (entries m') p = None)"
proof -
  have "map_of (filter (\<lambda>(q, x). \<not> below d q) es) p = None" if "below d p" for d p and es :: "(string \<times> entry) list"
    using that by (induction es) auto
  moreover have "set (open_procs m') = {}"
    using assms(2,3) by (auto simp: close_engine_def handles_ok_def Let_def split: option.splits if_splits)
  ultimately show ?thesis
    using assms(1,3)
    by (auto simp: close_engine_def engine_inv_def engine_health_def remove_tree_def Let_def
        split: if_splits option.splits)
qed

text \<open>
  C22. The life of a hot-load engine, whatever order its calls come in and whatever other processes do
  to the files: a snapshot is attached exactly while it reports loaded and the loader is pointed at
  it, data counts as resident only with a live subprocess, at most one subprocess handle is open; and
  closing releases everything - no handle stays open, no file stays under the snapshot's directory,
  and the engine is unhealthy from then on.
\<close>

theorem engine_lifecycle:
  assumes "engine_reaches H (new_hot_engine eid ws shm env, m0) (e, m)" "open_procs m0 = []"
    and "close_engine (e, m) = (e', m')"
  shows "engine_inv e \<and> (\<forall>h. h \<in> set (open_procs m) \<longleftrightarrow> pe_proc e = Some h) \<and>
    open_procs m' = [] \<and> \<not> engine_health e' m' \<and>
    (\<forall>d p. pe_ingest_dir e = Some d \<longrightarrow> below d p \<longrightarrow> map_of (entries m') p = None)"
proof -
  have "engine_inv (new_hot_engine eid ws shm env)" "handles_ok (new_hot_engine eid ws shm env) m0"
    using assms(2) by (simp_all add: engine_inv_def handles_ok_def new_hot_engine_def new_process_engine_def)
  with reaches_keeps [OF assms(1)] have inv: "engine_inv e" "handles_ok e m" by simp_all
  with closed_engine [OF inv assms(3)] show ?thesis by (simp add: handles_ok_def)
qed

theorem engine_lifecycle_witness:
  "\<exists>e' m'. close_engine (new_hot_engine ''eng-1'' ''/e'' None [], demo_machine) = (e', m') \<and>
     \<not> engine_health e' m'"
proof -
  let ?s = "close_engine (new_hot_engine ''eng-1'' ''/e'' None [], demo_machine)"
  obtain e' m' where c: "?s = (e', m')" by (cases ?s)
  have "engine_reaches demo_host (new_hot_engine ''eng-1'' ''/e'' None [], demo_machine)
      (new_hot_engine ''eng-1'' ''/e'' None [], demo_machine)" by (rule engine_reaches.start)
  from engine_lifecycle [OF this _ c] have "\<not> engine_health e' m'" by (simp add: demo_machine_def)
  with c show ?thesis by blast
qed

section \<open>Staging is all or nothing\<close>

lemma put_segments_lookup:
  assumes "distinct (map fst segs)" "map_of segs n = Some s"
  shows "map_of (entries (put_segments d segs m)) (d @ ''/'' @ n) = Some (Data s)"
proof -
  have "map_of (entries (fold (\<lambda>(n, s). put_entry (d @ ''/'' @ n) (Data s)) xs k)) (d @ ''/'' @ n) =
      (case map_of (rev xs) n of None \<Rightarrow> map_of (entries k) (d @ ''/'' @ n) | Some s \<Rightarrow> Some (Data s))"
    for xs and k :: "'a machine"
    by (induction xs arbitrary: k) (auto simp: put_entry_def map_add_def split: option.splits)
  moreover have "map_of (rev segs) n = Some s"
    using assms by (metis map_of_eq_Some_iff distinct_rev rev_map set_rev)
  ultimately show ?thesis by (simp add: put_segments_def)
qed

lemma write_segments_distinct:
  "write_segments ipc ts acc d = (r, Some d') \<Longrightarrow> distinct (map fst d) \<Longrightarrow> distinct (map fst d')"
  by (induction ipc ts acc d rule: write_segments.induct)
    (auto simp: write_ipc_def distinct_update split: prod.splits sum.splits ipc_outcome.splits)

lemma map_of_filter_key:
  "map_of (filter (\<lambda>(q, x). P q) es) p = (if P p then map_of es p else None)"
  by (induction es) auto

lemma remove_tree_lookup:
  "map_of (entries (remove_tree d m)) p = (if below d p then None else map_of (entries m) p)"
  by (simp add: remove_tree_def map_of_filter_key)

text \<open>The files of one machine are files of another, a folder \<open>b\<close> apart.\<close>

definition files_within :: "string \<Rightarrow> 'w machine \<Rightarrow> 'w machine \<Rightarrow> bool" where
  "files_within b m' m \<longleftrightarrow>
     (\<forall>p x. map_of (entries m') p = Some x \<longrightarrow> map_of (entries m) p = Some x \<or> p = b \<and> x = Folder)"

lemma files_within_trans: "files_within b m2 m1 \<Longrightarrow> files_within b m1 m \<Longrightarrow> files_within b m2 m"
  by (fastforce simp: files_within_def)

lemma files_within_remove: "files_within b (remove_tree d m) m"
  by (simp add: files_within_def remove_tree_lookup)

lemma files_within_sweep: "sweep_base H base m = (r, m') \<Longrightarrow> files_within b m' m"
proof -
  have "files_within b (fold (\<lambda>n. remove_tree (base @ ''/'' @ n)) ns k) k" for ns k
  proof (induction ns arbitrary: k)
    case (Cons n ns)
    show ?case using files_within_trans [OF Cons.IH files_within_remove] by simp
  qed (simp add: files_within_def)
  moreover assume "sweep_base H base m = (r, m')"
  ultimately show ?thesis by (auto simp: sweep_base_def Let_def split: prod.splits)
qed

lemma stage_failed:
  assumes "stage_tables H base ts e m = (Inl exc, e', m')"
  shows "e' = e \<and> files_within b m' m"
  using assms files_within_remove
  by (auto simp: stage_tables_def Let_def files_within_def remove_tree_lookup make_dir_def put_entry_def
      below_def split: prod.splits if_splits sum.splits option.splits)

lemma stage_done:
  assumes "stage_tables H base ts e m = (Inr u, e', m')" "distinct (map fst ts)"
  shows "\<exists>d. e' = attach_snapshot d e \<and>
    (\<forall>(n, t) \<in> set ts. \<exists>k. map_of (entries m') (d @ ''/'' @ n @ ''.arrow'') = Some (Data (Complete t k)))"
proof -
  obtain r segs where w: "write_arrow_segments (arrow_ipc H) ts [] = (r, segs)"
    by (cases "write_arrow_segments (arrow_ipc H) ts []")
  have "segs \<noteq> None" if "r = Inr k" for k
  proof -
    have "snd (write_segments ipc xs acc d) \<noteq> None" if "fst (write_segments ipc xs acc d) = Inr k" for ipc xs acc d
      using that by (induction ipc xs acc d rule: write_segments.induct) (auto split: prod.splits sum.splits)
    with w that show ?thesis by (metis write_arrow_segments_def fst_conv snd_conv)
  qed
  with assms(1) w obtain n sg where r: "r = Inr n" "segs = Some sg"
    and e: "e' = attach_snapshot (ingest_dir_name H base m) e" and m: "m' = put_segments (ingest_dir_name H base m) sg m"
    by (auto simp: stage_tables_def Let_def split: prod.splits if_splits sum.splits option.splits)
  from w r have s: "write_segments (arrow_ipc H) ts 0 [] = (Inr n, Some sg)" by (simp add: write_arrow_segments_def)
  have "\<exists>k. map_of (entries m') (ingest_dir_name H base m @ ''/'' @ nm @ ''.arrow'') = Some (Data (Complete t k))"
    if "(nm, t) \<in> set ts" for nm t
  proof -
    from write_segments_complete [OF s assms(2) that] obtain k where "map_of sg (nm @ ''.arrow'') = Some (Complete t k)" ..
    moreover have "distinct (map fst sg)" using write_segments_distinct [OF s] by simp
    ultimately show ?thesis unfolding m by (intro exI [of _ k] put_segments_lookup)
  qed
  with e show ?thesis by blast
qed

text \<open>
  C21. Staging is all or nothing: when \<open>ingest\<close> succeeds, every table given to it is a complete segment
  of the snapshot the engine now serves from; when it raises (no room, a failed write, a failed
  sweep), the engine has no snapshot, reports unhealthy, and no file was left behind - at most the
  empty base folder is new.
\<close>

theorem ingest_all_or_nothing:
  assumes "ingest H ts e m = (r, e', m')" "engine_inv e" "pe_hot e" "distinct (map fst ts)"
  shows "(case r of
      Inr u \<Rightarrow> \<exists>d. pe_ingest_dir e' = Some d \<and> pe_loaded e' \<and>
        (\<forall>(n, t) \<in> set ts. \<exists>k. map_of (entries m') (d @ ''/'' @ n @ ''.arrow'') = Some (Data (Complete t k)))
    | Inl exc \<Rightarrow> pe_ingest_dir e' = None \<and> \<not> engine_health e' m' \<and>
        files_within (case pe_shm_base e of None \<Rightarrow> default_shm | Some d \<Rightarrow> d) m' m)"
proof -
  define base where "base = (case pe_shm_base e of None \<Rightarrow> default_shm | Some d \<Rightarrow> d)"
  obtain e1 m1 where d: "drop_snapshot e m = (e1, m1)" by (cases "drop_snapshot e m")
  obtain s m2 where w: "sweep_base H base (make_dir base m1) = (s, m2)"
    by (cases "sweep_base H base (make_dir base m1)")
  have e1: "pe_ingest_dir e1 = None" "\<not> pe_loaded e1" "pe_hot e1"
    using d assms(2,3) by (auto simp: drop_snapshot_def engine_inv_def split: option.splits)
  have i: "(r, e', m') = (case s of Inl exc \<Rightarrow> (Inl exc, e1, m2) | Inr n \<Rightarrow> stage_tables H base ts e1 m2)"
    using assms(1) d w by (simp add: ingest_def base_def Let_def split: sum.splits)
  have "files_within base m1 m"
    using d by (auto simp: drop_snapshot_def files_within_def remove_tree_lookup split: option.splits if_splits)
  moreover have "files_within base (make_dir base m1) m1"
    by (auto simp: files_within_def make_dir_def put_entry_def)
  ultimately have m2: "files_within base m2 m"
    using files_within_sweep [OF w, of base] files_within_trans by blast
  show ?thesis
  proof (cases r)
    case (Inl exc)
    have "e' = e1 \<and> files_within base m' m"
    proof (cases s)
      case (Inr n)
      with i Inl have "stage_tables H base ts e1 m2 = (Inl exc, e', m')" by simp
      from stage_failed [OF this, of base] m2 files_within_trans show ?thesis by blast
    qed (use i m2 in simp)
    with Inl e1 show ?thesis by (simp add: engine_health_def base_def)
  next
    case (Inr u)
    with i have "stage_tables H base ts e1 m2 = (Inr u, e', m')" by (cases s) simp_all
    from stage_done [OF this assms(4)] Inr show ?thesis by (auto simp: attach_snapshot_def)
  qed
qed

text \<open>A machine with no free shared memory: the engine stays unloaded.\<close>

theorem ingest_all_or_nothing_witness:
  "\<exists>exc e' m'. ingest demo_host [(''orders'', one_row)] (new_hot_engine ''eng-1'' ''/e'' None []) demo_machine =
      (Inl exc, e', m') \<and> \<not> engine_health e' m'"
proof -
  let ?e = "new_hot_engine ''eng-1'' ''/e'' None []"
  let ?r = "ingest demo_host [(''orders'', one_row)] ?e demo_machine"
  obtain r e' m' where i: "?r = (r, e', m')" by (rule prod_cases3)
  have inv: "engine_inv ?e" "pe_hot ?e" "distinct (map fst [(''orders'', one_row)])"
    by (simp_all add: engine_inv_def new_hot_engine_def new_process_engine_def)
  have nofit: "fst (check_shm_budget 0 0 8) = False" by (simp add: check_shm_budget_def Let_def)
  have "list_dir default_shm (make_dir default_shm demo_machine) = []"
    by code_simp
  then have "sweep_base demo_host default_shm (make_dir default_shm demo_machine) =
      (Inr 0, make_dir default_shm demo_machine)" by (simp add: sweep_base_def)
  then have "fst ?r = fst (stage_tables demo_host default_shm [(''orders'', one_row)] ?e (make_dir default_shm demo_machine))"
    by (simp add: ingest_def drop_snapshot_def new_hot_engine_def new_process_engine_def Let_def)
  also have "\<dots> = Inl (EngineResourceError (''not enough shared memory to hot-load this database into '' @ default_shm))"
    using nofit by (simp add: stage_tables_def demo_host_def check_shm_budget_def Let_def)
  finally have "r = Inl (EngineResourceError (''not enough shared memory to hot-load this database into '' @ default_shm))"
    by (simp only: i fst_conv)
  with ingest_all_or_nothing [OF i inv] i show ?thesis by auto
qed

section \<open>Where a hot-load engine writes its results\<close>

text \<open>
  On a workspace the user cannot write, the first run moves the result directory that \<open>ingest\<close> had
  put into shared memory to the scratch workspace on disk.
\<close>

lemma hot_results_leave_shm:
  assumes "pe_proc e = None" "\<not> can_write H (pe_workspace e @ ''/build/.reload'') m"
    and "\<not> can_write H (pe_workspace e @ ''/build'') m" "runner H (attach_snapshot d e) m = (h, e1, m1)"
  shows "pe_result_dir e1 = scratch_dir H (pe_engine_id e) @ ''/results''"
  using assms by (auto simp: runner_def ensure_writable_cwd_def attach_snapshot_def Let_def)

end
