(* ===== verification/Live_Catalog.thy ===== *)
theory Live_Catalog
  imports Py_Effects Template_Registry "HOL-Library.Multiset"
begin

text \<open>
  What the runtime asks of the live DuckDB connection besides running the user's statement
  (third-party, so a record of functions on the outside world \<open>'w\<close>), and the schema fingerprint
  \<open>SynnoConnection.schema_fingerprint\<close> computed from it. Each field is one call of the source:
  \<^item> \<open>column_rows t\<close>: the \<open>(column_name, data_type)\<close> rows of \<open>information_schema.columns\<close>
    where \<open>lower(table_name) = t\<close>, in ordinal order;
  \<^item> \<open>session_row\<close>: the one row of \<open>current_database()\<close> and the session settings, as text;
  \<^item> \<open>table_names\<close>: the distinct lower-case names of \<open>information_schema.tables\<close>;
  \<^item> \<open>describe_sql s\<close>: the \<open>(name, str(type))\<close> pairs of the description of \<open>s\<close>;
  \<^item> \<open>fetch_arrow s\<close>: executing \<open>s\<close> and \<open>to_arrow_table()\<close>;
  \<^item> \<open>exec_sql s\<close>: executing \<open>s\<close>, its result dropped.
\<close>

type_synonym arrow_columns = "(string \<times> pyval list) list"

record 'w catalog =
  column_rows :: "string \<Rightarrow> ('w, (string \<times> string) list) eff"
  session_row :: "('w, string list) eff"
  table_names :: "('w, string list) eff"
  describe_sql :: "string \<Rightarrow> ('w, (string \<times> string) list) eff"
  fetch_arrow :: "string \<Rightarrow> ('w, arrow_columns) eff"
  exec_sql :: "string \<Rightarrow> ('w, unit) eff"
  cat_exc_text :: "py_error \<Rightarrow> string"

section \<open>The schema fingerprint\<close>

definition session_part :: "'w catalog \<Rightarrow> ('w, string) eff" where
  "session_part C = try_eff
     (bind_eff (session_row C) (\<lambda>vs. return_eff (''session('' @ py_join '','' vs @ '')'')))
     (\<lambda>e. return_eff ''session(<unavailable>)'')"

definition columns_text :: "(string \<times> string) list \<Rightarrow> string" where
  "columns_text rows =
     (if rows = [] then ''<missing>''
      else py_join '','' (map (\<lambda>(n, d). n @ '':'' @ d) rows))"

definition table_part :: "'w catalog \<Rightarrow> string \<Rightarrow> ('w, string) eff" where
  "table_part C t = bind_eff (try_eff (column_rows C t) (\<lambda>e. return_eff []))
     (\<lambda>rows. return_eff (t @ ''('' @ columns_text rows @ '')''))"

text \<open>\<open>digest16\<close> is \<open>hashlib.sha256(s.encode()).hexdigest()[:16]\<close>.\<close>

definition fingerprint_text :: "'w catalog \<Rightarrow> string list \<Rightarrow> ('w, string) eff" where
  "fingerprint_text C ts = bind_eff (session_part C) (\<lambda>s.
     bind_eff (traverse_eff (table_part C) (sort (map py_lower ts))) (\<lambda>ps.
       return_eff (py_join ''|'' (s # ps))))"

definition live_fingerprint :: "(string \<Rightarrow> string) \<Rightarrow> 'w catalog \<Rightarrow> string list \<Rightarrow> ('w, string) eff" where
  "live_fingerprint digest16 C ts =
     bind_eff (fingerprint_text C ts) (\<lambda>s. return_eff (digest16 s))"

section \<open>Lemmas\<close>

text \<open>The fingerprint never raises, whatever the catalog answers.\<close>

lemma session_part_total: "\<exists>s w'. session_part C w = (Inr s, w')"
  by (auto simp: session_part_def eff_simps split: prod.splits sum.splits)

lemma table_part_total: "\<exists>s w'. table_part C t w = (Inr s, w')"
  by (auto simp: table_part_def eff_simps split: prod.splits sum.splits)

lemma traverse_total:
  "(\<And>x w. \<exists>y w'. f x w = (Inr y, w')) \<Longrightarrow> \<exists>ys w'. traverse_eff f xs w = (Inr ys, w')"
proof (induction xs arbitrary: w)
  case (Cons x xs)
  obtain y w1 where f: "f x w = (Inr y, w1)" using Cons.prems by blast
  obtain ys w2 where "traverse_eff f xs w1 = (Inr ys, w2)" using Cons.IH Cons.prems by blast
  with f show ?case by (simp add: eff_simps)
qed (simp add: eff_simps)

lemma fingerprint_total: "\<exists>s w'. live_fingerprint d C ts w = (Inr s, w')"
proof -
  obtain s w1 where s: "session_part C w = (Inr s, w1)" using session_part_total [of C w] by blast
  obtain ps w2 where "traverse_eff (table_part C) (sort (map py_lower ts)) w1 = (Inr ps, w2)"
    using traverse_total [of "table_part C", OF table_part_total] by blast
  with s show ?thesis by (simp add: live_fingerprint_def fingerprint_text_def eff_simps)
qed

text \<open>The order and the case in which the tables are listed do not matter.\<close>

lemma fingerprint_order:
  "mset (map py_lower ts) = mset (map py_lower us) \<Longrightarrow>
   live_fingerprint d C ts = live_fingerprint d C us"
  using properties_for_sort [of "sort (map py_lower us)" "map py_lower ts"]
  by (simp add: live_fingerprint_def fingerprint_text_def)

section \<open>What a fingerprint can tell apart\<close>

text \<open>Column names without separators, type spellings without a colon (they hold commas).\<close>

definition plain_columns :: "(string \<times> string) list \<Rightarrow> bool" where
  "plain_columns rows \<longleftrightarrow> list_all (\<lambda>(n, d). CHR '':'' \<notin> set n \<and> CHR '','' \<notin> set n \<and>
     CHR ''|'' \<notin> set n \<and> CHR '':'' \<notin> set d \<and> CHR ''|'' \<notin> set d) rows"

lemma split_first:
  "x \<notin> set a \<Longrightarrow> x \<notin> set b \<Longrightarrow> a @ x # u = b @ x # v \<Longrightarrow> a = b \<and> u = v"
  by (induction a arbitrary: b) (case_tac b; force)+

lemma split_last:
  assumes "x \<notin> set u" "x \<notin> set v" "a @ x # u = b @ x # v"
  shows "a = b \<and> u = v"
proof -
  from assms(3) have "rev u @ x # rev a = rev v @ x # rev b" by (metis append_assoc append_Cons append_Nil rev.simps(2) rev_append)
  with assms show ?thesis using split_first [of x "rev u" "rev v" "rev a" "rev b"] by simp
qed

definition column_tail :: "(string \<times> string) list \<Rightarrow> string" where
  "column_tail rows = concat (map (\<lambda>(n, d). '','' @ n @ '':'' @ d) rows)"

lemma py_join_tail:
  "py_join '','' (map (\<lambda>(n, d). n @ '':'' @ d) ((n, d) # rows)) = n @ '':'' @ d @ column_tail rows"
  by (induction rows arbitrary: n d) (auto simp: column_tail_def)

lemma column_tail_inject:
  "plain_columns ((n, d) # xs) \<Longrightarrow> plain_columns ((m, e) # ys) \<Longrightarrow>
   n @ '':'' @ d @ column_tail xs = m @ '':'' @ e @ column_tail ys \<Longrightarrow> (n, d) # xs = (m, e) # ys"
proof (induction xs arbitrary: n d m e ys)
  case Nil
  then have nd: "n = m \<and> d = e @ column_tail ys"
    using split_first [of "CHR '':''" n m] by (simp add: plain_columns_def column_tail_def)
  show ?case
  proof (cases ys)
    case (Cons y zs)
    obtain m2 e2 where "y = (m2, e2)" by (cases y)
    with Cons nd have "CHR '':'' \<in> set d" by (simp add: column_tail_def)
    with Nil(1) show ?thesis by (simp add: plain_columns_def)
  qed (use nd in \<open>simp add: column_tail_def\<close>)
next
  case (Cons x xs)
  obtain n2 d2 where x: "x = (n2, d2)" by (cases x)
  from Cons.prems have nm: "n = m" and rest: "d @ column_tail (x # xs) = e @ column_tail ys"
    using split_first [of "CHR '':''" n m] by (simp_all add: plain_columns_def)
  show ?case
  proof (cases ys)
    case Nil
    with rest have "CHR '':'' \<in> set e" using x
      by (auto simp: column_tail_def dest: arg_cong [of _ _ set])
    with Cons.prems(2) show ?thesis by (simp add: plain_columns_def)
  next
    case (Cons y zs)
    obtain m2 e2 where y: "y = (m2, e2)" by (cases y)
    have eq: "(d @ '','' @ n2) @ CHR '':'' # (d2 @ column_tail xs) =
        (e @ '','' @ m2) @ CHR '':'' # (e2 @ column_tail zs)"
      using rest x y Cons by (simp add: column_tail_def)
    have "CHR '':'' \<notin> set (d @ '','' @ n2)" "CHR '':'' \<notin> set (e @ '','' @ m2)"
      using Cons.prems(1,2) x y \<open>ys = y # zs\<close> by (auto simp: plain_columns_def)
    from split_first [OF this eq] have de: "d @ CHR '','' # n2 = e @ CHR '','' # m2"
      and tl: "d2 @ column_tail xs = e2 @ column_tail zs" by auto
    have "CHR '','' \<notin> set n2" "CHR '','' \<notin> set m2"
      using Cons.prems(1,2) x y \<open>ys = y # zs\<close> by (auto simp: plain_columns_def)
    from split_last [OF this de] have "d = e" "n2 = m2" by auto
    moreover have "(n2, d2) # xs = (m2, e2) # zs"
      using Cons.prems(1,2) x y \<open>ys = y # zs\<close> tl \<open>n2 = m2\<close>
      by (intro Cons.IH) (auto simp: plain_columns_def)
    ultimately show ?thesis using nm x y \<open>ys = y # zs\<close> by simp
  qed
qed

lemma columns_text_inject:
  assumes "plain_columns xs" "plain_columns ys" "columns_text xs = columns_text ys"
  shows "xs = ys"
proof -
  have colon: "CHR '':'' \<in> set (columns_text ((n, d) # zs))" for n d zs
    unfolding columns_text_def by (simp only: py_join_tail list.distinct if_False) simp
  have nocolon: "CHR '':'' \<notin> set (columns_text [])" by (simp add: columns_text_def)
  show ?thesis
  proof (cases xs; cases ys)
    fix x us y vs assume l: "xs = x # us" "ys = y # vs"
    obtain n d m e where p: "x = (n, d)" "y = (m, e)" by (cases x; cases y)
    from assms(3) have "n @ '':'' @ d @ column_tail us = m @ '':'' @ e @ column_tail vs"
      unfolding l p columns_text_def by (simp only: py_join_tail list.distinct if_False)
    with column_tail_inject assms(1,2) show "xs = ys" unfolding l p by blast
  next
    fix y vs assume "xs = []" "ys = y # vs"
    with assms(3) colon nocolon show "xs = ys" by (metis surj_pair)
  next
    fix x us assume "xs = x # us" "ys = []"
    with assms(3) colon nocolon show "xs = ys" by (metis surj_pair)
  qed simp
qed

text \<open>Without the restriction a quoted column name can imitate two columns.\<close>

lemma fingerprint_ambiguous:
  "columns_text [(''a:INTEGER,b'', ''VARCHAR'')] = columns_text [(''a'', ''INTEGER''), (''b'', ''VARCHAR'')]"
  by (simp add: columns_text_def)

section \<open>Drift is detected\<close>

text \<open>The text that is hashed, when the catalog only reads.\<close>

definition fingerprint_of :: "(string \<Rightarrow> (string \<times> string) list) \<Rightarrow> string list \<Rightarrow> string list \<Rightarrow> string" where
  "fingerprint_of cols vs ts = py_join ''|''
     ((''session('' @ py_join '','' vs @ '')'')
      # map (\<lambda>t. t @ ''('' @ columns_text (cols t) @ '')'') (sort (map py_lower ts)))"

lemma live_fingerprint_read:
  assumes "\<And>t. column_rows C t w = (Inr (cols t), w)" "session_row C w = (Inr vs, w)"
  shows "live_fingerprint digest16 C ts w = (Inr (digest16 (fingerprint_of cols vs ts)), w)"
proof -
  have "table_part C t w = (Inr (t @ ''('' @ columns_text (cols t) @ '')''), w)" for t
    using assms(1) by (simp add: table_part_def eff_simps)
  then have "traverse_eff (table_part C) (sort (map py_lower ts)) w =
      (Inr (map (\<lambda>t. t @ ''('' @ columns_text (cols t) @ '')'') (sort (map py_lower ts))), w)" by (intro traverse_eff_read)
  then show ?thesis
    using assms(2)
    by (simp add: live_fingerprint_def fingerprint_text_def fingerprint_of_def session_part_def eff_simps)
qed

lemma columns_text_no_bar: "plain_columns rows \<Longrightarrow> CHR ''|'' \<notin> set (columns_text rows)"
proof (cases rows)
  case (Cons x xs)
  obtain n d where "x = (n, d)" by (cases x)
  moreover assume "plain_columns rows"
  ultimately show ?thesis using Cons
    unfolding columns_text_def by (simp only: py_join_tail list.distinct if_False)
      (fastforce simp: plain_columns_def column_tail_def list_all_iff)
qed (simp add: columns_text_def)

lemma py_join_set: "set (py_join sep ps) \<subseteq> set sep \<union> (\<Union>p \<in> set ps. set p)"
  by (induction sep ps rule: py_join.induct) auto

lemma fingerprint_of_inject:
  assumes "\<And>t. plain_columns (cols t)" "\<And>t. plain_columns (dols t)"
    and "list_all (\<lambda>x. CHR ''|'' \<notin> set x) (vs @ us @ map py_lower ts)"
  shows "fingerprint_of cols vs ts = fingerprint_of dols us ts \<longleftrightarrow>
    py_join '','' vs = py_join '','' us \<and> (\<forall>t \<in> set ts. cols (py_lower t) = dols (py_lower t))"
proof -
  let ?p = "\<lambda>f. map (\<lambda>t. t @ ''('' @ columns_text (f t) @ '')'') (sort (map py_lower ts))"
  have no_bar: "CHR ''|'' \<notin> set (py_join '','' xs)" if "list_all (\<lambda>x. CHR ''|'' \<notin> set x) xs" for xs
    using py_join_set [of "'',''" xs] that by (fastforce simp: list_all_iff)
  have ok: "list_all (\<lambda>x. CHR ''|'' \<notin> set x) ((''session('' @ py_join '','' xs @ '')'') # ?p f)"
    if "list_all (\<lambda>x. CHR ''|'' \<notin> set x) xs" "\<And>t. plain_columns (f t)" for xs f
    using assms(3) that no_bar [OF that(1)] columns_text_no_bar by (auto simp: list_all_iff)
  have "fingerprint_of cols vs ts = fingerprint_of dols us ts \<longleftrightarrow>
      (''session('' @ py_join '','' vs @ '')'') # ?p cols = (''session('' @ py_join '','' us @ '')'') # ?p dols"
    unfolding fingerprint_of_def using assms by (intro py_join_inject ok) simp_all
  also have "\<dots> \<longleftrightarrow> py_join '','' vs = py_join '','' us \<and>
      (\<forall>t \<in> set ts. columns_text (cols (py_lower t)) = columns_text (dols (py_lower t)))"
    by simp
  also have "\<dots> \<longleftrightarrow> py_join '','' vs = py_join '','' us \<and> (\<forall>t \<in> set ts. cols (py_lower t) = dols (py_lower t))"
    using columns_text_inject assms(1,2) by metis
  finally show ?thesis .
qed


text \<open>A read-only catalog over a fixed schema, used by the witnesses.\<close>

definition still_catalog :: "(string \<Rightarrow> (string \<times> string) list) \<Rightarrow> string list \<Rightarrow> 'w catalog" where
  "still_catalog cols ts =
     \<lparr>column_rows = (\<lambda>t. return_eff (cols t)), session_row = return_eff [''memory'', ''main''],
      table_names = return_eff ts, describe_sql = (\<lambda>s. return_eff [(''n'', ''BIGINT'')]),
      fetch_arrow = (\<lambda>s. return_eff [(''n'', [PInt 1])]), exec_sql = (\<lambda>s. return_eff ()),
      cat_exc_text = (\<lambda>e. ''failed'')\<rparr>"


end
