(* ===== verification/Engine_Manifest.thy ===== *)
theory Engine_Manifest
  imports Live_Catalog Synno_Errors
begin

text \<open>
  The engine manifest of \<open>router/manifest.py\<close>: the content-addressed engine id, the decoding and
  encoding of \<open>manifest.json\<close>, the typing of placeholder samples and the compatibility check
  against the live schema. A JSON document is the datatype \<open>json\<close> (the text codec is the
  standard library's). The decoder is modelled on values of the types the dataclasses declare;
  a value of another type, which Python would store unchecked, is a \<open>TypeError\<close> here.
\<close>

section \<open>JSON\<close>

datatype json =
    JNull
  | JBool bool
  | JInt int
  | JFloat pyfloat
  | JStr string
  | JList "json list"
  | JDict "(string \<times> json) list"

definition json_get :: "(string \<times> json) list \<Rightarrow> string \<Rightarrow> json \<Rightarrow> json" where
  "json_get d k dflt = (case map_of d k of Some v \<Rightarrow> v | None \<Rightarrow> dflt)"

definition json_item :: "(string \<times> json) list \<Rightarrow> string \<Rightarrow> py_error + json" where
  "json_item d k = (case map_of d k of Some v \<Rightarrow> Inr v | None \<Rightarrow> Inl (KeyError k))"

definition json_truthy :: "json \<Rightarrow> bool" where
  "json_truthy j = (case j of JNull \<Rightarrow> False | JBool b \<Rightarrow> b | JInt i \<Rightarrow> i \<noteq> 0
     | JFloat a \<Rightarrow> a \<noteq> Num (Fin 0) | JStr s \<Rightarrow> s \<noteq> [] | JList xs \<Rightarrow> xs \<noteq> [] | JDict d \<Rightarrow> d \<noteq> [])"

definition ill_typed :: "py_error + 'a" where
  "ill_typed = Inl (TypeError ''ill-typed manifest'')"

definition as_str :: "json \<Rightarrow> py_error + string" where
  "as_str j = (case j of JStr s \<Rightarrow> Inr s | _ \<Rightarrow> ill_typed)"

definition as_int :: "json \<Rightarrow> py_error + int" where
  "as_int j = (case j of JInt i \<Rightarrow> Inr i | _ \<Rightarrow> ill_typed)"

definition as_list :: "json \<Rightarrow> py_error + json list" where
  "as_list j = (case j of JList xs \<Rightarrow> Inr xs | _ \<Rightarrow> ill_typed)"

definition as_dict :: "json \<Rightarrow> py_error + (string \<times> json) list" where
  "as_dict j = (case j of JDict d \<Rightarrow> Inr d | _ \<Rightarrow> ill_typed)"

definition as_float :: "json \<Rightarrow> py_error + pyfloat" where
  "as_float j = (case j of JFloat a \<Rightarrow> Inr a | JInt i \<Rightarrow> Inr (Num (Fin (of_int i))) | _ \<Rightarrow> ill_typed)"

definition optional :: "(json \<Rightarrow> py_error + 'a) \<Rightarrow> json \<Rightarrow> py_error + 'a option" where
  "optional f j = (if j = JNull then Inr None else ebind (f j) (\<lambda>a. Inr (Some a)))"

definition json_opt :: "('a \<Rightarrow> json) \<Rightarrow> 'a option \<Rightarrow> json" where
  "json_opt f a = (case a of None \<Rightarrow> JNull | Some x \<Rightarrow> f x)"

text \<open>\<open>float(v)\<close> of a JSON value; an integer beyond the range of a double raises \<open>OverflowError\<close>.\<close>

definition double_limit :: int where
  "double_limit = 2 ^ 1024 - 2 ^ 970"

definition json_float :: "json \<Rightarrow> py_error + pyfloat" where
  "json_float j = (case j of
     JFloat a \<Rightarrow> Inr a
   | JInt i \<Rightarrow> if double_limit \<le> \<bar>i\<bar> then Inl (OverflowError ''int too large to convert to float'')
              else Inr (Num (Fin (of_int i)))
   | JBool b \<Rightarrow> Inr (Num (Fin (if b then 1 else 0)))
   | JStr s \<Rightarrow> (case py_float_of_str s of Some a \<Rightarrow> Inr a | None \<Rightarrow> Inl (ValueError ''could not convert string to float''))
   | _ \<Rightarrow> Inl (TypeError ''float() argument must be a string or a real number''))"

section \<open>Query templates\<close>

record query_template =
  qt_query_id :: string
  qt_sql_template :: string
  qt_placeholders :: "placeholder_spec list"

text \<open>Only a placeholder inside a literal carries its affixes and group.\<close>

definition placeholder_row :: "placeholder_spec \<Rightarrow> json" where
  "placeholder_row p =
     (if ph_prefix p \<noteq> [] \<or> ph_suffix p \<noteq> [] \<or> ph_group p \<noteq> -1
      then JList [JStr (ph_name p), JStr (ph_type p), JStr (ph_prefix p), JStr (ph_suffix p), JInt (ph_group p)]
      else JList [JStr (ph_name p), JStr (ph_type p)])"

text \<open>\<open>PlaceholderSpec(*row)\<close>: two positional fields, three more with defaults.\<close>

definition placeholder_of_row :: "json \<Rightarrow> py_error + placeholder_spec" where
  "placeholder_of_row row = ebind (as_list row) (\<lambda>xs.
     if length xs < 2 \<or> 5 < length xs then Inl (TypeError ''PlaceholderSpec.__init__()'')
     else ebind (as_str (xs ! 0)) (\<lambda>n. ebind (as_str (xs ! 1)) (\<lambda>t.
       ebind (if 2 < length xs then as_str (xs ! 2) else Inr '''') (\<lambda>p.
       ebind (if 3 < length xs then as_str (xs ! 3) else Inr '''') (\<lambda>s.
       ebind (if 4 < length xs then as_int (xs ! 4) else Inr (-1)) (\<lambda>g.
         Inr \<lparr>ph_name = n, ph_type = t, ph_prefix = p, ph_suffix = s, ph_group = g\<rparr>))))))"

definition query_to_dict :: "query_template \<Rightarrow> json" where
  "query_to_dict q = JDict
     [(''query_id'', JStr (qt_query_id q)),
      (''sql_template'', JStr (qt_sql_template q)),
      (''placeholders'', JList (map placeholder_row (qt_placeholders q)))]"

text \<open>\<open>str(d["query_id"])\<close>: a query id written as a number is read as its text.\<close>

definition str_of_json :: "json \<Rightarrow> py_error + string" where
  "str_of_json j = (case j of JStr s \<Rightarrow> Inr s | JInt i \<Rightarrow> Inr (str_int i) | JNull \<Rightarrow> Inr ''None''
     | JBool b \<Rightarrow> Inr (if b then ''True'' else ''False'') | _ \<Rightarrow> ill_typed)"

definition query_from_dict :: "json \<Rightarrow> py_error + query_template" where
  "query_from_dict j = ebind (as_dict j) (\<lambda>d.
     ebind (ebind (json_item d ''query_id'') str_of_json) (\<lambda>i.
     ebind (ebind (json_item d ''sql_template'') as_str) (\<lambda>s.
     ebind (as_list (json_get d ''placeholders'' (JList []))) (\<lambda>rows.
     ebind (traverse_e placeholder_of_row rows) (\<lambda>ps.
       Inr \<lparr>qt_query_id = i, qt_sql_template = s, qt_placeholders = ps\<rparr>)))))"

section \<open>Manifests\<close>

definition schema_version :: int where
  "schema_version = 5"

definition supported_versions :: "int list" where
  "supported_versions = [1, 2, 3, 4, 5]"

record engine_manifest =
  mf_engine_id :: string
  mf_queries :: "query_template list"
  mf_storage_mode :: string
  mf_scale_factor :: "pyfloat option"
  mf_source_run_id :: "string option"
  mf_expected_tables :: "(string \<times> column_spec list) list"
  mf_parquet_dir :: "string option"
  mf_shm_capable :: bool
  mf_source_db :: "string option"
  mf_threads :: "int option"

definition column_to_json :: "column_spec \<Rightarrow> json" where
  "column_to_json c = JList [JStr (col_name c), JStr (col_type c)]"

definition tables_to_json :: "(string \<times> column_spec list) list \<Rightarrow> json" where
  "tables_to_json ts = JDict (map (\<lambda>(t, cols). (t, JList (map column_to_json cols))) ts)"

definition manifest_to_dict :: "engine_manifest \<Rightarrow> json" where
  "manifest_to_dict m = JDict
     [(''schema_version'', JInt schema_version),
      (''engine_id'', JStr (mf_engine_id m)),
      (''storage_mode'', JStr (mf_storage_mode m)),
      (''scale_factor'', json_opt JFloat (mf_scale_factor m)),
      (''source_run_id'', json_opt JStr (mf_source_run_id m)),
      (''parquet_dir'', json_opt JStr (mf_parquet_dir m)),
      (''shm_capable'', JBool (mf_shm_capable m)),
      (''source_db'', json_opt JStr (mf_source_db m)),
      (''threads'', json_opt JInt (mf_threads m)),
      (''expected_tables'', tables_to_json (mf_expected_tables m)),
      (''queries'', JList (map query_to_dict (mf_queries m)))]"

text \<open>\<open>version in (1, 2, 3, 4, 5)\<close> compares numbers by value.\<close>

definition version_supported :: "json \<Rightarrow> bool" where
  "version_supported j = (case j of
     JInt i \<Rightarrow> i \<in> set supported_versions
   | JBool b \<Rightarrow> b
   | JFloat (Num (Fin r)) \<Rightarrow> r \<in> of_int ` set supported_versions
   | _ \<Rightarrow> False)"

definition column_of_json :: "json \<Rightarrow> py_error + column_spec" where
  "column_of_json j = ebind (as_list j) (\<lambda>xs. case xs of
     [n, t] \<Rightarrow> ebind (as_str n) (\<lambda>n. ebind (as_str t) (\<lambda>t. Inr \<lparr>col_name = n, col_type = t\<rparr>))
   | _ \<Rightarrow> Inl (ValueError ''unpack''))"

definition tables_of_json :: "json \<Rightarrow> py_error + (string \<times> column_spec list) list" where
  "tables_of_json j = ebind (as_dict j) (traverse_e (\<lambda>(t, cols).
     ebind (as_list cols) (\<lambda>cs. ebind (traverse_e column_of_json cs) (\<lambda>cs. Inr (t, cs)))))"

definition manifest_from_dict :: "json \<Rightarrow> py_error + engine_manifest" where
  "manifest_from_dict j = ebind (as_dict j) (\<lambda>d.
     if \<not> version_supported (json_get d ''schema_version'' (JInt 1))
     then Inl (ValueError ''unsupported manifest schema_version'')
     else ebind (ebind (json_item d ''engine_id'') as_str) (\<lambda>i.
       ebind (ebind (as_list (json_get d ''queries'' (JList []))) (traverse_e query_from_dict)) (\<lambda>qs.
       ebind (as_str (json_get d ''storage_mode'' (JStr ''flat''))) (\<lambda>mode.
       ebind (optional as_float (json_get d ''scale_factor'' JNull)) (\<lambda>sf.
       ebind (optional as_str (json_get d ''source_run_id'' JNull)) (\<lambda>run.
       ebind (optional as_str (json_get d ''parquet_dir'' JNull)) (\<lambda>pq.
       ebind (optional as_str (json_get d ''source_db'' JNull)) (\<lambda>db.
       ebind (optional as_int (json_get d ''threads'' JNull)) (\<lambda>n.
       ebind (tables_of_json (json_get d ''expected_tables'' (JDict []))) (\<lambda>ts.
         Inr \<lparr>mf_engine_id = i, mf_queries = qs, mf_storage_mode = mode, mf_scale_factor = sf,
              mf_source_run_id = run, mf_expected_tables = ts, mf_parquet_dir = pq,
              mf_shm_capable = json_truthy (json_get d ''shm_capable'' (JBool False)),
              mf_source_db = db, mf_threads = n\<rparr>))))))))))"

lemmas json_conv = as_str_def as_int_def as_list_def as_dict_def as_float_def optional_def
  json_opt_def json_get_def json_item_def

lemma placeholder_row_roundtrip [simp]: "placeholder_of_row (placeholder_row p) = Inr p"
  by (cases p) (simp add: placeholder_of_row_def placeholder_row_def json_conv)

lemma query_roundtrip [simp]: "query_from_dict (query_to_dict q) = Inr q"
  by (cases q) (simp add: query_from_dict_def query_to_dict_def str_of_json_def json_conv
      traverse_e_inverse)

lemma column_roundtrip [simp]: "column_of_json (column_to_json c) = Inr c"
  by (cases c) (simp add: column_of_json_def column_to_json_def json_conv)

lemma tables_roundtrip [simp]: "tables_of_json (tables_to_json ts) = Inr ts"
  by (auto simp: tables_of_json_def tables_to_json_def json_conv traverse_e_inverse
      intro!: traverse_e_inverse)

lemma optional_roundtrip [simp]:
  "(\<And>a. f (g a) = Inr a) \<Longrightarrow> (\<And>a. g a \<noteq> JNull) \<Longrightarrow> optional f (json_opt g x) = Inr x"
  by (cases x) (simp_all add: optional_def json_opt_def)

text \<open>
  C38. Reading back what was written gives the same manifest: decoding the dictionary of any
  manifest succeeds and returns it, embedded placeholders with their affixes and groups included.
\<close>

theorem manifest_roundtrip: "manifest_from_dict (manifest_to_dict m) = Inr m"
proof (cases m)
  case (fields i qs mode sf run ts pq shm db n)
  have "optional as_float (json_opt JFloat sf) = Inr sf" "optional as_str (json_opt JStr x) = Inr x"
    "optional as_int (json_opt JInt n) = Inr n" for x
    by (rule optional_roundtrip; simp add: json_conv)+
  moreover have "traverse_e query_from_dict (map query_to_dict qs) = Inr qs"
    by (rule traverse_e_inverse) simp
  ultimately show ?thesis
    by (simp add: manifest_from_dict_def manifest_to_dict_def fields as_dict_def as_list_def as_str_def
        json_get_def json_item_def version_supported_def supported_versions_def schema_version_def
        json_truthy_def)
qed

section \<open>The content-addressed engine id\<close>

text \<open>The bytes hashed: name, NUL, content, NUL for every file in name order.\<close>

definition nul :: char where
  "nul = CHR 0x00"

definition content_id_input :: "(string \<times> string) list \<Rightarrow> string" where
  "content_id_input files = concat (map (\<lambda>n.
     n @ [nul] @ (case map_of files n of Some c \<Rightarrow> c | None \<Rightarrow> []) @ [nul]) (sort (map fst files)))"

text \<open>\<open>digest16\<close> is the first 16 hex digits of SHA-256.\<close>

definition content_engine_id :: "(string \<Rightarrow> string) \<Rightarrow> string \<Rightarrow> (string \<times> string) list \<Rightarrow> string" where
  "content_engine_id digest16 prefix files = prefix @ ''-'' @ digest16 (content_id_input files)"

text \<open>
  The sources of an engine directory from its listing (name and outcome of reading it): the
  \<open>*.cpp\<close> files in path order, then the \<open>*.hpp\<close> files, unreadable ones skipped.
\<close>

definition engine_source_files :: "(string \<times> (py_error + string)) list \<Rightarrow> (string \<times> string) list" where
  "engine_source_files listing =
     (let of_ext = (\<lambda>ext. sort (filter (\<lambda>n. py_endswith n ext) (map fst listing)))
      in fold (\<lambda>n files. case map_of listing n of
             Some (Inr text) \<Rightarrow> AList.update n text files | _ \<Rightarrow> files)
           (of_ext ''.cpp'' @ of_ext ''.hpp'') [])"

record manifest_options =
  mo_storage_mode :: string
  mo_scale_factor :: "pyfloat option"
  mo_source_run_id :: "string option"
  mo_expected_tables :: "(string \<times> column_spec list) list option"
  mo_parquet_dir :: "string option"
  mo_shm_capable :: bool
  mo_source_db :: "string option"
  mo_threads :: "int option"

definition default_options :: manifest_options where
  "default_options = \<lparr>mo_storage_mode = ''flat'', mo_scale_factor = None, mo_source_run_id = None,
     mo_expected_tables = None, mo_parquet_dir = None, mo_shm_capable = False, mo_source_db = None,
     mo_threads = None\<rparr>"

definition build_manifest ::
  "(string \<Rightarrow> string) \<Rightarrow> (string \<times> (py_error + string)) list \<Rightarrow> query_template list \<Rightarrow> manifest_options
     \<Rightarrow> engine_manifest"
where
  "build_manifest digest16 listing queries opts =
     \<lparr>mf_engine_id = content_engine_id digest16 ''eng'' (engine_source_files listing),
      mf_queries = queries, mf_storage_mode = mo_storage_mode opts,
      mf_scale_factor = mo_scale_factor opts, mf_source_run_id = mo_source_run_id opts,
      mf_expected_tables = (case mo_expected_tables opts of None \<Rightarrow> [] | Some ts \<Rightarrow> ts),
      mf_parquet_dir = mo_parquet_dir opts, mf_shm_capable = mo_shm_capable opts,
      mf_source_db = mo_source_db opts, mf_threads = mo_threads opts\<rparr>"

text \<open>Name and content determine the input, whatever order the files are listed in.\<close>

lemma split_nul:
  "nul \<notin> set a \<Longrightarrow> nul \<notin> set b \<Longrightarrow> a @ nul # u = b @ nul # v \<longleftrightarrow> a = b \<and> u = v"
  using split_first [of nul a b u v] by auto

definition nul_free :: "(string \<times> string) list \<Rightarrow> bool" where
  "nul_free files \<longleftrightarrow> list_all (\<lambda>(n, c). nul \<notin> set n \<and> nul \<notin> set c) files"

lemma chunks_inject:
  assumes "\<forall>n \<in> set xs. nul \<notin> set n \<and> nul \<notin> set (f n)" "\<forall>n \<in> set ys. nul \<notin> set n \<and> nul \<notin> set (g n)"
  shows "concat (map (\<lambda>n. n @ [nul] @ f n @ [nul]) xs) = concat (map (\<lambda>n. n @ [nul] @ g n @ [nul]) ys) \<longleftrightarrow>
    xs = ys \<and> (\<forall>n \<in> set xs. f n = g n)"
  using assms
proof (induction xs arbitrary: ys)
  case Nil
  then show ?case by (cases ys) auto
next
  case (Cons x xs)
  then show ?case
  proof (cases ys)
    case (Cons y zs)
    with Cons.IH [of zs] Cons.prems show ?thesis by (auto simp: split_nul)
  qed simp
qed

lemma source_text_free:
  "nul_free hs \<Longrightarrow> \<forall>n \<in> set (sort (map fst hs)). nul \<notin> set n \<and>
     nul \<notin> set (case map_of hs n of Some c \<Rightarrow> c | None \<Rightarrow> [])"
proof (intro ballI conjI)
  fix n assume h: "nul_free hs" "n \<in> set (sort (map fst hs))"
  then show "nul \<notin> set n" by (auto simp: nul_free_def list_all_iff)
  show "nul \<notin> set (case map_of hs n of Some c \<Rightarrow> c | None \<Rightarrow> [])"
  proof (cases "map_of hs n")
    case (Some c)
    with h(1) show ?thesis by (auto simp: nul_free_def list_all_iff dest: map_of_mem)
  qed simp
qed

lemma map_of_by_default:
  assumes "set (map fst fs) = set (map fst gs)"
    and "\<forall>n \<in> set (map fst fs). (case map_of fs n of Some c \<Rightarrow> c | None \<Rightarrow> d) = (case map_of gs n of Some c \<Rightarrow> c | None \<Rightarrow> d)"
  shows "map_of fs = map_of gs"
proof
  fix n show "map_of fs n = map_of gs n"
  proof (cases "n \<in> set (map fst fs)")
    case True
    with assms(1) obtain a b where ab: "map_of fs n = Some a" "map_of gs n = Some b"
      by (metis list.set_map map_of_eq_None_iff not_None_eq)
    from bspec [OF assms(2) True] have "a = b" by (simp only: ab option.simps)
    with ab show ?thesis by simp
  next
    case False
    with assms(1) have "map_of fs n = None" "map_of gs n = None" by (simp_all add: map_of_eq_None_iff)
    then show ?thesis by simp
  qed
qed

text \<open>
  The engine id is content-addressed: two sets of source files are hashed to the same id input
  exactly when they hold the same names with the same contents - in whatever order they are listed,
  and no boundary between a name and a content can be shifted.
\<close>

theorem content_id_exact:
  assumes "distinct (map fst fs)" "distinct (map fst gs)" "nul_free fs" "nul_free gs"
  shows "content_id_input fs = content_id_input gs \<longleftrightarrow> map_of fs = map_of gs"
proof -
  let ?f = "\<lambda>n. case map_of fs n of Some c \<Rightarrow> c | None \<Rightarrow> []"
  let ?g = "\<lambda>n. case map_of gs n of Some c \<Rightarrow> c | None \<Rightarrow> []"
  have "content_id_input fs = content_id_input gs \<longleftrightarrow>
      sort (map fst fs) = sort (map fst gs) \<and> (\<forall>n \<in> set (map fst fs). ?f n = ?g n)"
    unfolding content_id_input_def
    using chunks_inject [OF source_text_free [OF assms(3)] source_text_free [OF assms(4)]] by simp
  moreover have "sort xs = sorted_list_of_set (set xs)" if "distinct xs" for xs :: "string list"
    using that by (metis sorted_list_of_set_sort_remdups distinct_remdups_id)
  from this [OF assms(1)] this [OF assms(2)] have "sort (map fst fs) = sort (map fst gs) \<longleftrightarrow> set (map fst fs) = set (map fst gs)"
    by (metis set_sort)
  moreover have "set (map fst fs) = set (map fst gs)" if "map_of fs = map_of gs"
    using that dom_map_of_conv_image_fst [of fs] dom_map_of_conv_image_fst [of gs] by simp
  moreover have "map_of fs = map_of gs"
    if "set (map fst fs) = set (map fst gs)" "\<forall>n \<in> set (map fst fs). ?f n = ?g n"
    using map_of_by_default [OF that] .
  ultimately show ?thesis by metis
qed

theorem content_id_exact_witness:
  "content_id_input [(''b.cpp'', ''int x;''), (''a.hpp'', '''')] = content_id_input [(''a.hpp'', ''''), (''b.cpp'', ''int x;'')]
   \<and> content_id_input [(''a.cpp'', ''b'')] \<noteq> content_id_input [(''a.cppb'', '''')]"
  using content_id_exact [of "[(''b.cpp'', ''int x;''), (''a.hpp'', '''')]" "[(''a.hpp'', ''''), (''b.cpp'', ''int x;'')]"]
    content_id_exact [of "[(''a.cpp'', ''b'')]" "[(''a.cppb'', '''')]"]
  by (auto simp: nul_free_def nul_def fun_eq_iff)

section \<open>Placeholder samples\<close>

definition is_date_text :: "string \<Rightarrow> bool" where
  "is_date_text s \<longleftrightarrow> length s = 10 \<and> s ! 4 = CHR ''-'' \<and> s ! 7 = CHR ''-'' \<and>
     list_all is_digit_char (take 4 s) \<and> list_all is_digit_char (take 2 (drop 5 s)) \<and>
     list_all is_digit_char (drop 8 s)"

definition drop_minus :: "string \<Rightarrow> string" where
  "drop_minus s = (case s of [] \<Rightarrow> [] | c # cs \<Rightarrow> if c = CHR ''-'' then cs else c # cs)"

definition is_int_text :: "string \<Rightarrow> bool" where
  "is_int_text s \<longleftrightarrow> py_isdigit (drop_minus s)"

definition is_float_text :: "string \<Rightarrow> bool" where
  "is_float_text s =
     (let body = drop_minus s; ip = takeWhile is_digit_char body; rest = drop (length ip) body
      in ip \<noteq> [] \<and> rest \<noteq> [] \<and> hd rest = CHR ''.'' \<and> py_isdigit (tl rest))"

definition infer_duckdb_type :: "pyval \<Rightarrow> string" where
  "infer_duckdb_type v = (case v of
     PBool b \<Rightarrow> ''BOOLEAN''
   | PInt i \<Rightarrow> ''INTEGER''
   | PFloat a \<Rightarrow> ''DOUBLE''
   | PStr s \<Rightarrow>
       if is_date_text s then ''DATE''
       else if is_int_text s then ''INTEGER''
       else if is_float_text s then ''DOUBLE'' else ''VARCHAR''
   | _ \<Rightarrow> ''VARCHAR'')"

datatype placeholder_source = Samples "(string \<times> pyval) list" | Specs "placeholder_spec list"

definition source_specs :: "placeholder_source \<Rightarrow> placeholder_spec list" where
  "source_specs p = (case p of
     Samples d \<Rightarrow> map (\<lambda>(n, v). plain_placeholder n (infer_duckdb_type v)) d
   | Specs ps \<Rightarrow> ps)"

definition manifest_for_engine ::
  "(string \<Rightarrow> string) \<Rightarrow> (string \<times> (py_error + string)) list \<Rightarrow>
     (string \<times> string \<times> placeholder_source) list \<Rightarrow> manifest_options \<Rightarrow> engine_manifest"
where
  "manifest_for_engine digest16 listing meta opts =
     build_manifest digest16 listing
       (map (\<lambda>(i, t, p). \<lparr>qt_query_id = i, qt_sql_template = t, qt_placeholders = source_specs p\<rparr>) meta)
       (opts\<lparr>mo_source_db := None\<rparr>)"

text \<open>The decimal text of an integer is typed as one, and is never taken for a date.\<close>

lemma str_int_is_int: "is_int_text (str_int i)"
proof -
  have "drop_minus (str_nat n) = str_nat n" for n
    using str_nat_digits [of n] digit_not_dash by (cases "str_nat n") (auto simp: drop_minus_def)
  then show ?thesis by (simp add: is_int_text_def str_int_def) (simp add: drop_minus_def)
qed

lemma infer_str_int:
  assumes "CHR ''-'' \<notin> set (tl (str_int i))"
  shows "infer_duckdb_type (PStr (str_int i)) = infer_duckdb_type (PInt i)"
proof -
  have "\<not> is_date_text (str_int i)"
  proof
    assume h: "is_date_text (str_int i)"
    then have l: "length (str_int i) = 10" and "str_int i ! 4 = CHR ''-''" by (simp_all add: is_date_text_def)
    then have "tl (str_int i) ! 3 = CHR ''-''" "3 < length (tl (str_int i))"
      by (cases "str_int i"; simp add: numeral_eq_Suc)+
    with assms show False by (metis nth_mem)
  qed
  then show ?thesis using str_int_is_int by (simp add: infer_duckdb_type_def)
qed

section \<open>Compatibility with the live schema\<close>

definition norm_type :: "string \<Rightarrow> string" where
  "norm_type t = concat (py_split_ws (py_upper t))"

definition table_problem :: "'w catalog \<Rightarrow> string \<Rightarrow> column_spec list \<Rightarrow> 'w \<Rightarrow> string list \<times> 'w" where
  "table_problem C t expected w = (case column_rows C (py_lower t) w of
     (Inl e, w') \<Rightarrow> ([t @ '': schema introspection failed ('' @ cat_exc_text C e @ '')''], w')
   | (Inr rows, w') \<Rightarrow>
       if rows = [] then ([t @ '': missing from the database''], w')
       else
         (let live = map (\<lambda>(n, d). (py_lower n, norm_type d)) rows;
              want = map (\<lambda>c. (py_lower (col_name c), norm_type (col_type c))) expected
          in (if live \<noteq> want then [t @ '': schema differs from engine build''] else [], w')))"

fun problems_loop :: "'w catalog \<Rightarrow> (string \<times> column_spec list) list \<Rightarrow> 'w \<Rightarrow> string list \<times> 'w" where
  "problems_loop C [] w = ([], w)"
| "problems_loop C ((t, expected) # ts) w = (case table_problem C t expected w of
     (ps, w1) \<Rightarrow> (case problems_loop C ts w1 of (qs, w2) \<Rightarrow> (ps @ qs, w2)))"

definition check_compatibility :: "'w catalog \<Rightarrow> engine_manifest \<Rightarrow> 'w \<Rightarrow> string list \<times> 'w" where
  "check_compatibility C m w = problems_loop C (mf_expected_tables m) w"

text \<open>Joining the pieces of \<open>split()\<close> removes exactly the white space.\<close>

lemma filter_takeWhile: "filter P (takeWhile P xs) = takeWhile P xs"
  by (induction xs) simp_all

lemma concat_split_ws: "concat (py_split_ws s) = filter (\<lambda>c. \<not> is_space_char c) s"
proof (induction s rule: py_split_ws.induct)
  case (2 x xs)
  have "filter (\<lambda>c. \<not> is_space_char c) (takeWhile (\<lambda>c. \<not> is_space_char c) xs) =
      takeWhile (\<lambda>c. \<not> is_space_char c) xs"
    by (rule filter_takeWhile)
  moreover have "filter (\<lambda>c. \<not> is_space_char c) xs = filter (\<lambda>c. \<not> is_space_char c)
      (takeWhile (\<lambda>c. \<not> is_space_char c) xs @ dropWhile (\<lambda>c. \<not> is_space_char c) xs)" by simp
  ultimately have f: "takeWhile (\<lambda>c. \<not> is_space_char c) xs @
      filter (\<lambda>c. \<not> is_space_char c) (dropWhile (\<lambda>c. \<not> is_space_char c) xs) = filter (\<lambda>c. \<not> is_space_char c) xs"
    by (simp only: filter_append)
  show ?case
  proof (cases "is_space_char x")
    case False
    with 2(2) f show ?thesis by simp
  qed (use 2(1) in simp)
qed simp

text \<open>The schema an engine expects, as the live catalog must spell it up to case and spaces.\<close>

definition schema_agrees :: "(string \<times> string) list \<Rightarrow> column_spec list \<Rightarrow> bool" where
  "schema_agrees rows expected \<longleftrightarrow> rows \<noteq> [] \<and>
     list_all2 (\<lambda>(n, d) c. py_lower n = py_lower (col_name c) \<and> norm_type d = norm_type (col_type c))
       rows expected"

lemma schema_agrees_map:
  "map (\<lambda>(n, d). (py_lower n, norm_type d)) rows = map (\<lambda>c. (py_lower (col_name c), norm_type (col_type c))) expected
   \<longleftrightarrow> list_all2 (\<lambda>(n, d) c. py_lower n = py_lower (col_name c) \<and> norm_type d = norm_type (col_type c)) rows expected"
proof (induction rows arbitrary: expected)
  case (Cons r rows)
  then show ?case by (cases expected) auto
qed auto

lemma table_problem_read:
  assumes "\<And>t. column_rows C t w = (Inr (cols t), w)"
  shows "snd (table_problem C t expected w) = w"
    "fst (table_problem C t expected w) = [] \<longleftrightarrow> schema_agrees (cols (py_lower t)) expected"
  by (simp_all add: table_problem_def assms schema_agrees_def schema_agrees_map Let_def)

text \<open>
  The registration gate: \<open>check_compatibility\<close> reports nothing exactly when every expected table
  is in the live catalog with the expected columns, in order, names equal up to case and type
  spellings equal up to case and white space.
\<close>

theorem compatible_exact:
  assumes "\<And>t. column_rows C t w = (Inr (cols t), w)"
  shows "fst (check_compatibility C m w) = [] \<longleftrightarrow>
    list_all (\<lambda>(t, expected). schema_agrees (cols (py_lower t)) expected) (mf_expected_tables m)"
proof -
  have "fst (problems_loop C ts w) = [] \<longleftrightarrow>
      list_all (\<lambda>(t, expected). schema_agrees (cols (py_lower t)) expected) ts" for ts
  proof (induction ts)
    case (Cons x ts)
    obtain t expected where x: "x = (t, expected)" by (cases x)
    obtain ps where p: "table_problem C t expected w = (ps, w)"
      using table_problem_read(1) [of C w cols t expected, OF assms] by (metis prod.collapse)
    then have "fst (problems_loop C (x # ts) w) = ps @ fst (problems_loop C ts w)"
      by (simp add: x split_beta)
    with p table_problem_read(2) [of C w cols t expected, OF assms] Cons.IH x show ?case by simp
  qed simp
  then show ?thesis by (simp add: check_compatibility_def)
qed

definition demo_manifest :: engine_manifest where
  "demo_manifest = \<lparr>mf_engine_id = ''eng-1'',
     mf_queries = [\<lparr>qt_query_id = ''1'', qt_sql_template = ''select 1'', qt_placeholders = []\<rparr>],
     mf_storage_mode = ''flat'', mf_scale_factor = None, mf_source_run_id = None,
     mf_expected_tables = [(''Orders'', [\<lparr>col_name = ''A'', col_type = ''decimal(10, 2)''\<rparr>])],
     mf_parquet_dir = None, mf_shm_capable = True, mf_source_db = None, mf_threads = None\<rparr>"

theorem compatible_exact_witness:
  "fst (check_compatibility (still_catalog (\<lambda>t. [(''a'', ''DECIMAL(10,2)'')]) []) demo_manifest ()) = []"
proof -
  have "schema_agrees [(''a'', ''DECIMAL(10,2)'')] [\<lparr>col_name = ''A'', col_type = ''decimal(10, 2)''\<rparr>]"
    by code_simp
  then show ?thesis
    by (subst compatible_exact [where cols = "\<lambda>t. [(''a'', ''DECIMAL(10,2)'')]"])
      (simp_all add: still_catalog_def return_eff_def demo_manifest_def)
qed

end
