(* ===== verification/Engine_Registration.thy ===== *)
theory Engine_Registration
  imports Engine_Manifest Sql_Unify
begin

text \<open>
  Binding an engine to a live connection (\<open>router/registration.py\<close>) and registering a whole manifest
  (\<open>register_manifest\<close> of \<open>router/manifest.py\<close>): the output types exact egress can carry, the typed
  NULLs that make a parameterised template describable, the binding, the registry updates. The
  registry is part of the state: a registration that raises keeps what it registered before.
\<close>

section \<open>Output types\<close>

definition nested_bases :: "string list" where
  "nested_bases = [''LIST'', ''ARRAY'', ''STRUCT'', ''MAP'', ''UNION'', ''ROW'']"

definition unsupported_bases :: "string list" where
  "unsupported_bases = [''INTERVAL'', ''BLOB'', ''BYTEA'', ''VARBINARY'', ''BIT'', ''UUID'', ''TIME'',
     ''ENUM'', ''JSON'', ''UHUGEINT'']"

definition is_base_char :: "char \<Rightarrow> bool" where
  "is_base_char c \<longleftrightarrow> is_upper_char c \<or> is_digit_char c \<or> c = CHR ''_''"

definition type_base :: "string \<Rightarrow> string" where
  "type_base t = (let b = takeWhile is_base_char t in if b = [] then t else b)"

text \<open>The search for \<open>\[\s*\d*\s*\]\<close>.\<close>

definition array_bracket :: "string \<Rightarrow> bool" where
  "array_bracket s = (case s of [] \<Rightarrow> False | c # cs \<Rightarrow> c = CHR ''['' \<and>
     (case dropWhile is_space_char (dropWhile is_digit_char (dropWhile is_space_char cs)) of
        [] \<Rightarrow> False | d # ds \<Rightarrow> d = CHR '']''))"

fun has_array_suffix :: "string \<Rightarrow> bool" where
  "has_array_suffix [] = False"
| "has_array_suffix (c # cs) = (array_bracket (c # cs) \<or> has_array_suffix cs)"

definition column_reason :: "column_spec \<Rightarrow> string option" where
  "column_reason c =
     (let t = py_strip (py_upper (col_type c)); base = type_base t;
          head = ''output column '' @ [CHR 0x27] @ col_name c @ [CHR 0x27] in
      if has_array_suffix t \<or> base \<in> set nested_bases then
        Some (head @ '' has a nested/array type ('' @ col_type c @ ''); exact egress emits flat columns only'')
      else if py_contains ''TIME ZONE'' t \<or> base = ''TIMESTAMPTZ'' \<or> base = ''TIMETZ'' then
        Some (head @ '' type '' @ col_type c @ '' carries a time zone, which exact egress does not reproduce'')
      else if base \<in> set unsupported_bases then
        Some (head @ '' type '' @ col_type c @ '' is outside the exact-egress vocabulary'')
      else None)"

definition unsupported_output_reasons :: "column_spec list \<Rightarrow> string list" where
  "unsupported_output_reasons cs = List.map_filter column_reason cs"

section \<open>Typed NULLs\<close>

definition group_type :: "placeholder_spec list \<Rightarrow> string" where
  "group_type g = (if length g = 1 \<and> ph_prefix (hd g) = [] \<and> ph_suffix (hd g) = []
     then ph_type (hd g) else ''VARCHAR'')"

type_synonym splice = "nat \<times> nat \<times> string"

definition is_word_text :: "string \<Rightarrow> bool" where
  "is_word_text s \<longleftrightarrow> s \<noteq> [] \<and> list_all is_word_char s"

text \<open>
  The walk over the tokens: \<open>names\<close> maps the declared placeholder names to their types (a later spec
  of the same name wins), \<open>groups\<close> are the binding groups an anonymous marker takes in turn.
\<close>

fun collect_splices ::
  "(string \<times> string) list \<Rightarrow> placeholder_spec list list \<Rightarrow> nat \<Rightarrow> token list \<Rightarrow> splice list"
where
  "collect_splices names groups anon [] = []"
| "collect_splices names groups anon [t] =
     (if tok_type t = ''PLACEHOLDER''
      then [(tok_start t, tok_end t, if anon < length groups then group_type (groups ! anon) else ''VARCHAR'')]
      else [])"
| "collect_splices names groups anon (t # n # ts) =
     (let adjacent = (tok_start n = tok_end t + 1) in
      if tok_type t = ''PLACEHOLDER'' then
        (tok_start t, tok_end t, if anon < length groups then group_type (groups ! anon) else ''VARCHAR'')
          # collect_splices names groups (Suc anon) (n # ts)
      else if tok_type t = ''PARAMETER'' \<and> adjacent \<and> is_word_text (tok_text n) then
        (tok_start t, tok_end n, case map_of names (tok_text n) of None \<Rightarrow> ''VARCHAR'' | Some y \<Rightarrow> y)
          # collect_splices names groups anon ts
      else if tok_type t = ''COLON'' \<and> adjacent \<and> map_of names (tok_text n) \<noteq> None then
        (tok_start t, tok_end n, the (map_of names (tok_text n))) # collect_splices names groups anon ts
      else collect_splices names groups anon (n # ts))"

definition names_of :: "placeholder_spec list \<Rightarrow> (string \<times> string) list" where
  "names_of ps = rev (map (\<lambda>p. (ph_name p, ph_type p)) ps)"

text \<open>\<open>cast_null t\<close> is sqlglot's rendering of \<open>CAST(NULL AS t)\<close>, \<open>None\<close> when it raises.\<close>

definition typed_null :: "(string \<Rightarrow> string option) \<Rightarrow> string \<Rightarrow> string" where
  "typed_null cast_null t = (case cast_null t of None \<Rightarrow> ''NULL'' | Some s \<Rightarrow> s)"

definition splice_one :: "(string \<Rightarrow> string option) \<Rightarrow> splice \<Rightarrow> string \<Rightarrow> string" where
  "splice_one cast_null sp s = (case sp of (a, b, t) \<Rightarrow> take a s @ typed_null cast_null t @ drop (b + 1) s)"

definition apply_splices :: "(string \<Rightarrow> string option) \<Rightarrow> splice list \<Rightarrow> string \<Rightarrow> string" where
  "apply_splices cast_null sps s = fold (splice_one cast_null) (rev sps) s"

definition literalize ::
  "sqlglot \<Rightarrow> (string \<Rightarrow> string option) \<Rightarrow> string \<Rightarrow> placeholder_spec list \<Rightarrow> string" where
  "literalize L cast_null sql ps = (case tokenize L sql of
     None \<Rightarrow> sql
   | Some toks \<Rightarrow>
       (case parse_one L (apply_splices cast_null
            (collect_splices (names_of ps) (binding_groups ps) 0 toks) sql) of
          None \<Rightarrow> sql
        | Some tree \<Rightarrow> (case render_guarded L tree of None \<Rightarrow> sql | Some s \<Rightarrow> s)))"

section \<open>Bindings\<close>

record 'w catalog_env =
  cat :: "'w catalog"
  sql_lang :: sqlglot
  null_text :: "string \<Rightarrow> string option"
  digest16 :: "string \<Rightarrow> string"

definition describe_output ::
  "'w catalog_env \<Rightarrow> string \<Rightarrow> placeholder_spec list \<Rightarrow> ('w, column_spec list) eff" where
  "describe_output E sql ps = bind_eff
     (describe_sql (cat E) (''SELECT * FROM ('' @ literalize (sql_lang E) (null_text E) sql ps
        @ '') AS _synno_schema LIMIT 0''))
     (\<lambda>cols. return_eff (map (\<lambda>(n, t). \<lparr>col_name = n, col_type = t\<rparr>) cols))"

record bind_request =
  rq_template :: string
  rq_engine :: engine_ref
  rq_query_id :: string
  rq_engine_id :: "string option"
  rq_engine_name :: "string option"
  rq_placeholders :: "placeholder_spec list"
  rq_tables :: "string list option"
  rq_scale_factor :: "pyfloat option"
  rq_storage_mode :: string

text \<open>\<open>engine_id or getattr(engine, "engine_id", "engine")\<close>.\<close>

definition request_engine_id :: "bind_request \<Rightarrow> string" where
  "request_engine_id q = (case rq_engine_id q of
     Some i \<Rightarrow> if i \<noteq> [] then i else (case rq_engine_name q of None \<Rightarrow> ''engine'' | Some n \<Rightarrow> n)
   | None \<Rightarrow> (case rq_engine_name q of None \<Rightarrow> ''engine'' | Some n \<Rightarrow> n))"

definition request_tables :: "'w catalog_env \<Rightarrow> bind_request \<Rightarrow> string list" where
  "request_tables E q = (case rq_tables q of Some ts \<Rightarrow> ts | None \<Rightarrow> tables_in (sql_lang E) (rq_template q))"

definition make_binding :: "'w catalog_env \<Rightarrow> bind_request \<Rightarrow> ('w, engine_binding) eff" where
  "make_binding E q = (case normalize_sql (sql_lang E) (rq_template q) of
     None \<Rightarrow> raise_eff (ValueError ''template_sql is not parseable'')
   | Some key \<Rightarrow>
       (let ts = request_tables E q in
        bind_eff (describe_output E (rq_template q) (rq_placeholders q)) (\<lambda>schema.
          if unsupported_output_reasons schema \<noteq> [] then
            raise_eff (SynnoUnsupportedQuery (unsupported_output_reasons schema))
          else bind_eff (live_fingerprint (digest16 E) (cat E) (remdups ts)) (\<lambda>fp.
            return_eff \<lparr>template_id = request_engine_id q @ ''::'' @ rq_query_id q,
              normalized_sql = key, query_id = rq_query_id q, engine_id = request_engine_id q,
              placeholders = rq_placeholders q, output_schema = schema, tables = set ts,
              schema_fingerprint = fp, scale_factor = rq_scale_factor q,
              storage_mode = rq_storage_mode q, engine = Some (rq_engine q),
              template_sql = Some (rq_template q)\<rparr>))))"

definition enroll :: "engine_binding \<Rightarrow> registry \<Rightarrow> registry" where
  "enroll b r = reg_clear_dirty (Some (tables b)) (reg_register b r)"

definition register_engine ::
  "'w catalog_env \<Rightarrow> bind_request \<Rightarrow> registry \<Rightarrow> 'w \<Rightarrow> (py_error + engine_binding) \<times> registry \<times> 'w" where
  "register_engine E q r w = (case make_binding E q w of
     (Inl e, w') \<Rightarrow> (Inl e, r, w')
   | (Inr b, w') \<Rightarrow> (Inr b, enroll b r, w'))"

section \<open>Manifests\<close>

definition query_request :: "engine_manifest \<Rightarrow> engine_ref \<Rightarrow> query_template \<Rightarrow> bind_request" where
  "query_request m e q = \<lparr>rq_template = qt_sql_template q, rq_engine = e, rq_query_id = qt_query_id q,
     rq_engine_id = Some (mf_engine_id m), rq_engine_name = Some (mf_engine_id m),
     rq_placeholders = qt_placeholders q, rq_tables = None,
     rq_scale_factor = mf_scale_factor m, rq_storage_mode = mf_storage_mode m\<rparr>"

fun register_queries ::
  "'w catalog_env \<Rightarrow> bind_request list \<Rightarrow> registry \<Rightarrow> 'w \<Rightarrow> (py_error + engine_binding list) \<times> registry \<times> 'w"
where
  "register_queries E [] r w = (Inr [], r, w)"
| "register_queries E (q # qs) r w = (case register_engine E q r w of
     (Inl e, r1, w1) \<Rightarrow> (Inl e, r1, w1)
   | (Inr b, r1, w1) \<Rightarrow> (case register_queries E qs r1 w1 of
       (Inl e, r2, w2) \<Rightarrow> (Inl e, r2, w2)
     | (Inr bs, r2, w2) \<Rightarrow> (Inr (b # bs), r2, w2)))"

definition register_manifest ::
  "'w catalog_env \<Rightarrow> bool \<Rightarrow> engine_manifest \<Rightarrow> engine_ref \<Rightarrow> registry \<Rightarrow> 'w
     \<Rightarrow> (py_error + engine_binding list) \<times> registry \<times> 'w"
where
  "register_manifest E strict m e r w =
     (case (if strict \<and> mf_expected_tables m \<noteq> [] then check_compatibility (cat E) m w else ([], w)) of
        (problems, w1) \<Rightarrow>
          if problems \<noteq> [] then
            (Inl (SynnoError (''engine incompatible with database: '' @ py_join ''; '' problems)), r, w1)
          else register_queries E (map (query_request m e) (mf_queries m)) r w1)"

section \<open>Splicing\<close>

text \<open>The reference: one pass from left to right over the untouched text.\<close>

fun rebuild :: "(string \<Rightarrow> string option) \<Rightarrow> nat \<Rightarrow> string \<Rightarrow> splice list \<Rightarrow> string" where
  "rebuild cast_null pos s [] = drop pos s"
| "rebuild cast_null pos s ((a, b, t) # sps) =
     take (a - pos) (drop pos s) @ typed_null cast_null t @ rebuild cast_null (b + 1) s sps"

fun splices_ordered :: "nat \<Rightarrow> nat \<Rightarrow> splice list \<Rightarrow> bool" where
  "splices_ordered pos n [] \<longleftrightarrow> pos \<le> n"
| "splices_ordered pos n ((a, b, t) # sps) \<longleftrightarrow> pos \<le> a \<and> a \<le> b \<and> splices_ordered (b + 1) n sps"

fun tokens_ordered :: "nat \<Rightarrow> nat \<Rightarrow> token list \<Rightarrow> bool" where
  "tokens_ordered pos n [] \<longleftrightarrow> pos \<le> n"
| "tokens_ordered pos n (t # ts) \<longleftrightarrow>
     pos \<le> tok_start t \<and> tok_start t \<le> tok_end t \<and> tokens_ordered (tok_end t + 1) n ts"

lemma splices_ordered_pos: "splices_ordered pos n sps \<Longrightarrow> pos \<le> n"
  by (induction pos n sps rule: splices_ordered.induct) auto

lemma splices_ordered_mono: "splices_ordered q n sps \<Longrightarrow> pos \<le> q \<Longrightarrow> splices_ordered pos n sps"
  by (induction sps) auto

lemma collect_ordered:
  "tokens_ordered pos n toks \<Longrightarrow> splices_ordered pos n (collect_splices names groups anon toks)"
proof (induction names groups anon toks arbitrary: pos rule: collect_splices.induct)
  case (3 names groups anon t m ts)
  then have o: "pos \<le> tok_start t" "tok_start t \<le> tok_end t" "tokens_ordered (tok_end t + 1) n (m # ts)"
    "tok_end t + 1 \<le> tok_start m" "tok_start m \<le> tok_end m" "tokens_ordered (tok_end m + 1) n ts" by auto
  then show ?case
    using 3(1) [OF refl _ o(3)] 3(2) [OF refl _ _ o(6)] 3(3) [OF refl _ _ _ o(6)] 3(4) [OF refl _ _ _ o(3)]
      splices_ordered_mono [of "tok_end t + 1" n _ pos]
    by (simp add: Let_def)
qed auto

lemma apply_foldr: "apply_splices cast_null sps s = foldr (splice_one cast_null) sps s"
  by (simp add: apply_splices_def foldr_conv_fold)

lemma rebuild_exact:
  "splices_ordered pos (length s) sps \<Longrightarrow>
   foldr (splice_one cast_null) sps s = take pos s @ rebuild cast_null pos s sps"
proof (induction sps arbitrary: pos)
  case (Cons x sps)
  obtain a b t where x: "x = (a, b, t)" by (cases x)
  with Cons.prems have o: "pos \<le> a" "a \<le> b" "splices_ordered (b + 1) (length s) sps" by auto
  with splices_ordered_pos have l: "b + 1 \<le> length s" by blast
  from Cons.IH [OF o(3)] x have "foldr (splice_one cast_null) (x # sps) s =
      take a (take (b + 1) s @ rebuild cast_null (b + 1) s sps) @ typed_null cast_null t @
      drop (b + 1) (take (b + 1) s @ rebuild cast_null (b + 1) s sps)"
    by (simp only: foldr_Cons o_apply splice_one_def [of cast_null "(a, b, t)"] prod.case)
  also have "\<dots> = take a s @ typed_null cast_null t @ rebuild cast_null (b + 1) s sps"
    using o l by (simp add: min_def)
  also have "take a s = take pos s @ take (a - pos) (drop pos s)"
    using o by (metis le_add_diff_inverse take_add)
  finally show ?case by (simp add: x)
qed simp

text \<open>
  Splicing right to left is right: with a tokenizer whose tokens come in order and inside the
  text, the spliced template is the original text with every parameter replaced by its typed NULL and
  nothing else changed - the result of one left-to-right pass.
\<close>

theorem splicing_exact:
  assumes "tokens_ordered 0 (length sql) toks"
  shows "apply_splices cast_null (collect_splices names groups 0 toks) sql =
    rebuild cast_null 0 sql (collect_splices names groups 0 toks)"
  using rebuild_exact [OF collect_ordered [OF assms]] by (simp add: apply_foldr)

definition marker_tokens :: "token list" where
  "marker_tokens = [\<lparr>tok_type = ''PLACEHOLDER'', tok_text = ''?'', tok_start = 2, tok_end = 2\<rparr>,
     \<lparr>tok_type = ''PARAMETER'', tok_text = ''$'', tok_start = 6, tok_end = 6\<rparr>,
     \<lparr>tok_type = ''VAR'', tok_text = ''k'', tok_start = 7, tok_end = 7\<rparr>]"

theorem splicing_exact_witness:
  "apply_splices (\<lambda>t. Some (''N:'' @ t)) (collect_splices [(''k'', ''DATE'')] [[plain_placeholder ''x'' ''BIGINT'']] 0 marker_tokens) ''a=? b=$k c''
   = ''a=N:BIGINT b=N:DATE c''"
proof -
  have "tokens_ordered 0 (length ''a=? b=$k c'') marker_tokens" by code_simp
  note eq = splicing_exact [OF this, of "\<lambda>t. Some (''N:'' @ t)" "[(''k'', ''DATE'')]" "[[plain_placeholder ''x'' ''BIGINT'']]"]
  show ?thesis unfolding eq by code_simp
qed

section \<open>What a binding guarantees\<close>

lemma bind_eff_Inr:
  "bind_eff m f w = (Inr b, w') \<longleftrightarrow> (\<exists>a w1. m w = (Inr a, w1) \<and> f a w1 = (Inr b, w'))"
  by (auto simp: bind_eff_def split: prod.splits sum.splits)

lemma map_filter_Nil: "List.map_filter f xs = [] \<longleftrightarrow> list_all (\<lambda>x. f x = None) xs"
  by (induction xs) (auto simp: List.map_filter_simps split: option.splits)

lemma make_binding_Inr:
  assumes "make_binding E q w = (Inr b, w')"
  shows "normalize_sql (sql_lang E) (rq_template q) = Some (normalized_sql b)"
    "list_all (\<lambda>c. column_reason c = None) (output_schema b)"
    "tables b = set (request_tables E q)"
    "\<exists>w1. live_fingerprint (digest16 E) (cat E) (remdups (request_tables E q)) w1 = (Inr (schema_fingerprint b), w')"
    "query_id b = rq_query_id q" "template_id b = request_engine_id q @ ''::'' @ rq_query_id q"
    "placeholders b = rq_placeholders q" "engine b = Some (rq_engine q)" "template_sql b = Some (rq_template q)"
  using assms
  by (auto simp: make_binding_def raise_eff_def return_eff_def bind_eff_Inr Let_def unsupported_output_reasons_def
      map_filter_Nil split: option.splits if_splits)

text \<open>
  Only what exact egress can reproduce is bound: a binding made for a template has the template's
  structural key, none of its output columns is nested, carries a time zone or is outside the
  vocabulary, and its fingerprint is the live fingerprint of exactly the tables it depends on.
\<close>

theorem binding_sound:
  assumes "make_binding E q w = (Inr b, w')"
  shows "normalize_sql (sql_lang E) (rq_template q) = Some (normalized_sql b) \<and>
    list_all (\<lambda>c. \<not> has_array_suffix (py_strip (py_upper (col_type c))) \<and>
      \<not> py_contains ''TIME ZONE'' (py_strip (py_upper (col_type c))) \<and>
      type_base (py_strip (py_upper (col_type c))) \<notin> set nested_bases \<union> set unsupported_bases)
      (output_schema b) \<and>
    tables b = set (request_tables E q) \<and>
    (\<exists>w1. live_fingerprint (digest16 E) (cat E) (remdups (request_tables E q)) w1 = (Inr (schema_fingerprint b), w'))"
proof -
  have "list_all (\<lambda>c. \<not> has_array_suffix (py_strip (py_upper (col_type c))) \<and>
      \<not> py_contains ''TIME ZONE'' (py_strip (py_upper (col_type c))) \<and>
      type_base (py_strip (py_upper (col_type c))) \<notin> set nested_bases \<union> set unsupported_bases)
      (output_schema b)"
    using make_binding_Inr(2) [OF assms] by (auto simp: list_all_iff column_reason_def Let_def split: if_splits)
  with make_binding_Inr(1,3,4) [OF assms] show ?thesis by blast
qed

definition demo_request :: bind_request where
  "demo_request = \<lparr>rq_template = ''select 1'', rq_engine = 3, rq_query_id = ''1'', rq_engine_id = Some ''eng-1'',
     rq_engine_name = None, rq_placeholders = [], rq_tables = Some [''orders''], rq_scale_factor = None,
     rq_storage_mode = ''flat''\<rparr>"

definition demo_catalog_env :: "unit catalog_env" where
  "demo_catalog_env = \<lparr>cat = still_catalog (\<lambda>t. [(''a'', ''BIGINT'')]) [''orders''],
     sql_lang = tiny_sqlglot\<lparr>parse_one := (\<lambda>s. Some (Node ''Select'' [])), tokenize := (\<lambda>s. Some [])\<rparr>,
     null_text = (\<lambda>t. None), digest16 = id\<rparr>"

theorem binding_sound_witness:
  "\<exists>b. make_binding demo_catalog_env demo_request () = (Inr b, ()) \<and> map col_type (output_schema b) = [''BIGINT''] \<and>
     type_base (py_strip (py_upper ''BIGINT'')) \<notin> set nested_bases \<union> set unsupported_bases"
proof -
  have "(case fst (make_binding demo_catalog_env demo_request ()) of Inl e \<Rightarrow> [] | Inr b \<Rightarrow> map col_type (output_schema b))
      = [''BIGINT'']" by code_simp
  then obtain b where b: "make_binding demo_catalog_env demo_request () = (Inr b, ())" "map col_type (output_schema b) = [''BIGINT'']"
    by (cases "make_binding demo_catalog_env demo_request ()") (auto split: sum.splits)
  with binding_sound [OF b(1)] show ?thesis by (auto simp: list_all_iff)
qed

section \<open>Registering a manifest\<close>

lemma enroll_facts [simp]:
  "by_norm (enroll b r) = AList.update (normalized_sql b) b (by_norm r)" "quarantined (enroll b r) = quarantined r"
  "dirty_tables (enroll b r) = dirty_tables r - py_lower ` tables b"
  by (simp_all add: enroll_def reg_register_def reg_clear_dirty_def)

lemma enroll_inv: "registry_inv r \<Longrightarrow> registry_inv (enroll b r)"
  using registry_step_inv [of "reg_register b r" "ClearDirty (Some (tables b))"] registry_inv_register [of r b]
  by (simp add: enroll_def)

lemma register_queries_fold:
  "register_queries E qs r w = (Inr bs, r', w') \<Longrightarrow> r' = fold enroll bs r \<and> map query_id bs = map rq_query_id qs"
proof (induction qs arbitrary: r w bs)
  case (Cons q qs)
  then obtain b w1 cs where m: "make_binding E q w = (Inr b, w1)" "bs = b # cs"
    and rest: "register_queries E qs (enroll b r) w1 = (Inr cs, r', w')"
    by (auto simp: register_engine_def split: prod.splits sum.splits)
  from Cons.IH [OF rest] make_binding_Inr(5) [OF m(1)] m(2) show ?case by simp
qed simp

lemma fold_enroll:
  "quarantined (fold enroll bs r) = quarantined r" "dirty_tables (fold enroll bs r) \<subseteq> dirty_tables r"
  "registry_inv r \<Longrightarrow> registry_inv (fold enroll bs r)"
proof (induction bs arbitrary: r)
  case (Cons b bs)
  case 2
  show ?case using Cons(2) [of "enroll b r"] by auto
qed (simp_all add: enroll_inv)

lemma fold_enroll_lookup:
  "distinct (map normalized_sql bs) \<Longrightarrow> b \<in> set bs \<Longrightarrow>
   map_of (by_norm (fold enroll bs r)) (normalized_sql b) = Some b \<and> \<not> reg_is_dirty (fold enroll bs r) b"
proof (induction bs arbitrary: r)
  case (Cons c cs)
  have other: "map_of (by_norm (fold enroll xs s)) k = map_of (by_norm s) k" if "k \<notin> normalized_sql ` set xs" for xs s k
    using that by (induction xs arbitrary: s) auto
  show ?case
  proof (cases "b = c")
    case True
    then have "\<not> reg_is_dirty (enroll c r) b" by (auto simp: reg_is_dirty_def)
    with fold_enroll(2) [of cs "enroll c r"] have "\<not> reg_is_dirty (fold enroll cs (enroll c r)) b"
      by (auto simp: reg_is_dirty_def)
    with True other [of "normalized_sql c" cs "enroll c r"] Cons.prems show ?thesis by simp
  qed (use Cons in auto)
qed simp

text \<open>A registration that fails half-way keeps the bindings made before the failure.\<close>

lemma registration_keeps_prefix:
  "register_queries E qs r w = (Inr bs, r1, w1) \<Longrightarrow> make_binding E q w1 = (Inl e, w2) \<Longrightarrow>
   register_queries E (qs @ q # rest) r w = (Inl e, fold enroll bs r, w2)"
proof (induction qs arbitrary: r w bs)
  case (Cons p qs)
  then show ?case by (auto simp: register_engine_def split: prod.splits sum.splits)
qed (simp add: register_engine_def)

text \<open>
  A registered manifest is served: after a successful registration the registry holds, for every
  query of the manifest in order, its binding under its structural key (as long as no two queries
  share a key), with no dirty mark left on its tables; quarantines are unchanged and the registry
  stays well formed.
\<close>

theorem manifest_registered:
  assumes "register_manifest E strict m e r w = (Inr bs, r', w')"
  shows "map query_id bs = map qt_query_id (mf_queries m) \<and> quarantined r' = quarantined r \<and>
    (registry_inv r \<longrightarrow> registry_inv r') \<and>
    (distinct (map normalized_sql bs) \<longrightarrow>
      list_all (\<lambda>b. map_of (by_norm r') (normalized_sql b) = Some b \<and> \<not> reg_is_dirty r' b) bs)"
proof -
  from assms obtain w1 where "register_queries E (map (query_request m e) (mf_queries m)) r w1 = (Inr bs, r', w')"
    by (auto simp: register_manifest_def split: prod.splits if_splits)
  from register_queries_fold [OF this]
  have "r' = fold enroll bs r" "map query_id bs = map qt_query_id (mf_queries m)"
    by (simp_all add: query_request_def comp_def)
  then show ?thesis using fold_enroll(1,3) fold_enroll_lookup [of bs _ r] by (auto simp: list_all_iff)
qed

theorem manifest_registered_witness:
  "\<exists>bs r'. register_manifest demo_catalog_env False demo_manifest 3 empty_registry () = (Inr bs, r', ()) \<and>
     map query_id bs = [''1''] \<and> quarantined r' = {}"
proof -
  have "(case fst (register_manifest demo_catalog_env False demo_manifest 3 empty_registry ()) of Inl e \<Rightarrow> False | Inr bs \<Rightarrow> True)"
    by code_simp
  then obtain bs r' where r: "register_manifest demo_catalog_env False demo_manifest 3 empty_registry () = (Inr bs, r', ())"
    by (cases "register_manifest demo_catalog_env False demo_manifest 3 empty_registry ()") (auto split: sum.splits)
  from manifest_registered [OF r] r show ?thesis by (auto simp: demo_manifest_def empty_registry_def)
qed

end
