(* ===== verification/Engine_Discovery.thy ===== *)
theory Engine_Discovery
  imports Engine_Process Engine_Registration
begin

text \<open>
  Auto-discovery of published engines (\<open>duckdb_compat/discovery.py\<close>, with the thread mapping of
  \<open>utils/core_utils.py\<close>). The state \<open>site\<close> holds what the connection shares: the registry, the engine
  objects by identity (a binding's \<open>engine_ref\<close> is the index) and the machine. Directory listing,
  JSON parsing and path resolution are fields of \<open>site_env\<close>. Every call that can raise in the source
  can raise here, and keeps the state it reached.
\<close>

section \<open>Configuration\<close>

definition resolve_engines_dir :: "string option \<Rightarrow> (string \<rightharpoonup> string) \<Rightarrow> string option" where
  "resolve_engines_dir engines getenv = (case engines of
     Some p \<Rightarrow> Some p
   | None \<Rightarrow> (case getenv ''SYNNO_ENGINES_DIR'' of
       Some d \<Rightarrow> if d \<noteq> [] then Some d
         else (case getenv ''SYNNO_DATA_DIR'' of Some x \<Rightarrow> if x \<noteq> [] then Some (x @ ''/engines'') else None | None \<Rightarrow> None)
     | None \<Rightarrow> (case getenv ''SYNNO_DATA_DIR'' of Some x \<Rightarrow> if x \<noteq> [] then Some (x @ ''/engines'') else None | None \<Rightarrow> None)))"

definition quote_ident :: "string \<Rightarrow> string" where
  "quote_ident n = [CHR 0x22] @ py_replace_char (CHR 0x22) [CHR 0x22, CHR 0x22] n @ [CHR 0x22]"

text \<open>\<open>affinity\<close> is the sorted CPU affinity of the process; core 0 is left out.\<close>

definition usable_cores :: "nat list \<Rightarrow> nat option \<Rightarrow> nat list" where
  "usable_cores affinity n = (let cs = filter (\<lambda>c. c \<noteq> 0) affinity in
     case n of None \<Rightarrow> cs | Some k \<Rightarrow> take k cs)"

definition resolve_target_cores :: "nat list \<Rightarrow> int option \<Rightarrow> py_error + nat \<times> nat list" where
  "resolve_target_cores affinity threads =
     (case (case threads of
          None \<Rightarrow> Inr (Some 1)
        | Some t \<Rightarrow> if t = 0 then Inr None else if 1 \<le> t then Inr (Some (nat t))
                    else Inl (ValueError ''threads must be 0 (all cores), None (default 1), or >= 1'')) of
        Inl e \<Rightarrow> Inl e
      | Inr n \<Rightarrow> (let cs = usable_cores affinity n in Inr (length cs, cs)))"

definition core_ids_to_env :: "nat list \<Rightarrow> string" where
  "core_ids_to_env cs = (if cs = [] then ''1'' else py_join '','' (map str_nat cs))"

definition engine_extra_env :: "nat list \<Rightarrow> engine_manifest \<Rightarrow> int option \<Rightarrow> py_error + (string \<times> string) list" where
  "engine_extra_env affinity m override =
     (case (case override of Some t \<Rightarrow> Some t | None \<Rightarrow> mf_threads m) of
        None \<Rightarrow> Inr []
      | Some t \<Rightarrow> ebind (resolve_target_cores affinity (Some t))
          (\<lambda>(n, cs). Inr [(''CORE_IDS'', core_ids_to_env cs)]))"

section \<open>State\<close>

record 'w site =
  s_registry :: registry
  s_engines :: "process_engine list"
  s_machine :: "'w machine"

record 'w site_env =
  se_catalog :: "'w catalog_env"
  se_host :: "'w engine_host"
  se_children :: "string \<Rightarrow> 'w \<Rightarrow> string list option"
  se_manifest :: "string \<Rightarrow> 'w \<Rightarrow> (py_error + json) option"
  se_resolve :: "string \<Rightarrow> string"
  se_affinity :: "nat list"

text \<open>A call to DuckDB acts on the rest of the world.\<close>

definition on_world :: "('w, 'a) eff \<Rightarrow> 'w site \<Rightarrow> (py_error + 'a) \<times> 'w site" where
  "on_world f s = (case f (rest_of_world (s_machine s)) of
     (r, w) \<Rightarrow> (r, s\<lparr>s_machine := (s_machine s)\<lparr>rest_of_world := w\<rparr>\<rparr>))"

definition close_ref :: "engine_ref \<Rightarrow> 'w site \<Rightarrow> 'w site" where
  "close_ref r s =
     (if r < length (s_engines s) then
        (case close_engine (s_engines s ! r, s_machine s) of
           (e, m) \<Rightarrow> s\<lparr>s_engines := (s_engines s)[r := e], s_machine := m\<rparr>)
      else s)"

definition add_engine :: "process_engine \<Rightarrow> 'w site \<Rightarrow> engine_ref \<times> 'w site" where
  "add_engine e s = (length (s_engines s), s\<lparr>s_engines := s_engines s @ [e]\<rparr>)"

section \<open>Tables and snapshots\<close>

definition engine_tables :: "sqlglot \<Rightarrow> engine_manifest \<Rightarrow> string list" where
  "engine_tables L m =
     (if mf_expected_tables m \<noteq> [] then map fst (mf_expected_tables m)
      else sort (remdups (concat (map (tables_in L \<circ> qt_sql_template) (mf_queries m)))))"

definition tables_present :: "'w site_env \<Rightarrow> string list \<Rightarrow> ('w site, string list) eff" where
  "tables_present E ts =
     (if ts = [] then return_eff []
      else bind_eff (on_world (table_names (cat (se_catalog E))))
        (\<lambda>have. return_eff (filter (\<lambda>t. py_lower t \<in> set have) ts)))"

definition inside :: "string \<Rightarrow> string \<Rightarrow> bool" where
  "inside d p \<longleftrightarrow> d = ''/'' \<and> py_startswith p ''/'' \<or> below d p"

definition resolve_parquet_dir ::
  "'w site_env \<Rightarrow> engine_manifest \<Rightarrow> string \<Rightarrow> bool \<Rightarrow> 'w machine \<Rightarrow> py_error + string option" where
  "resolve_parquet_dir E m dir require_exists mach = (case mf_parquet_dir m of
     None \<Rightarrow> Inr None
   | Some raw \<Rightarrow>
       if raw = [] then Inr None
       else
         (let p = (if py_startswith raw ''/'' then raw else se_resolve E (dir @ ''/'' @ raw)) in
          if \<not> py_startswith raw ''/'' \<and> \<not> inside (se_resolve E dir) p then
            Inl (SynnoError (''engine '' @ mf_engine_id m @ '': parquet_dir escapes the engine package; refusing to read it''))
          else if require_exists \<and> \<not> exists_path p mach then Inr None
          else Inr (Some p)))"

definition view_sql :: "string \<Rightarrow> string \<Rightarrow> string" where
  "view_sql t pf = ''CREATE OR REPLACE VIEW '' @ quote_ident t @ '' AS SELECT * FROM read_parquet(''
     @ [CHR 0x27] @ py_replace_char (CHR 0x27) [CHR 0x27, CHR 0x27] pf @ [CHR 0x27] @ '')''"

fun mount_snapshot_views :: "'w site_env \<Rightarrow> string list \<Rightarrow> string \<Rightarrow> ('w site, unit) eff" where
  "mount_snapshot_views E [] d = return_eff ()"
| "mount_snapshot_views E (t # ts) d = (\<lambda>s.
     if exists_path (d @ ''/'' @ t @ ''.parquet'') (s_machine s)
     then bind_eff (on_world (exec_sql (cat (se_catalog E)) (view_sql t (d @ ''/'' @ t @ ''.parquet''))))
       (\<lambda>u. mount_snapshot_views E ts d) s
     else mount_snapshot_views E ts d s)"

definition aligned_arrow :: "'w site_env \<Rightarrow> string list \<Rightarrow> ('w site, (string \<times> arrow) list) eff" where
  "aligned_arrow E ts = traverse_eff (\<lambda>t.
     bind_eff (on_world (fetch_arrow (cat (se_catalog E)) (''SELECT * FROM '' @ quote_ident t)))
       (\<lambda>a. return_eff (t, a))) ts"

definition shm_schema_ok :: "'w site_env \<Rightarrow> engine_manifest \<Rightarrow> 'w site \<Rightarrow> bool \<times> 'w site" where
  "shm_schema_ok E m s =
     (if mf_expected_tables m = [] then (False, s)
      else case check_compatibility (cat (se_catalog E)) m (rest_of_world (s_machine s)) of
        (problems, w) \<Rightarrow> (problems = [], s\<lparr>s_machine := (s_machine s)\<lparr>rest_of_world := w\<rparr>\<rparr>))"

section \<open>Choosing the plane\<close>

text \<open>\<open>engine.ingest(...)\<close> on the engine object \<open>r\<close>.\<close>

definition ingest_ref :: "'w site_env \<Rightarrow> engine_ref \<Rightarrow> (string \<times> arrow) list \<Rightarrow> ('w site, unit) eff" where
  "ingest_ref E r ts s = (case ingest (se_host E) ts (s_engines s ! r) (s_machine s) of
     (res, e, m) \<Rightarrow> (res, s\<lparr>s_engines := (s_engines s)[r := e], s_machine := m\<rparr>))"

definition new_hot :: "'w site_env \<Rightarrow> engine_manifest \<Rightarrow> string \<Rightarrow> int option \<Rightarrow> py_error + process_engine" where
  "new_hot E m dir thr = ebind (engine_extra_env (se_affinity E) m thr)
     (\<lambda>env. Inr (new_hot_engine (mf_engine_id m) dir None env))"

definition build_engine :: "'w site_env \<Rightarrow> engine_manifest \<Rightarrow> string \<Rightarrow> int option \<Rightarrow> ('w site, engine_ref) eff" where
  "build_engine E m dir thr s = (case resolve_parquet_dir E m dir False (s_machine s) of
     Inl e \<Rightarrow> (Inl e, s)
   | Inr None \<Rightarrow> (Inl (ValueError (''manifest for '' @ mf_engine_id m @ '' has no parquet_dir'')), s)
   | Inr (Some p) \<Rightarrow> (case engine_extra_env (se_affinity E) m thr of
       Inl e \<Rightarrow> (Inl e, s)
     | Inr env \<Rightarrow> (case add_engine (new_process_engine (mf_engine_id m) dir p env) s of (r, s') \<Rightarrow> (Inr r, s'))))"

definition truthy_text :: "string option \<Rightarrow> bool" where
  "truthy_text p = (case p of None \<Rightarrow> False | Some s \<Rightarrow> s \<noteq> [])"

definition subset_of :: "string list \<Rightarrow> string list \<Rightarrow> bool" where
  "subset_of ts present \<longleftrightarrow> list_all (\<lambda>t. t \<in> set present) ts"

definition is_resource_error :: "py_error \<Rightarrow> bool" where
  "is_resource_error e = (case e of EngineResourceError m \<Rightarrow> True | _ \<Rightarrow> False)"

text \<open>
  The hot-load attempt. \<open>None\<close>: the hot plane is not available; \<open>Some r\<close>: engine \<open>r\<close> serves it. A
  resource error closes the engine and falls through when the package bundles a snapshot.
\<close>

definition try_hot ::
  "'w site_env \<Rightarrow> engine_manifest \<Rightarrow> string \<Rightarrow> int option \<Rightarrow> string list \<Rightarrow> ('w site, engine_ref option) eff" where
  "try_hot E m dir thr ts s = (case new_hot E m dir thr of
     Inl e \<Rightarrow> (Inl e, s)
   | Inr e \<Rightarrow> (case add_engine e s of (r, s1) \<Rightarrow>
       (case bind_eff (aligned_arrow E ts) (ingest_ref E r) s1 of
          (Inr u, s2) \<Rightarrow> (Inr (Some r), s2)
        | (Inl exc, s2) \<Rightarrow>
            if is_resource_error exc then
              (let s3 = close_ref r s2 in if truthy_text (mf_parquet_dir m) then (Inr None, s3) else (Inl exc, s3))
            else (Inl exc, s2))))"

definition missing_tables :: "string list \<Rightarrow> string list \<Rightarrow> string list" where
  "missing_tables ts present = filter (\<lambda>t. t \<notin> set present) ts"

definition mount_if_needed ::
  "'w site_env \<Rightarrow> engine_manifest \<Rightarrow> string \<Rightarrow> bool \<Rightarrow> string list \<Rightarrow> string list \<Rightarrow> ('w site, string list) eff" where
  "mount_if_needed E m dir mount ts present s =
     (if \<not> mount then (Inr present, s)
      else (case resolve_parquet_dir E m dir True (s_machine s) of
          Inl e \<Rightarrow> (Inl e, s)
        | Inr None \<Rightarrow> (Inr present, s)
        | Inr (Some snap) \<Rightarrow>
            if missing_tables ts present \<noteq> [] then
              bind_eff (mount_snapshot_views E (missing_tables ts present) snap) (\<lambda>u. tables_present E ts) s
            else (Inr present, s)))"

definition bind_cold ::
  "'w site_env \<Rightarrow> engine_manifest \<Rightarrow> string \<Rightarrow> bool \<Rightarrow> int option \<Rightarrow> string list \<Rightarrow> string list
     \<Rightarrow> ('w site, engine_ref option) eff"
where
  "bind_cold E m dir mount thr ts present s =
     (if \<not> truthy_text (mf_parquet_dir m) then (Inr None, s)
      else (case mount_if_needed E m dir mount ts present s of
          (Inl e, s1) \<Rightarrow> (Inl e, s1)
        | (Inr present', s1) \<Rightarrow>
            if subset_of ts present' then
              (case build_engine E m dir thr s1 of (Inl e, s2) \<Rightarrow> (Inl e, s2) | (Inr r, s2) \<Rightarrow> (Inr (Some r), s2))
            else (Inr None, s1)))"

definition hot_allowed :: "'w site_env \<Rightarrow> engine_manifest \<Rightarrow> string list \<Rightarrow> string list \<Rightarrow> 'w site \<Rightarrow> bool \<times> 'w site" where
  "hot_allowed E m ts present s =
     (if mf_shm_capable m \<and> subset_of ts present then shm_schema_ok E m s else (False, s))"

definition bind_engine ::
  "'w site_env \<Rightarrow> engine_manifest \<Rightarrow> string \<Rightarrow> bool \<Rightarrow> int option \<Rightarrow> ('w site, engine_ref option) eff" where
  "bind_engine E m dir mount thr s =
     (let ts = engine_tables (sql_lang (se_catalog E)) m in
      case tables_present E ts s of
        (Inl e, s1) \<Rightarrow> (Inl e, s1)
      | (Inr present, s1) \<Rightarrow> (case hot_allowed E m ts present s1 of
          (False, s2) \<Rightarrow> bind_cold E m dir mount thr ts present s2
        | (True, s2) \<Rightarrow> (case try_hot E m dir thr ts s2 of
            (Inr None, s3) \<Rightarrow> bind_cold E m dir mount thr ts present s3
          | res \<Rightarrow> res)))"

definition register_at :: "'w site_env \<Rightarrow> engine_manifest \<Rightarrow> engine_ref \<Rightarrow> ('w site, engine_binding list) eff" where
  "register_at E m r s = (case register_manifest (se_catalog E) True m r (s_registry s) (rest_of_world (s_machine s)) of
     (res, reg, w) \<Rightarrow> (res, s\<lparr>s_registry := reg, s_machine := (s_machine s)\<lparr>rest_of_world := w\<rparr>\<rparr>))"

section \<open>Promotion to the hot-load plane\<close>

definition bound_here :: "'w site \<Rightarrow> engine_manifest \<Rightarrow> string \<Rightarrow> engine_ref option" where
  "bound_here s m dir = (case filter (\<lambda>b. engine_id b = mf_engine_id m \<and>
       (case engine b of None \<Rightarrow> False
        | Some r \<Rightarrow> r < length (s_engines s) \<and> pe_workspace (s_engines s ! r) = dir)) (reg_bindings (s_registry s)) of
     [] \<Rightarrow> None | b # bs \<Rightarrow> engine b)"

definition replace_hot ::
  "'w site_env \<Rightarrow> engine_manifest \<Rightarrow> string \<Rightarrow> int option \<Rightarrow> string list \<Rightarrow> engine_ref \<Rightarrow> ('w site, bool) eff" where
  "replace_hot E m dir thr ts current s = (case new_hot E m dir thr of
     Inl e \<Rightarrow> (Inl e, s)
   | Inr e \<Rightarrow> (case add_engine e s of (r, s1) \<Rightarrow>
       (case bind_eff (aligned_arrow E ts) (ingest_ref E r) s1 of
          (Inl exc, s2) \<Rightarrow> (Inl exc, s2)
        | (Inr u, s2) \<Rightarrow> (case register_at E m r s2 of
            (Inl exc, s3) \<Rightarrow> (Inr False, close_ref r s3)
          | (Inr bs, s3) \<Rightarrow> (Inr True, close_ref current s3)))))"

definition promote_to_shm :: "'w site_env \<Rightarrow> engine_manifest \<Rightarrow> string \<Rightarrow> int option \<Rightarrow> ('w site, bool) eff" where
  "promote_to_shm E m dir thr s =
     (if \<not> mf_shm_capable m then (Inr False, s)
      else (case bound_here s m dir of
          None \<Rightarrow> (Inr False, s)
        | Some current \<Rightarrow>
            if pe_hot (s_engines s ! current) then (Inr False, s)
            else
              (let ts = engine_tables (sql_lang (se_catalog E)) m in
               case tables_present E ts s of
                 (Inl e, s1) \<Rightarrow> (Inl e, s1)
               | (Inr present, s1) \<Rightarrow>
                   (case (if subset_of ts present then shm_schema_ok E m s1 else (False, s1)) of
                      (False, s2) \<Rightarrow> (Inr False, s2)
                    | (True, s2) \<Rightarrow> replace_hot E m dir thr ts current s2))))"

section \<open>The scan\<close>

definition package_key :: "string \<Rightarrow> string \<Rightarrow> string" where
  "package_key child eid = child @ [CHR 0x1F] @ eid"

text \<open>\<open>except SynnoError\<close> catches the base class and its subclasses.\<close>

definition is_synno_error :: "py_error \<Rightarrow> bool" where
  "is_synno_error e = (case e of SynnoError m \<Rightarrow> True | SynnoUnsupportedQuery rs \<Rightarrow> True
     | EngineExecutionError m \<Rightarrow> True | EngineResourceError m \<Rightarrow> True | _ \<Rightarrow> False)"

text \<open>A package seen for the first time: the result says whether its key is recorded.\<close>

definition discover_new ::
  "'w site_env \<Rightarrow> engine_manifest \<Rightarrow> string \<Rightarrow> bool \<Rightarrow> int option \<Rightarrow> 'w site \<Rightarrow> bool \<times> 'w site" where
  "discover_new E m dir mount thr s = (case bind_engine E m dir mount thr s of
     (Inl exc, s1) \<Rightarrow> (is_synno_error exc, s1)
   | (Inr None, s1) \<Rightarrow> (False, s1)
   | (Inr (Some r), s1) \<Rightarrow> (case register_at E m r s1 of
       (Inl exc, s2) \<Rightarrow> (is_synno_error exc, close_ref r s2)
     | (Inr bs, s2) \<Rightarrow> (True, s2)))"

definition discover_child ::
  "'w site_env \<Rightarrow> string \<Rightarrow> bool \<Rightarrow> int option \<Rightarrow> string \<Rightarrow> string set \<Rightarrow> ('w site, string set) eff" where
  "discover_child E engines_dir mount thr child keys s =
     (if py_startswith child ''.'' then (Inr keys, s)
      else (let dir = engines_dir @ ''/'' @ child in
        case se_manifest E dir (rest_of_world (s_machine s)) of
          None \<Rightarrow> (Inr keys, s)
        | Some read \<Rightarrow> (case ebind read manifest_from_dict of
            Inl exc \<Rightarrow> (Inr keys, s)
          | Inr m \<Rightarrow>
              (let key = package_key child (mf_engine_id m) in
               if key \<in> keys then
                 (case promote_to_shm E m dir thr s of
                    (Inl exc, s1) \<Rightarrow> (Inl exc, s1) | (Inr b, s1) \<Rightarrow> (Inr keys, s1))
               else (case discover_new E m dir mount thr s of
                   (recorded, s1) \<Rightarrow> (Inr (if recorded then insert key keys else keys), s1))))))"

fun discover_children ::
  "'w site_env \<Rightarrow> string \<Rightarrow> bool \<Rightarrow> int option \<Rightarrow> string list \<Rightarrow> string set \<Rightarrow> ('w site, string set) eff" where
  "discover_children E engines_dir mount thr [] keys s = (Inr keys, s)"
| "discover_children E engines_dir mount thr (c # cs) keys s = (case discover_child E engines_dir mount thr c keys s of
     (Inl exc, s1) \<Rightarrow> (Inl exc, s1)
   | (Inr keys1, s1) \<Rightarrow> discover_children E engines_dir mount thr cs keys1 s1)"

definition discover_engines ::
  "'w site_env \<Rightarrow> string \<Rightarrow> bool \<Rightarrow> int option \<Rightarrow> string set \<Rightarrow> ('w site, string set) eff" where
  "discover_engines E engines_dir mount thr keys s = (case se_children E engines_dir (rest_of_world (s_machine s)) of
     None \<Rightarrow> (Inr keys, s)
   | Some cs \<Rightarrow> discover_children E engines_dir mount thr (sort cs) keys s)"

section \<open>What the reads leave alone\<close>

definition same_objects :: "'w site \<Rightarrow> 'w site \<Rightarrow> bool" where
  "same_objects s s' \<longleftrightarrow> s_engines s' = s_engines s \<and> s_registry s' = s_registry s"

lemma same_refl [simp]: "same_objects s s"
  by (simp add: same_objects_def)

lemma same_trans: "same_objects a b \<Longrightarrow> same_objects b c \<Longrightarrow> same_objects a c"
  by (simp add: same_objects_def)

lemma same_world: "on_world f s = (r, s') \<Longrightarrow> same_objects s s'"
  by (auto simp: on_world_def same_objects_def split: prod.splits)

lemma same_bind:
  assumes "bind_eff m f s = (r, s')" "\<And>a s1. m s = (a, s1) \<Longrightarrow> same_objects s s1"
    "\<And>a s1 r s2. f a s1 = (r, s2) \<Longrightarrow> same_objects s1 s2"
  shows "same_objects s s'"
  using assms by (auto simp: bind_eff_def split: prod.splits sum.splits intro: same_trans)

lemma same_return: "return_eff a s = (r, s') \<Longrightarrow> same_objects s s'"
  by (simp add: return_eff_def)

lemma same_present: "tables_present E ts s = (r, s') \<Longrightarrow> same_objects s s'"
  by (auto simp: tables_present_def dest: same_return elim!: same_bind [OF _ same_world] split: if_splits)

lemma same_mount: "mount_snapshot_views E ts d s = (r, s') \<Longrightarrow> same_objects s s'"
proof (induction ts arbitrary: s r s')
  case (Cons t ts)
  then show ?case by (auto split: if_splits elim!: same_bind [OF _ same_world])
qed (auto dest: same_return)

lemma same_traverse:
  assumes "\<And>x s r s'. f x s = (r, s') \<Longrightarrow> same_objects s s'"
  shows "traverse_eff f xs s = (r, s') \<Longrightarrow> same_objects s s'"
proof (induction xs arbitrary: s r s')
  case (Cons x xs)
  from Cons.prems have "bind_eff (f x) (\<lambda>y. bind_eff (traverse_eff f xs) (\<lambda>ys. return_eff (y # ys))) s = (r, s')"
    by simp
  then show ?case
  proof (rule same_bind)
    fix y s1 r s2 assume "bind_eff (traverse_eff f xs) (\<lambda>ys. return_eff (y # ys)) s1 = (r, s2)"
    then show "same_objects s1 s2" by (rule same_bind) (auto dest: Cons.IH same_return)
  qed (rule assms)
qed (auto dest: same_return)

lemma same_aligned: "aligned_arrow E ts s = (r, s') \<Longrightarrow> same_objects s s'"
  unfolding aligned_arrow_def
  by (erule same_traverse [rotated]) (auto dest: same_return elim!: same_bind [OF _ same_world])

lemma same_schema: "shm_schema_ok E m s = (b, s') \<Longrightarrow> same_objects s s'"
  by (auto simp: shm_schema_ok_def same_objects_def split: if_splits prod.splits)

lemma same_allowed: "hot_allowed E m ts present s = (b, s') \<Longrightarrow> same_objects s s'"
  by (auto simp: hot_allowed_def dest: same_schema split: if_splits)

lemma same_mount_needed: "mount_if_needed E m dir mount ts present s = (r, s') \<Longrightarrow> same_objects s s'"
  by (auto simp: mount_if_needed_def split: if_splits sum.splits option.splits
      elim!: same_bind [OF _ same_mount same_present])

section \<open>The hot plane serves verified data\<close>

lemma build_engine_cold:
  "build_engine E m dir thr s = (Inr r, s') \<Longrightarrow>
   r = length (s_engines s) \<and> (\<exists>e. s_engines s' = s_engines s @ [e] \<and> \<not> pe_hot e \<and> pe_proc e = None \<and> pe_ingest_dir e = None)
   \<and> s_registry s' = s_registry s"
  by (auto simp: build_engine_def add_engine_def new_process_engine_def split: sum.splits option.splits)

lemma build_engine_fails: "build_engine E m dir thr s = (Inl exc, s') \<Longrightarrow> s' = s"
  by (auto simp: build_engine_def add_engine_def split: sum.splits option.splits)

lemma bind_cold_Some:
  assumes "bind_cold E m dir mount thr ts present s = (Inr (Some r), s')"
  shows "r = length (s_engines s) \<and> s_registry s' = s_registry s \<and>
    (\<exists>e. s_engines s' = s_engines s @ [e] \<and> \<not> pe_hot e \<and> pe_proc e = None \<and> pe_ingest_dir e = None)"
proof -
  from assms obtain p s1 where m: "mount_if_needed E m dir mount ts present s = (Inr p, s1)"
    and b: "build_engine E m dir thr s1 = (Inr r, s')"
    by (auto simp: bind_cold_def split: if_splits prod.splits sum.splits)
  from same_mount_needed [OF m] build_engine_cold [OF b] show ?thesis by (simp add: same_objects_def)
qed

lemma bind_cold_else:
  assumes "bind_cold E m dir mount thr ts present s = (x, s')" "\<And>r. x \<noteq> Inr (Some r)"
  shows "same_objects s s'"
  using assms same_mount_needed build_engine_fails
  by (fastforce simp: bind_cold_def split: if_splits prod.splits sum.splits)

text \<open>
  C20. The hot-load plane serves only verified data: when an engine is bound to the connection's live
  tables, its manifest is hot-load capable and declares its schema, every table it needs was present,
  and the compatibility check against the live catalog had just reported no problem.
\<close>

theorem hot_plane_verified:
  assumes "bind_engine E m dir mount thr s = (Inr (Some r), s')" "pe_hot (s_engines s' ! r)"
  shows "mf_shm_capable m \<and> mf_expected_tables m \<noteq> [] \<and>
    (\<exists>present s1 w. tables_present E (map fst (mf_expected_tables m)) s = (Inr present, s1) \<and>
      set (map fst (mf_expected_tables m)) \<subseteq> set present \<and>
      check_compatibility (cat (se_catalog E)) m (rest_of_world (s_machine s1)) = ([], w))"
proof -
  let ?ts = "engine_tables (sql_lang (se_catalog E)) m"
  from assms(1) obtain present s1 where p: "tables_present E ?ts s = (Inr present, s1)"
    by (auto simp: bind_engine_def Let_def split: prod.splits sum.splits)
  obtain b s2 where h: "hot_allowed E m ?ts present s1 = (b, s2)" by (cases "hot_allowed E m ?ts present s1")
  have cold: False if "bind_cold E m dir mount thr ?ts present s3 = (Inr (Some r), s')" for s3
    using bind_cold_Some [OF that] assms(2) by auto
  have b: b
  proof (rule ccontr)
    assume "\<not> b"
    with assms(1) p h have "bind_cold E m dir mount thr ?ts present s2 = (Inr (Some r), s')"
      by (simp add: bind_engine_def Let_def)
    with cold show False .
  qed
  with h have c: "mf_shm_capable m" "subset_of ?ts present" "shm_schema_ok E m s1 = (True, s2)"
    by (auto simp: hot_allowed_def split: if_splits)
  then have x: "mf_expected_tables m \<noteq> []"
    "fst (check_compatibility (cat (se_catalog E)) m (rest_of_world (s_machine s1))) = []"
    by (auto simp: shm_schema_ok_def split: if_splits prod.splits)
  then have ts: "?ts = map fst (mf_expected_tables m)" by (simp add: engine_tables_def)
  from c(2) have "set ?ts \<subseteq> set present" by (auto simp: subset_of_def list_all_iff)
  with c(1) x p show ?thesis unfolding ts by (metis prod.collapse)
qed

section \<open>A scan raises only while promoting\<close>

lemma package_key_child:
  "CHR 0x1F \<notin> set c \<Longrightarrow> CHR 0x1F \<notin> set d \<Longrightarrow> package_key c e = package_key d f \<Longrightarrow> c = d"
  using split_first [of "CHR 0x1F" c d e f] by (simp add: package_key_def)

lemma discover_child_keys:
  "discover_child E d mount thr c keys s = (Inr keys', s') \<Longrightarrow> keys \<subseteq> keys' \<and> keys' \<subseteq> keys \<union> range (package_key c)"
  by (auto simp: discover_child_def Let_def split: if_splits option.splits sum.splits prod.splits)

lemma discover_child_raises:
  assumes "discover_child E d mount thr c keys s = (Inl exc, s')"
  obtains m where "package_key c (mf_engine_id m) \<in> keys" "mf_shm_capable m"
    "promote_to_shm E m (d @ ''/'' @ c) thr s = (Inl exc, s')"
proof -
  from assms obtain m where m: "package_key c (mf_engine_id m) \<in> keys"
    "promote_to_shm E m (d @ ''/'' @ c) thr s = (Inl exc, s')"
    by (auto simp: discover_child_def Let_def split: if_splits option.splits sum.splits prod.splits)
  moreover from m(2) have "mf_shm_capable m" by (auto simp: promote_to_shm_def split: if_splits)
  ultimately show ?thesis using that by blast
qed

lemma discover_children_raises:
  assumes "discover_children E d mount thr cs keys s = (Inl exc, s')" "distinct cs"
    and "\<forall>c \<in> set cs. CHR 0x1F \<notin> set c"
  shows "\<exists>c m s1. c \<in> set cs \<and> package_key c (mf_engine_id m) \<in> keys \<and> mf_shm_capable m \<and>
    promote_to_shm E m (d @ ''/'' @ c) thr s1 = (Inl exc, s')"
  using assms
proof (induction cs arbitrary: keys s)
  case (Cons c cs)
  obtain x s1 where one: "discover_child E d mount thr c keys s = (x, s1)"
    by (cases "discover_child E d mount thr c keys s")
  show ?case
  proof (cases x)
    case (Inl e)
    with Cons.prems(1) one have "discover_child E d mount thr c keys s = (Inl exc, s')" by simp
    then show ?thesis by (rule discover_child_raises) auto
  next
    case (Inr ks)
    with Cons.prems(1) one have "discover_children E d mount thr cs ks s1 = (Inl exc, s')" by simp
    from Cons.IH [OF this] Cons.prems(2,3) obtain c' m s2 where c': "c' \<in> set cs"
      "package_key c' (mf_engine_id m) \<in> ks" "mf_shm_capable m"
      "promote_to_shm E m (d @ ''/'' @ c') thr s2 = (Inl exc, s')" by auto
    moreover have "package_key c' (mf_engine_id m) \<in> keys"
    proof (rule ccontr)
      assume "package_key c' (mf_engine_id m) \<notin> keys"
      with discover_child_keys [OF one [unfolded Inr]] c'(2) obtain i where
        "package_key c' (mf_engine_id m) = package_key c i" by blast
      with package_key_child [of c' c] Cons.prems(2,3) c'(1) show False by auto
    qed
    ultimately show ?thesis by auto
  qed
qed simp

text \<open>
  Discovery of new packages never breaks a query: every failure of a package that is not recorded
  yet becomes a skip or a refusal, so an exception leaves a scan only from the promotion of a package
  recorded by an earlier scan, and only when that package is hot-load capable (the witness is such
  a scan). In particular a first scan always returns.
\<close>

theorem scan_raises_only_promoting:
  assumes "discover_engines E d mount thr keys s = (Inl exc, s')"
    and "\<And>cs. se_children E d (rest_of_world (s_machine s)) = Some cs \<Longrightarrow>
      distinct cs \<and> (\<forall>c \<in> set cs. CHR 0x1F \<notin> set c)"
  shows "\<exists>c m s1. package_key c (mf_engine_id m) \<in> keys \<and> mf_shm_capable m \<and>
    promote_to_shm E m (d @ ''/'' @ c) thr s1 = (Inl exc, s')"
proof -
  from assms(1) obtain cs where cs: "se_children E d (rest_of_world (s_machine s)) = Some cs"
    and r: "discover_children E d mount thr (sort cs) keys s = (Inl exc, s')"
    by (auto simp: discover_engines_def split: option.splits)
  from discover_children_raises [OF r] assms(2) [OF cs] show ?thesis by auto
qed

text \<open>
  A recorded package on the snapshot plane whose live table can no longer be fetched: the promotion's
  exception leaves the scan.
\<close>

definition demo_site_env :: "unit site_env" where
  "demo_site_env = \<lparr>se_catalog = demo_catalog_env\<lparr>cat := (still_catalog (\<lambda>t. [(''a'', ''DECIMAL(10,2)'')]) [''orders''])
       \<lparr>fetch_arrow := (\<lambda>q. raise_eff (EngineException ''Out of Memory Error''))\<rparr>\<rparr>,
     se_host = demo_host, se_children = (\<lambda>d w. Some [''pkg'']),
     se_manifest = (\<lambda>d w. Some (Inr (manifest_to_dict demo_manifest))), se_resolve = (\<lambda>p. p), se_affinity = [0, 1, 2]\<rparr>"

definition demo_cold_binding :: engine_binding where
  "demo_cold_binding = \<lparr>template_id = ''eng-1::1'', normalized_sql = ''k'', query_id = ''1'', engine_id = ''eng-1'',
     placeholders = [], output_schema = [], tables = {}, schema_fingerprint = ''f'', scale_factor = None,
     storage_mode = ''flat'', engine = Some 0, template_sql = None\<rparr>"

definition demo_site :: "unit site" where
  "demo_site = \<lparr>s_registry = reg_register demo_cold_binding empty_registry,
     s_engines = [new_process_engine ''eng-1'' ''/engines/pkg'' ''/snap'' []], s_machine = demo_machine\<rparr>"

theorem scan_raises_only_promoting_witness:
  "\<exists>c m s1 s'. package_key c (mf_engine_id m) \<in> {package_key ''pkg'' ''eng-1''} \<and> mf_shm_capable m \<and>
    promote_to_shm demo_site_env m (''/engines'' @ ''/'' @ c) None s1 = (Inl (EngineException ''Out of Memory Error''), s')"
proof -
  let ?r = "discover_engines demo_site_env ''/engines'' False None {package_key ''pkg'' ''eng-1''} demo_site"
  have "fst ?r = Inl (EngineException ''Out of Memory Error'')" by code_simp
  moreover obtain x s' where x: "?r = (x, s')" by (cases ?r)
  ultimately have r: "?r = (Inl (EngineException ''Out of Memory Error''), s')" by (simp only: fst_conv)
  have "distinct cs \<and> (\<forall>c \<in> set cs. CHR 0x1F \<notin> set c)"
    if "se_children demo_site_env ''/engines'' (rest_of_world (s_machine demo_site)) = Some cs" for cs
    using that by (auto simp: demo_site_env_def)
  from scan_raises_only_promoting [OF r this] show ?thesis by blast
qed

text \<open>A snapshot that does not fit shared memory escapes the promotion as well.\<close>

lemma promotion_ingest_error_escapes:
  assumes "new_hot E m dir thr = Inr e" "aligned_arrow E ts (s\<lparr>s_engines := s_engines s @ [e]\<rparr>) = (Inr tbls, s1)"
    and "fst (ingest (se_host E) tbls (s_engines s1 ! length (s_engines s)) (s_machine s1)) = Inl exc"
  shows "fst (replace_hot E m dir thr ts current s) = Inl exc"
  using assms by (auto simp: replace_hot_def add_engine_def bind_eff_def ingest_ref_def split: prod.splits)

section \<open>A manifest cannot point outside its package\<close>

text \<open>
  Path traversal is refused: a relative snapshot path of a manifest that resolves is inside the
  engine's own directory (an absolute path, which only the publisher of the engine writes, is taken
  as it is), and a path that leaves the directory raises \<open>SynnoError\<close>.
\<close>

theorem parquet_dir_confined:
  assumes "mf_parquet_dir m = Some raw" "raw \<noteq> []" "\<not> py_startswith raw ''/''"
  shows "(resolve_parquet_dir E m dir req mach = Inr (Some p) \<longrightarrow>
      p = se_resolve E (dir @ ''/'' @ raw) \<and> inside (se_resolve E dir) p) \<and>
    (\<not> inside (se_resolve E dir) (se_resolve E (dir @ ''/'' @ raw)) \<longrightarrow>
      (\<exists>msg. resolve_parquet_dir E m dir req mach = Inl (SynnoError msg)))"
  using assms by (auto simp: resolve_parquet_dir_def Let_def)

definition escape_env :: "unit site_env" where
  "escape_env = demo_site_env\<lparr>se_resolve := (\<lambda>p. if p = ''/e/x'' then ''/e/x'' else ''/etc'')\<rparr>"

theorem parquet_dir_confined_witness:
  "\<exists>msg. resolve_parquet_dir escape_env (demo_manifest\<lparr>mf_parquet_dir := Some ''../../etc''\<rparr>) ''/e/x'' False demo_machine
     = Inl (SynnoError msg)"
proof -
  have "\<not> inside (se_resolve escape_env ''/e/x'') (se_resolve escape_env (''/e/x'' @ ''/'' @ ''../../etc''))"
    by (simp add: escape_env_def inside_def below_def py_startswith_def)
  with parquet_dir_confined [of "demo_manifest\<lparr>mf_parquet_dir := Some ''../../etc''\<rparr>" "''../../etc''" escape_env "''/e/x''" False demo_machine]
  show ?thesis by (simp add: py_startswith_def)
qed

section \<open>A failed binding holds nothing\<close>

text \<open>An engine object that holds neither a subprocess nor a snapshot, or has been closed.\<close>

definition idle :: "process_engine \<Rightarrow> bool" where
  "idle e \<longleftrightarrow> pe_closed e \<or> pe_proc e = None \<and> pe_ingest_dir e = None"

lemma ingest_failed:
  "ingest H ts e m = (Inl exc, e', m') \<Longrightarrow> pe_ingest_dir e' = None \<and> pe_proc e' = pe_proc e"
  by (auto simp: ingest_def drop_snapshot_def Let_def split: prod.splits sum.splits option.splits
      dest!: stage_failed)

lemma new_hot_idle: "new_hot E m dir thr = Inr e \<Longrightarrow> idle e \<and> pe_proc e = None \<and> pe_ingest_dir e = None"
  by (auto simp: new_hot_def ebind_Inr_iff idle_def new_hot_engine_def new_process_engine_def)

text \<open>What a binding attempt adds to the engine objects \<open>old\<close>: idle ones, but for the result \<open>r\<close>.\<close>

definition adds_idle :: "process_engine list \<Rightarrow> engine_ref option \<Rightarrow> process_engine list \<Rightarrow> bool" where
  "adds_idle old r new \<longleftrightarrow> length old \<le> length new \<and> take (length old) new = old \<and>
     (\<forall>i. length old \<le> i \<and> i < length new \<and> r \<noteq> Some i \<longrightarrow> idle (new ! i)) \<and>
     (\<forall>i. r = Some i \<longrightarrow> length old \<le> i \<and> i < length new)"

lemma adds_idle_refl [simp]: "adds_idle es None es"
  by (auto simp: adds_idle_def)

lemma closed_idle: "idle (fst (close_engine (e, m)))"
  by (simp add: close_engine_def idle_def Let_def)

lemma close_ref_engines:
  "r < length (s_engines s) \<Longrightarrow> \<exists>e. idle e \<and> s_engines (close_ref r s) = (s_engines s)[r := e] \<and>
     s_registry (close_ref r s) = s_registry s"
proof -
  assume r: "r < length (s_engines s)"
  obtain e m where c: "close_engine (s_engines s ! r, s_machine s) = (e, m)"
    by (cases "close_engine (s_engines s ! r, s_machine s)")
  with closed_idle [of "s_engines s ! r" "s_machine s"] have "idle e" by simp
  with r c show ?thesis by (auto simp: close_ref_def)
qed

lemma try_hot_adds:
  assumes "try_hot E m dir thr ts s = (x, s')"
  shows "adds_idle (s_engines s) (case x of Inl e \<Rightarrow> None | Inr r \<Rightarrow> r) (s_engines s') \<and> s_registry s' = s_registry s"
proof (cases "new_hot E m dir thr")
  case (Inl e)
  with assms show ?thesis by (simp add: try_hot_def adds_idle_def split: sum.splits) auto
next
  case (Inr e)
  define r where "r = length (s_engines s)"
  define s1 where "s1 = s\<lparr>s_engines := s_engines s @ [e]\<rparr>"
  obtain y s2 where b: "bind_eff (aligned_arrow E ts) (ingest_ref E r) s1 = (y, s2)"
    by (cases "bind_eff (aligned_arrow E ts) (ingest_ref E r) s1")
  have e: "idle e" "pe_proc e = None" "pe_ingest_dir e = None" using new_hot_idle [OF Inr] by auto
  obtain a s3 where al: "aligned_arrow E ts s1 = (a, s3)" by (cases "aligned_arrow E ts s1")
  from same_aligned [OF al] have s3: "s_engines s3 = s_engines s @ [e]" "s_registry s3 = s_registry s"
    by (simp_all add: same_objects_def s1_def)
  have s2: "\<exists>e'. s_engines s2 = s_engines s @ [e'] \<and> s_registry s2 = s_registry s \<and> (\<forall>exc. y = Inl exc \<longrightarrow> idle e')"
  proof (cases a)
    case (Inl exc)
    with b al s3 e show ?thesis by (auto simp: bind_eff_def)
  next
    case (Inr tbls)
    obtain z e' m' where i: "ingest (se_host E) tbls e (s_machine s3) = (z, e', m')" by (rule prod_cases3)
    have idle': "idle e'" if "z = Inl exc" for exc
      using ingest_failed [OF i [unfolded that]] e by (simp add: idle_def)
    from b al Inr i s3 have "y = z" "s_engines s2 = s_engines s @ [e']" "s_registry s2 = s_registry s"
      by (auto simp: bind_eff_def ingest_ref_def r_def)
    with idle' show ?thesis by blast
  qed
  then obtain e' where e': "s_engines s2 = s_engines s @ [e']" "s_registry s2 = s_registry s"
    "\<And>exc. y = Inl exc \<Longrightarrow> idle e'" by blast
  have t: "try_hot E m dir thr ts s = (case y of Inr u \<Rightarrow> (Inr (Some r), s2)
      | Inl exc \<Rightarrow> if is_resource_error exc then
          (if truthy_text (mf_parquet_dir m) then (Inr None, close_ref r s2) else (Inl exc, close_ref r s2))
        else (Inl exc, s2))"
    using Inr b by (auto simp: try_hot_def add_engine_def r_def s1_def Let_def split: sum.splits)
  obtain k where k: "idle k" "s_engines (close_ref r s2) = s_engines s @ [k]" "s_registry (close_ref r s2) = s_registry s"
    using close_ref_engines [of r s2] e' by (auto simp: r_def)
  show ?thesis
  proof (cases y)
    case (Inl exc)
    with assms t e' k show ?thesis
      by (auto simp: adds_idle_def nth_append less_Suc_eq split: if_splits)
  next
    case (Inr u)
    with assms t e' show ?thesis by (auto simp: adds_idle_def r_def)
  qed
qed

lemma adds_idle_trans:
  "adds_idle a None b \<Longrightarrow> adds_idle b r c \<Longrightarrow> adds_idle a r c"
proof -
  assume h: "adds_idle a None b" "adds_idle b r c"
  then have l: "length a \<le> length b" "length b \<le> length c" "take (length a) b = a" "take (length b) c = b"
    by (simp_all add: adds_idle_def)
  then have "take (length a) c = a" by (metis min.absorb1 take_take)
  moreover have "idle (c ! i)" if "length a \<le> i" "i < length c" "r \<noteq> Some i" for i
  proof (cases "i < length b")
    case True
    with l(4) have "c ! i = b ! i" by (metis nth_take)
    with True h(1) that show ?thesis by (simp add: adds_idle_def)
  qed (use h(2) that in \<open>simp add: adds_idle_def\<close>)
  ultimately show ?thesis using h l by (auto simp: adds_idle_def)
qed

lemma bind_cold_adds:
  assumes "bind_cold E m dir mount thr ts present s = (x, s')"
  shows "adds_idle (s_engines s) (case x of Inl e \<Rightarrow> None | Inr r \<Rightarrow> r) (s_engines s') \<and> s_registry s' = s_registry s"
proof (cases "\<exists>r. x = Inr (Some r)")
  case True
  with assms obtain r where r: "x = Inr (Some r)" "bind_cold E m dir mount thr ts present s = (Inr (Some r), s')" by auto
  from bind_cold_Some [OF r(2)] r(1) show ?thesis by (auto simp: adds_idle_def)
next
  case False
  then have "(case x of Inl e \<Rightarrow> None | Inr r \<Rightarrow> r) = None" by (auto split: sum.splits)
  with bind_cold_else [OF assms] False show ?thesis by (auto simp: same_objects_def)
qed

lemma bind_engine_adds:
  assumes "bind_engine E m dir mount thr s = (x, s')"
  shows "adds_idle (s_engines s) (case x of Inl e \<Rightarrow> None | Inr r \<Rightarrow> r) (s_engines s') \<and> s_registry s' = s_registry s"
proof -
  define ts where "ts = engine_tables (sql_lang (se_catalog E)) m"
  obtain p s1 where p: "tables_present E ts s = (p, s1)" by (cases "tables_present E ts s")
  from same_present [OF p] have s1: "s_engines s1 = s_engines s" "s_registry s1 = s_registry s"
    by (simp_all add: same_objects_def)
  show ?thesis
  proof (cases p)
    case (Inl e)
    with assms p s1 show ?thesis by (auto simp: bind_engine_def Let_def ts_def)
  next
    case (Inr present)
    obtain b s2 where h: "hot_allowed E m ts present s1 = (b, s2)" by (cases "hot_allowed E m ts present s1")
    from same_allowed [OF h] s1 have s2: "s_engines s2 = s_engines s" "s_registry s2 = s_registry s"
      by (simp_all add: same_objects_def)
    show ?thesis
    proof (cases b)
      case False
      with assms p Inr h have "bind_cold E m dir mount thr ts present s2 = (x, s')"
        by (simp add: bind_engine_def Let_def ts_def)
      from bind_cold_adds [OF this] s2 show ?thesis by simp
    next
      case True
      obtain y s3 where t: "try_hot E m dir thr ts s2 = (y, s3)" by (cases "try_hot E m dir thr ts s2")
      from try_hot_adds [OF t] s2 have a: "adds_idle (s_engines s) (case y of Inl e \<Rightarrow> None | Inr r \<Rightarrow> r) (s_engines s3)"
        "s_registry s3 = s_registry s" by simp_all
      show ?thesis
      proof (cases "y = Inr None")
        case n: True
        with assms p Inr h True t have "bind_cold E m dir mount thr ts present s3 = (x, s')"
          by (simp add: bind_engine_def Let_def ts_def)
        from bind_cold_adds [OF this] a n adds_idle_trans show ?thesis by auto
      next
        case False
        with assms p Inr h True t have "x = y" "s' = s3"
          by (auto simp: bind_engine_def Let_def ts_def split: sum.splits option.splits)
        with a show ?thesis by simp
      qed
    qed
  qed
qed

text \<open>
  C24. A package that cannot be served leaks nothing: after the first visit of a package, every engine
  object the visit made holds neither a subprocess nor a snapshot (or has been closed), unless the
  package was registered with it; the objects that were there before are untouched, and the key is
  recorded exactly when the package was registered or refused for good.
\<close>

theorem new_package_no_leak:
  assumes "discover_new E m dir mount thr s = (recorded, s')"
  shows "take (length (s_engines s)) (s_engines s') = s_engines s \<and>
    (\<forall>i. length (s_engines s) \<le> i \<and> i < length (s_engines s') \<longrightarrow> idle (s_engines s' ! i) \<or>
      recorded \<and> (\<exists>s1 bs. bind_engine E m dir mount thr s = (Inr (Some i), s1) \<and> register_at E m i s1 = (Inr bs, s')))"
proof -
  obtain x s1 where b: "bind_engine E m dir mount thr s = (x, s1)" by (cases "bind_engine E m dir mount thr s")
  note a = bind_engine_adds [OF b]
  show ?thesis
  proof (cases "\<exists>r. x = Inr (Some r)")
    case False
    then have "s' = s1" "(case x of Inl e \<Rightarrow> None | Inr r \<Rightarrow> r) = None"
      using assms b by (auto simp: discover_new_def split: sum.splits option.splits)
    with a show ?thesis by (simp add: adds_idle_def)
  next
    case True
    then obtain r where r: "x = Inr (Some r)" by blast
    obtain y s2 where g: "register_at E m r s1 = (y, s2)" by (cases "register_at E m r s1")
    then have s2: "s_engines s2 = s_engines s1" by (auto simp: register_at_def split: prod.splits)
    from a r have ok: "length (s_engines s) \<le> length (s_engines s1)" "take (length (s_engines s)) (s_engines s1) = s_engines s"
      "length (s_engines s) \<le> r" "r < length (s_engines s1)"
      "\<And>i. length (s_engines s) \<le> i \<Longrightarrow> i < length (s_engines s1) \<Longrightarrow> i \<noteq> r \<Longrightarrow> idle (s_engines s1 ! i)"
      by (auto simp: adds_idle_def)
    show ?thesis
    proof (cases y)
      case (Inl exc)
      with assms b r g have "s' = close_ref r s2" by (simp add: discover_new_def)
      moreover obtain k where "idle k" "s_engines (close_ref r s2) = (s_engines s1)[r := k]"
        using close_ref_engines [of r s2] ok(4) s2 by auto
      ultimately show ?thesis using ok by (auto simp: nth_list_update take_update_cancel)
    next
      case (Inr bs)
      with assms b r g have "s' = s2" recorded by (simp_all add: discover_new_def)
      with Inr b r g ok s2 show ?thesis by auto
    qed
  qed
qed

theorem new_package_no_leak_witness:
  "\<exists>recorded s'. discover_new demo_site_env demo_manifest ''/engines/pkg'' False None demo_site = (recorded, s') \<and>
     (\<forall>i. 1 \<le> i \<and> i < length (s_engines s') \<longrightarrow> idle (s_engines s' ! i)) \<and> \<not> recorded"
proof -
  let ?r = "discover_new demo_site_env demo_manifest ''/engines/pkg'' False None demo_site"
  have "fst ?r = False" by code_simp
  moreover obtain x s' where x: "?r = (x, s')" by (cases ?r)
  ultimately have r: "?r = (False, s')" by (simp only: fst_conv)
  from new_package_no_leak [OF r] r show ?thesis by (auto simp: demo_site_def)
qed

section \<open>A hot binding\<close>

text \<open>A connection whose live table matches the build, on a machine with the disk usage \<open>D\<close>.\<close>

definition hot_site_env :: "(string \<Rightarrow> unit machine \<Rightarrow> nat \<times> nat) \<Rightarrow> unit site_env" where
  "hot_site_env D = demo_site_env\<lparr>se_host := demo_host\<lparr>disk_usage := D\<rparr>,
     se_catalog := demo_catalog_env\<lparr>cat := (still_catalog (\<lambda>t. [(''a'', ''DECIMAL(10,2)'')]) [''orders''])
       \<lparr>fetch_arrow := (\<lambda>q. return_eff [(''a'', [PInt 1])])\<rparr>\<rparr>\<rparr>"

definition hot_site :: "unit site" where
  "hot_site = \<lparr>s_registry = empty_registry, s_engines = [], s_machine = demo_machine\<rparr>"

definition hot_engine :: process_engine where
  "hot_engine = new_hot_engine ''eng-1'' ''/engines/pkg'' None []"

lemma hot_reads:
  "engine_tables L demo_manifest = [''Orders'']"
  "tables_present (hot_site_env D) [''Orders''] hot_site = (Inr [''Orders''], hot_site)"
  "hot_allowed (hot_site_env D) demo_manifest [''Orders''] [''Orders''] hot_site = (True, hot_site)"
  "aligned_arrow (hot_site_env D) [''Orders''] s = (Inr [(''Orders'', [(''a'', [PInt 1])])], s)"
  "new_hot (hot_site_env D) demo_manifest ''/engines/pkg'' None = Inr hot_engine"
  by (code_simp, code_simp, code_simp,
      simp add: aligned_arrow_def hot_site_env_def on_world_def eff_simps, code_simp)

lemma hot_sweep:
  "sweep_base (demo_host\<lparr>disk_usage := D\<rparr>) ''/dev/shm'' (make_dir ''/dev/shm'' demo_machine) = (Inr 0, make_dir ''/dev/shm'' demo_machine)"
  by code_simp

lemma hot_stage:
  assumes "check_shm_budget 0 n 8 = (True, x)"
  shows "\<exists>e m. stage_tables (demo_host\<lparr>disk_usage := (\<lambda>d m. (0, n))\<rparr>) ''/dev/shm'' [(''Orders'', t)] hot_engine k = (Inr (), e, m) \<and> pe_hot e"
  using assms by (cases x) (simp add: stage_tables_def demo_host_def write_arrow_segments_def write_ipc_def attach_snapshot_def hot_engine_def new_hot_engine_def Let_def)


theorem hot_plane_verified_witness:
  "\<exists>s' w. bind_engine (hot_site_env (\<lambda>d m. (0, 1000000000))) demo_manifest ''/engines/pkg'' False None hot_site = (Inr (Some 0), s') \<and>
     pe_hot (s_engines s' ! 0) \<and>
     check_compatibility (cat (se_catalog (hot_site_env (\<lambda>d m. (0, 1000000000))))) demo_manifest () = ([], w)"
proof -
  let ?D = "\<lambda>d m. (0, 1000000000)" and ?ts = "[(''Orders'', [(''a'', [PInt 1])])]"
  have b: "check_shm_budget 0 1000000000 8 = (True, 1000000000, 67108864)" by (simp add: check_shm_budget_def)
  from hot_stage [OF b, of "[(''a'', [PInt 1])]" "make_dir ''/dev/shm'' demo_machine"] obtain e m where
    st: "stage_tables (demo_host\<lparr>disk_usage := ?D\<rparr>) ''/dev/shm'' ?ts hot_engine
      (make_dir ''/dev/shm'' demo_machine) = (Inr (), e, m)" and e: "pe_hot e" by auto
  have i: "ingest (demo_host\<lparr>disk_usage := ?D\<rparr>) ?ts hot_engine demo_machine = (Inr (), e, m)"
    using st hot_sweep [of ?D]
    by (simp add: ingest_def drop_snapshot_def hot_engine_def new_hot_engine_def new_process_engine_def default_shm_def)
  let ?s = "hot_site\<lparr>s_engines := [e], s_machine := m\<rparr>"
  have t: "try_hot (hot_site_env ?D) demo_manifest ''/engines/pkg'' None [''Orders''] hot_site = (Inr (Some 0), ?s)"
    using i by (simp add: try_hot_def hot_reads add_engine_def bind_eff_def ingest_ref_def)
      (simp add: hot_site_env_def hot_site_def)
  have r: "bind_engine (hot_site_env ?D) demo_manifest ''/engines/pkg'' False None hot_site = (Inr (Some 0), ?s)"
    by (simp add: bind_engine_def hot_reads t Let_def)
  have "pe_hot (s_engines ?s ! 0)" using e by simp
  from hot_plane_verified [OF r this] obtain present s1 w where
    p: "tables_present (hot_site_env ?D) (map fst (mf_expected_tables demo_manifest)) hot_site = (Inr present, s1)"
    and c: "check_compatibility (cat (se_catalog (hot_site_env ?D))) demo_manifest (rest_of_world (s_machine s1)) = ([], w)"
    by blast
  from r e c show ?thesis by auto
qed

section \<open>Discovery keeps the registry well formed\<close>

definition keeps_registry :: "'w site \<Rightarrow> 'w site \<Rightarrow> bool" where
  "keeps_registry s s' \<longleftrightarrow> (registry_inv (s_registry s) \<longrightarrow> registry_inv (s_registry s'))"

lemma keeps_same: "s_registry s' = s_registry s \<Longrightarrow> keeps_registry s s'"
  by (simp add: keeps_registry_def)

lemma keeps_trans: "keeps_registry a b \<Longrightarrow> keeps_registry b c \<Longrightarrow> keeps_registry a c"
  by (simp add: keeps_registry_def)

lemma register_queries_inv:
  "register_queries E qs r w = (x, r', w') \<Longrightarrow> registry_inv r \<Longrightarrow> registry_inv r'"
proof (induction qs arbitrary: r w x)
  case (Cons q qs)
  obtain y r1 w1 where one: "register_engine E q r w = (y, r1, w1)" by (metis prod_cases3)
  have "registry_inv r1"
    using one Cons.prems(2) registry_step_inv [of _ "ClearDirty _"] registry_inv_register [of r]
    by (auto simp: register_engine_def enroll_def split: prod.splits sum.splits)
  with one Cons show ?case by (auto split: sum.splits prod.splits)
qed simp

lemma register_at_keeps: "register_at E m r s = (x, s') \<Longrightarrow> keeps_registry s s'"
  by (auto simp: register_at_def register_manifest_def keeps_registry_def dest: register_queries_inv
      split: prod.splits if_splits)

lemma close_ref_keeps: "keeps_registry s (close_ref r s)"
  by (auto simp: close_ref_def keeps_registry_def split: prod.splits)

lemma discover_new_keeps:
  assumes "discover_new E m dir mount thr s = (b, s')"
  shows "keeps_registry s s'"
proof -
  obtain x s1 where e: "bind_engine E m dir mount thr s = (x, s1)" by (cases "bind_engine E m dir mount thr s")
  from bind_engine_adds [OF e] have k: "keeps_registry s s1" by (simp add: keeps_same)
  show ?thesis
  proof (cases "\<exists>r. x = Inr (Some r)")
    case True
    then obtain r where r: "x = Inr (Some r)" by blast
    obtain y s2 where g: "register_at E m r s1 = (y, s2)" by (cases "register_at E m r s1")
    from assms e r g have "s' = s2 \<or> s' = close_ref r s2"
      by (auto simp: discover_new_def split: sum.splits)
    then show ?thesis using k register_at_keeps [OF g] close_ref_keeps keeps_trans by metis
  next
    case False
    with assms e have "s' = s1" by (auto simp: discover_new_def split: sum.splits option.splits)
    with k show ?thesis by simp
  qed
qed

lemma hot_data_registry:
  assumes "bind_eff (aligned_arrow E ts) (ingest_ref E r) s = (x, s')"
  shows "s_registry s' = s_registry s"
proof -
  obtain a s1 where a: "aligned_arrow E ts s = (a, s1)" by (cases "aligned_arrow E ts s")
  from same_aligned [OF this] have "s_registry s1 = s_registry s" by (simp add: same_objects_def)
  with a assms show ?thesis by (auto simp: bind_eff_def ingest_ref_def split: prod.splits sum.splits)
qed

lemma replace_hot_keeps:
  assumes "replace_hot E m dir thr ts current s = (x, s')"
  shows "keeps_registry s s'"
proof (cases "new_hot E m dir thr")
  case (Inr e)
  define s1 where "s1 = s\<lparr>s_engines := s_engines s @ [e]\<rparr>"
  define r where "r = length (s_engines s)"
  obtain y s2 where b: "bind_eff (aligned_arrow E ts) (ingest_ref E r) s1 = (y, s2)"
    by (cases "bind_eff (aligned_arrow E ts) (ingest_ref E r) s1")
  obtain z s3 where g: "register_at E m r s2 = (z, s3)" by (cases "register_at E m r s2")
  have "s' = s2 \<or> s' = close_ref r s3 \<or> s' = close_ref current s3"
    using assms Inr b g by (auto simp: replace_hot_def add_engine_def s1_def r_def split: sum.splits)
  moreover have "keeps_registry s s2" using hot_data_registry [OF b] by (simp add: s1_def keeps_same)
  ultimately show ?thesis using register_at_keeps [OF g] close_ref_keeps keeps_trans by metis
qed (use assms in \<open>simp add: replace_hot_def keeps_same\<close>)

lemma promote_keeps:
  assumes "promote_to_shm E m dir thr s = (x, s')"
  shows "keeps_registry s s'"
  using assms same_present [of E] same_schema [of E m]
  by (fastforce simp: promote_to_shm_def Let_def same_objects_def keeps_registry_def
      dest: replace_hot_keeps split: if_splits option.splits prod.splits sum.splits bool.splits)

lemma discover_child_keeps: "discover_child E d mount thr c keys s = (x, s') \<Longrightarrow> keeps_registry s s'"
  by (auto simp: discover_child_def Let_def keeps_same dest: promote_keeps discover_new_keeps
      split: if_splits option.splits sum.splits prod.splits)

lemma discover_children_keeps:
  "discover_children E d mount thr cs keys s = (x, s') \<Longrightarrow> keeps_registry s s'"
proof (induction cs arbitrary: keys s)
  case (Cons c cs)
  obtain y s1 where one: "discover_child E d mount thr c keys s = (y, s1)"
    by (cases "discover_child E d mount thr c keys s")
  with Cons show ?case
    using discover_child_keeps [OF one] keeps_trans by (fastforce split: sum.splits)
qed (simp add: keeps_same)

lemma discover_engines_keeps: "discover_engines E d mount thr keys s = (x, s') \<Longrightarrow> keeps_registry s s'"
  by (auto simp: discover_engines_def keeps_same dest: discover_children_keeps split: option.splits)

end
