(* ===== verification/Reference_Backend.thy ===== *)
theory Reference_Backend
  imports Engine_Manifest Routing_Guards
begin

text \<open>
  The reference executor of the cross-check (\<open>router/backend.py\<close>): DuckDB runs the statement once
  with JSON profiling, and its own latency is the reference time. The connection is a record of
  the calls the source makes on it; \<open>read_json\<close> opens and decodes the profile file: \<open>Inl\<close> is an
  error of the file system, \<open>Inr None\<close> a text that is not JSON.
\<close>

record 'w duck_session =
  ds_execute :: "string \<Rightarrow> params \<Rightarrow> ('w, unit) eff"
  ds_arrow :: "('w, arrow_table) eff"
  ds_read_json :: "string \<Rightarrow> ('w, json option) eff"
  ds_temp_name :: "'w \<Rightarrow> string \<times> 'w"
  ds_clock :: "'w \<Rightarrow> rat \<times> 'w"

section \<open>The profile\<close>

text \<open>\<open>float(profile["latency"])\<close>.\<close>

definition profile_latency :: "json \<Rightarrow> py_error + pyfloat" where
  "profile_latency j = (case j of
     JDict kvs \<Rightarrow> (case map_of kvs ''latency'' of None \<Rightarrow> Inl (KeyError ''latency'') | Some v \<Rightarrow> json_float v)
   | _ \<Rightarrow> Inl (TypeError ''indices must be integers''))"

text \<open>The handler of \<open>_read_profile\<close> catches \<open>KeyError\<close>, \<open>TypeError\<close> and \<open>ValueError\<close> only.\<close>

definition no_profile_error :: "py_error \<Rightarrow> bool" where
  "no_profile_error e = (case e of KeyError s \<Rightarrow> True | TypeError s \<Rightarrow> True | ValueError s \<Rightarrow> True | _ \<Rightarrow> False)"

definition read_profile :: "'w duck_session \<Rightarrow> string \<Rightarrow> ('w, json option) eff" where
  "read_profile S path = bind_eff (ds_read_json S path) (\<lambda>j. case j of
     None \<Rightarrow> return_eff None
   | Some p \<Rightarrow> (case profile_latency p of
       Inr a \<Rightarrow> return_eff (Some p)
     | Inl e \<Rightarrow> if no_profile_error e then return_eff None else raise_eff e))"

section \<open>One profiled execution\<close>

text \<open>Seconds to milliseconds.\<close>

definition to_ms :: "pyfloat \<Rightarrow> pyfloat" where
  "to_ms a = (case a of Num (Fin x) \<Rightarrow> Num (Fin (x * 1000)) | _ \<Rightarrow> a)"

definition enable_profiling :: string where
  "enable_profiling = ''PRAGMA enable_profiling = '' @ [CHR 0x27] @ ''json'' @ [CHR 0x27]"

definition disable_profiling :: string where
  "disable_profiling = ''PRAGMA disable_profiling''"

definition profiling_output :: "string \<Rightarrow> string" where
  "profiling_output path = ''PRAGMA profiling_output = '' @ [CHR 0x27] @ path @ [CHR 0x27]"

definition read_clock :: "'w duck_session \<Rightarrow> ('w, rat) eff" where
  "read_clock S w = (case ds_clock S w of (t, w') \<Rightarrow> (Inr t, w'))"

text \<open>The body of the \<open>try\<close>: the table, the wall time and the profile.\<close>

definition profiled_body ::
  "'w duck_session \<Rightarrow> string \<Rightarrow> params \<Rightarrow> string \<Rightarrow> ('w, arrow_table \<times> rat \<times> json option) eff" where
  "profiled_body S sql ps path =
     bind_eff (read_clock S) (\<lambda>start.
     bind_eff (ds_execute S sql ps) (\<lambda>u.
     bind_eff (read_clock S) (\<lambda>stop.
     bind_eff (ds_arrow S) (\<lambda>t.
     bind_eff (read_profile S path) (\<lambda>p.
       return_eff (t, (stop - start) * 1000, p))))))"

definition profile_time :: "rat \<Rightarrow> json option \<Rightarrow> py_error + pyfloat \<times> json option" where
  "profile_time wall p = (case p of
     None \<Rightarrow> Inr (Num (Fin wall), None)
   | Some j \<Rightarrow> (case profile_latency j of Inl e \<Rightarrow> Inl e | Inr a \<Rightarrow> Inr (to_ms a, Some j)))"

definition execute_profiled ::
  "'w duck_session \<Rightarrow> string \<Rightarrow> params \<Rightarrow> ('w, arrow_table \<times> pyfloat \<times> json option) eff" where
  "execute_profiled S sql ps w0 = (case ds_temp_name S w0 of (path, w) \<Rightarrow>
     bind_eff (ds_execute S enable_profiling NoParams) (\<lambda>u.
     bind_eff (ds_execute S (profiling_output path) NoParams) (\<lambda>u.
     bind_eff (finally_eff (profiled_body S sql ps path) (ds_execute S disable_profiling NoParams))
       (\<lambda>(t, wall, p). case profile_time wall p of
          Inl e \<Rightarrow> raise_eff e | Inr (ms, p') \<Rightarrow> return_eff (t, ms, p')))) w)"

definition execute_arrow :: "'w duck_session \<Rightarrow> string \<Rightarrow> params \<Rightarrow> ('w, arrow_table) eff" where
  "execute_arrow S sql ps = bind_eff (ds_execute S sql ps) (\<lambda>u. ds_arrow S)"

definition execute_arrow_timed :: "'w duck_session \<Rightarrow> string \<Rightarrow> params \<Rightarrow> ('w, arrow_table \<times> pyfloat) eff" where
  "execute_arrow_timed S sql ps =
     bind_eff (execute_profiled S sql ps) (\<lambda>(t, ms, p). return_eff (t, ms))"

section \<open>Lemmas\<close>

lemma read_profile_usable:
  "read_profile S path w = (Inr (Some p), w') \<Longrightarrow> \<exists>a. profile_latency p = Inr a"
  by (auto simp: read_profile_def eff_simps split: prod.splits sum.splits option.splits if_splits)

lemma body_usable:
  "profiled_body S sql ps path w = (Inr (t, wall, Some p), w') \<Longrightarrow> \<exists>a. profile_latency p = Inr a"
  by (auto simp: profiled_body_def read_clock_def eff_simps dest!: read_profile_usable
      split: prod.splits sum.splits)

text \<open>What a profiled execution asks of the statement is one execution and one fetch.\<close>

lemma body_table:
  assumes "profiled_body S sql ps path w = (Inr (t, wall, p), w')"
  shows "\<exists>w1 w2 w3 w4. ds_execute S sql ps w1 = (Inr (), w2) \<and> ds_arrow S w3 = (Inr t, w4)"
  using assms by (auto simp: profiled_body_def eff_simps split: prod.splits sum.splits)


text \<open>A connection whose switch is the state: the profile says two milliseconds.\<close>

definition demo_session :: "json option \<Rightarrow> (bool, unit) eff \<Rightarrow> bool duck_session" where
  "demo_session prof act = \<lparr>
     ds_execute = (\<lambda>s ps w. if s = enable_profiling then (Inr (), True)
       else if s = disable_profiling then (Inr (), False)
       else if s = profiling_output ''/tmp/p'' then (Inr (), w) else act w),
     ds_arrow = return_eff [(''a'', [PInt 1])], ds_read_json = (\<lambda>p. return_eff prof),
     ds_temp_name = (\<lambda>w. (''/tmp/p'', w)), ds_clock = (\<lambda>w. (5, w))\<rparr>"


text \<open>
  The reference time is DuckDB's own latency when the profile holds one, the wall time otherwise; an
  integer latency beyond the doubles is not among the errors \<open>_read_profile\<close> catches.
\<close>

lemma reference_time:
  "fst (execute_arrow_timed (demo_session (Some (JDict [(''latency'', JFloat (Num (Fin 2)))])) (return_eff ())) ''q'' NoParams False)
     = Inr ([(''a'', [PInt 1])], Num (Fin 2000))"
  "fst (execute_arrow_timed (demo_session None (return_eff ())) ''q'' NoParams False)
     = Inr ([(''a'', [PInt 1])], Num (Fin 0))"
  by code_simp+

lemma huge_latency_raises:
  "double_limit \<le> \<bar>i\<bar> \<Longrightarrow> ds_read_json S path w = (Inr (Some (JDict [(''latency'', JInt i)])), w') \<Longrightarrow>
   read_profile S path w = (Inl (OverflowError ''int too large to convert to float''), w')"
  by (simp add: read_profile_def profile_latency_def json_float_def no_profile_error_def eff_simps)

end
