(* ===== verification/Synno_Connection.thy ===== *)
theory Synno_Connection
  imports Router_Session Result_Cursor Engine_Discovery Reference_Backend
begin

text \<open>
  The connection the user holds (\<open>duckdb_compat/connection.py\<close>, the entry points of
  \<open>duckdb_compat/__init__.py\<close>, the write notice of \<open>duckdb_compat/errors.py\<close>). It composes the router,
  the engines and DuckDB. A handle's own attributes are the record \<open>connection\<close>; what handles share
  (router, engine objects, machine, reference count) is the record \<open>hub\<close>. The driver holds the calls made
  on DuckDB connections, by connection number. The spinner and the rendering are output only.
\<close>

section \<open>State\<close>

record 'w driver =
  dr_site :: "nat \<Rightarrow> 'w site_env"
  dr_session :: "nat \<Rightarrow> 'w duck_session"
  dr_many :: "nat \<Rightarrow> string \<Rightarrow> params \<Rightarrow> ('w, unit) eff"
  dr_fetchone :: "nat \<Rightarrow> ('w, row option) eff"
  dr_fetchmany :: "nat \<Rightarrow> int \<Rightarrow> ('w, row list) eff"
  dr_fetchall :: "nat \<Rightarrow> ('w, row list) eff"
  dr_description :: "nat \<Rightarrow> ('w, (string \<times> string) list) eff"
  dr_cursor :: "nat \<Rightarrow> ('w, nat) eff"
  dr_close :: "nat \<Rightarrow> ('w, unit) eff"
  dr_open :: "string \<Rightarrow> bool \<Rightarrow> ('w, nat) eff"
  dr_monotonic :: "'w \<Rightarrow> rat \<times> 'w"
  dr_dice :: "'w \<Rightarrow> rat \<times> 'w"
  dr_no_result :: "py_error \<Rightarrow> bool"
  dr_exc_repr :: "py_error \<Rightarrow> string"
  dr_arrow_types :: "arrow \<Rightarrow> string list"

record last_query =
  lq_served_by :: server
  lq_engine_ms :: "pyfloat option"
  lq_duckdb_ms :: "pyfloat option"
  lq_template :: "string option"

record connection =
  cn_inner :: nat
  cn_owns_inner :: bool
  cn_current :: "synno_result option"
  cn_engines_dir :: "string option"
  cn_registered :: "string set"
  cn_last_discover :: "rat option"
  cn_mount :: bool
  cn_engine_threads :: "int option"
  cn_last :: "last_query option"

type_synonym 'w stage = "process_engine list \<times> 'w machine"

record 'w hub =
  hb_router :: "router option"
  hb_stage :: "'w stage"
  hb_refs :: int

type_synonym 'w session = "connection \<times> 'w hub"

definition new_connection :: "nat \<Rightarrow> bool \<Rightarrow> string option \<Rightarrow> bool \<Rightarrow> int option \<Rightarrow> connection" where
  "new_connection inner owns dir mount thr =
     \<lparr>cn_inner = inner, cn_owns_inner = owns, cn_current = None, cn_engines_dir = dir, cn_registered = {},
      cn_last_discover = None, cn_mount = mount, cn_engine_threads = thr, cn_last = None\<rparr>"

text \<open>A new handle joins the shared reference count.\<close>

definition attach :: "'w hub \<Rightarrow> 'w hub" where
  "attach hb = hb\<lparr>hb_refs := hb_refs hb + 1\<rparr>"

section \<open>Calls on the shared parts\<close>

definition on_stage :: "('w, 'a) eff \<Rightarrow> ('w stage, 'a) eff" where
  "on_stage f st = (case f (rest_of_world (snd st)) of
     (r, w) \<Rightarrow> (r, (fst st, (snd st)\<lparr>rest_of_world := w\<rparr>)))"

definition on_inner :: "(nat \<Rightarrow> ('w, 'a) eff) \<Rightarrow> ('w session, 'a) eff" where
  "on_inner f s = (case on_stage (f (cn_inner (fst s))) (hb_stage (snd s)) of
     (r, st) \<Rightarrow> (r, (fst s, (snd s)\<lparr>hb_stage := st\<rparr>)))"

definition set_conn :: "(connection \<Rightarrow> connection) \<Rightarrow> ('w session, unit) eff" where
  "set_conn f s = (Inr (), (f (fst s), snd s))"

definition perf_counter :: "'w driver \<Rightarrow> nat \<Rightarrow> ('w, rat) eff" where
  "perf_counter D h = read_clock (dr_session D h)"

definition monotonic :: "'w driver \<Rightarrow> ('w, rat) eff" where
  "monotonic D w = (case dr_monotonic D w of (t, w') \<Rightarrow> (Inr t, w'))"

definition on_dice :: "('w \<Rightarrow> rat \<times> 'w) \<Rightarrow> 'w stage \<Rightarrow> rat \<times> 'w stage" where
  "on_dice f st = (case f (rest_of_world (snd st)) of (x, w) \<Rightarrow> (x, (fst st, (snd st)\<lparr>rest_of_world := w\<rparr>)))"

text \<open>
  The router's outside world on a connection: the engine objects and DuckDB behind handle \<open>h\<close>. The
  clock is \<open>perf_counter\<close> in milliseconds. An engine reference is the index of its object.
\<close>

definition outside_of :: "'w driver \<Rightarrow> nat \<Rightarrow> 'w stage outside" where
  "outside_of D h = (let E = dr_site D h; H = se_host E; C = se_catalog E in
     \<lparr>health = (\<lambda>e st. (if e < length (fst st) then Some (Inr (engine_health (fst st ! e) (snd st))) else None, st)),
      run = (\<lambda>e q phs st. if e < length (fst st) then
          (case run_engine H q phs (fst st ! e) (snd st) of (r, e', m') \<Rightarrow> (r, ((fst st)[e := e'], m')))
        else (Inl (RuntimeError ''no engine object''), st)),
      fingerprint = (\<lambda>ts st. case on_stage (live_fingerprint (digest16 C) (cat C) (sorted_list_of_set ts)) st of
          (r, st') \<Rightarrow> (Some r, st')),
      duck = (\<lambda>sql ps. on_stage (execute_arrow_timed (dr_session D h) sql ps)),
      clock = on_dice (\<lambda>w. case ds_clock (dr_session D h) w of (t, w') \<Rightarrow> (t * 1000, w')),
      dice = on_dice (dr_dice D), exc_text = host_exc_text H, exc_repr = dr_exc_repr D,
      lang = sql_lang C, pyfmt = value_fmt H\<rparr>)"

section \<open>Discovery\<close>

text \<open>Discovery needs a router; a connection is made without one only without an engines directory.\<close>

definition discover_now :: "'w driver \<Rightarrow> ('w session, unit) eff" where
  "discover_now D s = (let c = fst s; hb = snd s in case (cn_engines_dir c, hb_router hb) of
     (Some dir, Some r) \<Rightarrow>
       (case discover_engines (dr_site D (cn_inner c)) dir (cn_mount c) (cn_engine_threads c) (cn_registered c)
            \<lparr>s_registry = registry r, s_engines = fst (hb_stage hb), s_machine = snd (hb_stage hb)\<rparr> of
          (res, st) \<Rightarrow>
            (let hb' = hb\<lparr>hb_router := Some (r\<lparr>registry := s_registry st\<rparr>), hb_stage := (s_engines st, s_machine st)\<rparr>
             in case res of Inl exc \<Rightarrow> (Inl exc, (c, hb'))
                | Inr keys \<Rightarrow> (Inr (), (c\<lparr>cn_registered := keys\<rparr>, hb'))))
   | _ \<Rightarrow> (Inr (), s))"

definition discover_interval :: rat where
  "discover_interval = 1"

definition scan_at :: "'w driver \<Rightarrow> rat \<Rightarrow> ('w session, unit) eff" where
  "scan_at D now = bind_eff (set_conn (\<lambda>c. c\<lparr>cn_last_discover := Some now\<rparr>)) (\<lambda>u. discover_now D)"

definition maybe_discover :: "'w driver \<Rightarrow> ('w session, unit) eff" where
  "maybe_discover D s =
     (if cn_engines_dir (fst s) = None then (Inr (), s)
      else bind_eff (on_inner (\<lambda>h. monotonic D)) (\<lambda>now s1.
        case cn_last_discover (fst s1) of
          Some prev \<Rightarrow> if now - prev < discover_interval then (Inr (), s1) else scan_at D now s1
        | None \<Rightarrow> scan_at D now s1) s)"

definition refresh_engines :: "'w driver \<Rightarrow> ('w session, unit) eff" where
  "refresh_engines D = bind_eff (on_inner (\<lambda>h. monotonic D)) (scan_at D)"

section \<open>Executing statements\<close>

definition write_not_supported_message :: "string \<Rightarrow> string" where
  "write_not_supported_message sql =
     (let kw = (case leading_keyword sql of None \<Rightarrow> '''' | Some k \<Rightarrow> py_upper k);
          kw' = (if kw = '''' then ''this statement'' else kw)
      in ''SynnoDB does not support writes yet ('' @ kw' @ ''). It currently accelerates read-only ''
       @ ''queries; writes and DDL are disabled. Run the statement on the underlying DuckDB ''
       @ ''connection via the escape hatch, e.g. con.duckdb.execute(sql), or re-enable ''
       @ ''passthrough with SYNNODB_BLOCK_WRITES=off (or RouterPolicy(block_writes=False)).'')"

definition blocked_write :: "'w driver \<Rightarrow> string \<Rightarrow> 'w session \<Rightarrow> bool" where
  "blocked_write D sql s = (case hb_router (snd s) of None \<Rightarrow> False
     | Some r \<Rightarrow> block_writes (policy r) \<and>
         \<not> is_read_only_query (sql_lang (se_catalog (dr_site D (cn_inner (fst s))))) sql)"

definition refuse_write :: "string \<Rightarrow> ('w session, 'a) eff" where
  "refuse_write sql s = (Inl (WriteNotSupportedError (write_not_supported_message sql)),
     (fst s, (snd s)\<lparr>hb_router := map_option note_blocked_write (hb_router (snd s))\<rparr>))"

definition run_duckdb_timed :: "'w driver \<Rightarrow> string \<Rightarrow> params \<Rightarrow> ('w session, unit) eff" where
  "run_duckdb_timed D sql ps =
     bind_eff (on_inner (perf_counter D)) (\<lambda>t0.
     bind_eff (on_inner (\<lambda>h. ds_execute (dr_session D h) sql ps)) (\<lambda>u.
     bind_eff (set_conn (\<lambda>c. c\<lparr>cn_current := None\<rparr>)) (\<lambda>u.
     bind_eff (on_inner (perf_counter D)) (\<lambda>t1.
       set_conn (\<lambda>c. c\<lparr>cn_last := Some \<lparr>lq_served_by = ServedDuckDB, lq_engine_ms = None,
         lq_duckdb_ms = Some (Num (Fin ((t1 - t0) * 1000))), lq_template = None\<rparr>\<rparr>)))))"

definition capture_routed :: "route_trace \<Rightarrow> last_query" where
  "capture_routed t =
     (if t_served_by t = Some ServedDuckDB then
        \<lparr>lq_served_by = ServedDuckDB, lq_engine_ms = None, lq_duckdb_ms = t_duckdb_ms t, lq_template = None\<rparr>
      else \<lparr>lq_served_by = ServedEngine, lq_engine_ms = t_bespoke_ms t, lq_duckdb_ms = t_duckdb_ms t,
            lq_template = t_template t\<rparr>)"

text \<open>\<open>router.route(query, parameters, self)\<close> with the shared router.\<close>

definition route_here :: "'w driver \<Rightarrow> string \<Rightarrow> params \<Rightarrow> ('w session, route_decision option) eff" where
  "route_here D sql ps s = (case hb_router (snd s) of
     None \<Rightarrow> (Inr None, s)
   | Some r \<Rightarrow> (case route (outside_of D (cn_inner (fst s))) r sql ps True (hb_stage (snd s)) of
       (res, r', st) \<Rightarrow> (map_sum (\<lambda>e. e) Some res,
         (fst s, (snd s)\<lparr>hb_router := Some r', hb_stage := st\<rparr>))))"

definition serve_decision :: "'w driver \<Rightarrow> string \<Rightarrow> params \<Rightarrow> route_decision option \<Rightarrow> ('w session, unit) eff" where
  "serve_decision D sql ps d = (case d of
     Some dec \<Rightarrow> (case (d_routed dec, d_result dec) of
         (True, Some res) \<Rightarrow> set_conn (\<lambda>c. c\<lparr>cn_current := Some (new_result (sr_table res) (sr_types res)),
           cn_last := Some (capture_routed (d_trace dec))\<rparr>)
       | _ \<Rightarrow> run_duckdb_timed D sql ps)
   | None \<Rightarrow> run_duckdb_timed D sql ps)"

definition execute :: "'w driver \<Rightarrow> string \<Rightarrow> params \<Rightarrow> ('w session, unit) eff" where
  "execute D sql ps s =
     (if blocked_write D sql s then refuse_write sql s
      else (case hb_router (snd s) of
          None \<Rightarrow> run_duckdb_timed D sql ps s
        | Some r \<Rightarrow>
            if \<not> routing_active (policy r) then run_duckdb_timed D sql ps s
            else bind_eff (maybe_discover D) (\<lambda>u. bind_eff (route_here D sql ps) (serve_decision D sql ps)) s))"

definition executemany :: "'w driver \<Rightarrow> string \<Rightarrow> params \<Rightarrow> ('w session, unit) eff" where
  "executemany D sql ps s =
     (if blocked_write D sql s then refuse_write sql s
      else bind_eff (on_inner (\<lambda>h. dr_many D h sql ps)) (\<lambda>u. set_conn (\<lambda>c. c\<lparr>cn_current := None\<rparr>)) s)"

section \<open>Fetching\<close>

text \<open>\<open>_fetch_target\<close>: a call goes to the routed result when there is one, to DuckDB otherwise.\<close>

definition fetch_from :: "(synno_result \<Rightarrow> 'a \<times> synno_result) \<Rightarrow> (nat \<Rightarrow> ('w, 'a) eff) \<Rightarrow> ('w session, 'a) eff" where
  "fetch_from f g s = (case cn_current (fst s) of
     Some r \<Rightarrow> (case f r of (x, r') \<Rightarrow> (Inr x, ((fst s)\<lparr>cn_current := Some r'\<rparr>, snd s)))
   | None \<Rightarrow> on_inner g s)"

definition con_fetchone :: "'w driver \<Rightarrow> ('w session, row option) eff" where
  "con_fetchone D = fetch_from fetchone (dr_fetchone D)"

definition con_fetchmany :: "'w driver \<Rightarrow> int \<Rightarrow> ('w session, row list) eff" where
  "con_fetchmany D n = fetch_from (fetchmany n) (\<lambda>h. dr_fetchmany D h n)"

definition con_fetchall :: "'w driver \<Rightarrow> ('w session, row list) eff" where
  "con_fetchall D = fetch_from fetchall (dr_fetchall D)"

definition con_description :: "'w driver \<Rightarrow> ('w session, (string \<times> string) list) eff" where
  "con_description D = fetch_from (\<lambda>r. (result_description (dr_arrow_types D) r, r)) (dr_description D)"

definition con_arrow :: "'w driver \<Rightarrow> ('w session, arrow) eff" where
  "con_arrow D = fetch_from (\<lambda>r. (to_arrow_table r, r)) (\<lambda>h. ds_arrow (dr_session D h))"

definition materialize_current :: "'w driver \<Rightarrow> ('w session, synno_result) eff" where
  "materialize_current D s = (case cn_current (fst s) of
     Some r \<Rightarrow> (Inr r, s)
   | None \<Rightarrow> bind_eff (on_inner (\<lambda>h. ds_arrow (dr_session D h)))
       (\<lambda>t. bind_eff (set_conn (\<lambda>c. c\<lparr>cn_current := Some (new_result t None)\<rparr>)) (\<lambda>u. return_eff (new_result t None))) s)"

definition result_to_write :: "'w driver \<Rightarrow> string \<Rightarrow> ('w session, arrow) eff" where
  "result_to_write D sink = try_eff
     (bind_eff (materialize_current D) (\<lambda>r. return_eff (to_arrow_table r)))
     (\<lambda>e. if dr_no_result D e
        then raise_eff (SynnoError (sink @ '': no result to write - run execute()/sql() that returns rows first''))
        else raise_eff e)"

record query_timing =
  qt_served_by :: server
  qt_engine_ms :: "pyfloat option"
  qt_duckdb_ms :: "pyfloat option"
  qt_duckdb_ms_estimated :: "pyfloat option"

definition footer_timing :: "'w session \<Rightarrow> query_timing option" where
  "footer_timing s = (case cn_last (fst s) of
     None \<Rightarrow> None
   | Some l \<Rightarrow>
       (let est = (case (hb_router (snd s), lq_template l) of
              (Some r, Some t) \<Rightarrow>
                if lq_served_by l = ServedEngine \<and> lq_duckdb_ms l = None \<and> t \<noteq> [] then last_duckdb_ms r t else None
            | _ \<Rightarrow> None)
        in Some \<lparr>qt_served_by = lq_served_by l, qt_engine_ms = lq_engine_ms l, qt_duckdb_ms = lq_duckdb_ms l,
             qt_duckdb_ms_estimated = est\<rparr>))"

section \<open>Warming the engines\<close>

text \<open>
  \<open>synno_ingest_data\<close>: each distinct engine behind the registered bindings loads its data; a failure is
  logged and skipped. \<open>seen\<close> holds the engines met so far.
\<close>

definition load_ref :: "'w engine_host \<Rightarrow> engine_ref \<Rightarrow> 'w stage \<Rightarrow> (py_error + unit) \<times> 'w stage" where
  "load_ref H r st =
     (if r < length (fst st) then
        (case load_data H (fst st ! r) (snd st) of (x, e, m) \<Rightarrow> (x, ((fst st)[r := e], m)))
      else (Inl (RuntimeError ''no engine object''), st))"

fun load_each :: "'w engine_host \<Rightarrow> engine_binding list \<Rightarrow> engine_ref list \<Rightarrow> nat \<Rightarrow> 'w stage \<Rightarrow> nat \<times> 'w stage" where
  "load_each H [] seen n st = (n, st)"
| "load_each H (b # bs) seen n st = (case engine b of
     None \<Rightarrow> load_each H bs seen n st
   | Some r \<Rightarrow>
       if r \<in> set seen then load_each H bs seen n st
       else (case load_ref H r st of
           (Inr u, st') \<Rightarrow> load_each H bs (r # seen) (n + 1) st'
         | (Inl exc, st') \<Rightarrow> load_each H bs (r # seen) n st'))"

definition synno_ingest_data :: "'w driver \<Rightarrow> 'w session \<Rightarrow> nat \<times> 'w session" where
  "synno_ingest_data D s = (case hb_router (snd s) of
     None \<Rightarrow> (0, s)
   | Some r \<Rightarrow> (case load_each (se_host (dr_site D (cn_inner (fst s)))) (reg_bindings (registry r)) [] 0 (hb_stage (snd s)) of
       (n, st) \<Rightarrow> (n, (fst s, (snd s)\<lparr>hb_stage := st\<rparr>))))"

section \<open>Closing\<close>

definition close_stage :: "engine_ref \<Rightarrow> 'w stage \<Rightarrow> 'w stage" where
  "close_stage r st =
     (if r < length (fst st) then
        (case close_engine (fst st ! r, snd st) of (e, m) \<Rightarrow> ((fst st)[r := e], m))
      else st)"

fun close_each :: "engine_binding list \<Rightarrow> engine_ref list \<Rightarrow> 'w stage \<Rightarrow> 'w stage" where
  "close_each [] seen st = st"
| "close_each (b # bs) seen st = (case engine b of
     None \<Rightarrow> close_each bs seen st
   | Some r \<Rightarrow> if r \<in> set seen then close_each bs seen st else close_each bs (r # seen) (close_stage r st))"

definition close_engines :: "'w hub \<Rightarrow> 'w hub" where
  "close_engines hb = (case hb_router hb of
     None \<Rightarrow> hb
   | Some r \<Rightarrow> hb\<lparr>hb_stage := close_each (reg_bindings (registry r)) [] (hb_stage hb)\<rparr>)"

text \<open>The reference count drops; at zero (or below) the engines are released.\<close>

definition release :: "'w hub \<Rightarrow> 'w hub" where
  "release hb = (let hb1 = hb\<lparr>hb_refs := hb_refs hb - 1\<rparr> in
     if hb_refs hb1 \<le> 0 then close_engines hb1 else hb1)"

definition close_connection :: "'w driver \<Rightarrow> ('w session, unit) eff" where
  "close_connection D s = (let s1 = (fst s, release (snd s)) in
     if cn_owns_inner (fst s) then on_inner (dr_close D) s1 else (Inr (), s1))"

section \<open>New handles\<close>

text \<open>\<open>cursor()\<close>: the new handle, which joins the count, beside the state of the old one.\<close>

definition open_cursor :: "'w driver \<Rightarrow> ('w session, connection) eff" where
  "open_cursor D s = (case on_inner (dr_cursor D) s of
     (Inl exc, s1) \<Rightarrow> (Inl exc, s1)
   | (Inr h, (c, hb)) \<Rightarrow>
       (Inr (new_connection h True (cn_engines_dir c) (cn_mount c) (cn_engine_threads c)), (c, attach hb)))"

datatype database = Path string | OpenConnection nat

text \<open>\<open>int(config["threads"])\<close>.\<close>

definition py_int :: "pyval \<Rightarrow> py_error + int" where
  "py_int v = (case v of
     PInt i \<Rightarrow> Inr i
   | PBool b \<Rightarrow> Inr (if b then 1 else 0)
   | PFloat (Num (Fin x)) \<Rightarrow> Inr (if 0 \<le> x then \<lfloor>x\<rfloor> else \<lceil>x\<rceil>)
   | PFloat NaN \<Rightarrow> Inl (ValueError ''cannot convert float NaN to integer'')
   | PFloat a \<Rightarrow> Inl (OverflowError ''cannot convert float infinity to integer'')
   | PStr s \<Rightarrow> (case py_int_of_str s of Some i \<Rightarrow> Inr i | None \<Rightarrow> Inl (ValueError ''invalid literal for int()''))
   | _ \<Rightarrow> Inl (TypeError ''int() argument must be a string or a real number''))"

definition engine_threads :: "pyval option \<Rightarrow> py_error + int option" where
  "engine_threads t = (case t of
     None \<Rightarrow> Inr None | Some PNone \<Rightarrow> Inr None | Some v \<Rightarrow> ebind (py_int v) (\<lambda>i. Inr (Some i)))"

text \<open>The DuckDB handle of \<open>connect\<close> and whether the new connection owns it.\<close>

definition connect_inner :: "'w driver \<Rightarrow> database \<Rightarrow> bool \<Rightarrow> string list \<Rightarrow> ('w, nat \<times> bool) eff" where
  "connect_inner D db read_only kwargs = (case db of
     OpenConnection h \<Rightarrow>
       if read_only \<or> kwargs \<noteq> [] then
         raise_eff (TypeError ''synnodb.connect(<DuckDBPyConnection>) wraps an already-open connection'')
       else return_eff (h, False)
   | Path p \<Rightarrow> bind_eff (dr_open D p read_only) (\<lambda>h. return_eff (h, True)))"

definition connect ::
  "'w driver \<Rightarrow> (string \<rightharpoonup> string) \<Rightarrow> database \<Rightarrow> bool \<Rightarrow> string list \<Rightarrow> pyval option
     \<Rightarrow> router_policy option \<Rightarrow> registry option \<Rightarrow> string option \<Rightarrow> bool \<Rightarrow> 'w machine \<Rightarrow> (py_error + 'w session) \<times> 'w machine"
where
  "connect D env db read_only kwargs threads pol reg engines mount m =
     (case connect_inner D db read_only kwargs (rest_of_world m) of (res, w) \<Rightarrow>
       (let m1 = m\<lparr>rest_of_world := w\<rparr> in
        (ebind res (\<lambda>(h, owns).
         ebind (case pol of Some p \<Rightarrow> Inr p | None \<Rightarrow> policy_from_env env []) (\<lambda>p.
         ebind (engine_threads threads) (\<lambda>thr.
           Inr (new_connection h owns (resolve_engines_dir engines env) mount thr,
             attach \<lparr>hb_router = Some (new_router (Some p) reg), hb_stage = ([], m1), hb_refs = 0\<rparr>)))), m1)))"

section \<open>Inspection\<close>

definition con_router_stats :: "'w session \<Rightarrow> string \<times> registry_stats option \<times> (counters \<times> (string \<rightharpoonup> nat)) option" where
  "con_router_stats s = (case hb_router (snd s) of
     None \<Rightarrow> (''off'', None, None)
   | Some r \<Rightarrow> (mode_value (mode (policy r)), Some (reg_stats (registry r)), Some (router_stats r)))"

definition con_why :: "'w driver \<Rightarrow> string \<Rightarrow> params \<Rightarrow> ('w session, why_answer) eff" where
  "con_why D sql ps s = (case hb_router (snd s) of
     None \<Rightarrow> (Inr \<lparr>y_decision = WouldFallBack, y_reason = ''no router'', y_template = None, y_guards = [],
       y_placeholders = None, y_normalized = None\<rparr>, s)
   | Some r0 \<Rightarrow> bind_eff (maybe_discover D) (\<lambda>u s1. case hb_router (snd s1) of
       None \<Rightarrow> (Inl (RuntimeError ''no router''), s1)
     | Some r \<Rightarrow> (case why_route (outside_of D (cn_inner (fst s1))) r sql ps True (hb_stage (snd s1)) of
         (a, st) \<Rightarrow> (Inr a, (fst s1, (snd s1)\<lparr>hb_stage := st\<rparr>)))) s)"

section \<open>What the calls leave alone\<close>

text \<open>
  A call keeps the handle's DuckDB connection, the reference count, the presence and policy of the
  router, and the invariant of its books.
\<close>

definition router_ok :: "'w hub \<Rightarrow> bool" where
  "router_ok hb \<longleftrightarrow> (\<forall>r. hb_router hb = Some r \<longrightarrow> session_inv r)"

definition hub_frame :: "'w session \<Rightarrow> 'w session \<Rightarrow> bool" where
  "hub_frame s s' \<longleftrightarrow> cn_inner (fst s') = cn_inner (fst s) \<and> cn_owns_inner (fst s') = cn_owns_inner (fst s) \<and>
     hb_refs (snd s') = hb_refs (snd s) \<and>
     map_option policy (hb_router (snd s')) = map_option policy (hb_router (snd s)) \<and>
     (router_ok (snd s) \<longrightarrow> router_ok (snd s'))"

lemma frame_refl [simp]: "hub_frame s s"
  by (simp add: hub_frame_def)

lemma frame_trans: "hub_frame a b \<Longrightarrow> hub_frame b c \<Longrightarrow> hub_frame a c"
  by (simp add: hub_frame_def)

lemma frame_bind:
  assumes "bind_eff m f s = (r, s')" "\<And>x s1. m s = (x, s1) \<Longrightarrow> hub_frame s s1"
    "\<And>a s1 r s2. f a s1 = (r, s2) \<Longrightarrow> hub_frame s1 s2"
  shows "hub_frame s s'"
proof -
  obtain x s1 where m: "m s = (x, s1)" by (cases "m s")
  show ?thesis
  proof (cases x)
    case (Inl e)
    with assms(1) m have "s' = s1" by (simp add: bind_eff_def)
    with assms(2) [OF m] show ?thesis by simp
  next
    case (Inr a)
    with assms(1) m have "f a s1 = (r, s')" by (simp add: bind_eff_def)
    from frame_trans [OF assms(2) [OF m] assms(3) [OF this]] show ?thesis .
  qed
qed

lemma frame_inner: "on_inner f s = (r, s') \<Longrightarrow> hub_frame s s'"
  by (auto simp: on_inner_def hub_frame_def router_ok_def split: prod.splits)

lemma frame_conn:
  assumes "set_conn f s = (r, s')" "\<And>c. cn_inner (f c) = cn_inner c" "\<And>c. cn_owns_inner (f c) = cn_owns_inner c"
  shows "hub_frame s s'"
proof -
  from assms(1) have "s' = (f (fst s), snd s)" by (simp add: set_conn_def)
  then show ?thesis by (simp add: hub_frame_def assms(2,3))
qed

lemma frame_discover:
  assumes "discover_now D s = (x, s')"
  shows "hub_frame s s'"
proof (cases "cn_engines_dir (fst s) = None \<or> hb_router (snd s) = None")
  case False
  then obtain d r where dr: "cn_engines_dir (fst s) = Some d" "hb_router (snd s) = Some r" by auto
  let ?st = "\<lparr>s_registry = registry r, s_engines = fst (hb_stage (snd s)), s_machine = snd (hb_stage (snd s))\<rparr>"
  obtain res st where e: "discover_engines (dr_site D (cn_inner (fst s))) d (cn_mount (fst s)) (cn_engine_threads (fst s))
      (cn_registered (fst s)) ?st = (res, st)" by fastforce
  from discover_engines_keeps [OF e] have "session_inv r \<Longrightarrow> session_inv (r\<lparr>registry := s_registry st\<rparr>)"
    by (simp add: keeps_registry_def session_inv_books books_registry)
  with assms dr e show ?thesis
    by (auto simp: discover_now_def hub_frame_def router_ok_def Let_def split: sum.splits)
qed (use assms in \<open>auto simp: discover_now_def Let_def split: option.splits\<close>)

lemma frame_scan: "scan_at D now s = (r, s') \<Longrightarrow> hub_frame s s'"
  unfolding scan_at_def by (erule frame_bind, erule frame_conn, simp_all, erule frame_discover)

lemma frame_maybe: "maybe_discover D s = (r, s') \<Longrightarrow> hub_frame s s'"
  unfolding maybe_discover_def
  by (auto split: if_splits option.splits elim!: frame_bind dest: frame_inner frame_scan)

lemma frame_refresh: "refresh_engines D s = (r, s') \<Longrightarrow> hub_frame s s'"
  unfolding refresh_engines_def by (erule frame_bind, erule frame_inner, erule frame_scan)

lemma frame_duckdb: "run_duckdb_timed D sql ps s = (r, s') \<Longrightarrow> hub_frame s s'"
  unfolding run_duckdb_timed_def
  by (elim frame_bind; (erule frame_inner | (erule frame_conn, simp_all)))

lemma route_session_inv:
  "route E r sql ps conn w = (x, r', w') \<Longrightarrow> session_inv r \<Longrightarrow> session_inv r'"
  using step_inv [of E r w r' w'] session_step.query [of E r sql ps conn w] by blast

lemma frame_route:
  assumes "route_here D sql ps s = (x, s')"
  shows "hub_frame s s'"
proof (cases "hb_router (snd s)")
  case (Some r)
  obtain res r' st where e: "route (outside_of D (cn_inner (fst s))) r sql ps True (hb_stage (snd s)) = (res, r', st)"
    by (rule prod_cases3)
  from route_registry(1) [OF e] route_session_inv [OF e] assms Some e show ?thesis
    by (auto simp: route_here_def hub_frame_def router_ok_def)
qed (use assms in \<open>simp add: route_here_def\<close>)

lemma frame_serve: "serve_decision D sql ps d s = (r, s') \<Longrightarrow> hub_frame s s'"
  unfolding serve_decision_def
  by (auto split: option.splits bool.splits prod.splits dest: frame_duckdb elim!: frame_conn)

lemma frame_refuse: "refuse_write sql s = (r, s') \<Longrightarrow> hub_frame s s'"
  using step_inv [OF session_step.blocked_write [of undefined]]
  by (auto simp: refuse_write_def hub_frame_def note_blocked_write_def router_ok_def option.map_comp comp_def)

lemma frame_execute: "execute D sql ps s = (r, s') \<Longrightarrow> hub_frame s s'"
  unfolding execute_def
  by (auto split: if_splits option.splits elim!: frame_bind
      dest: frame_refuse frame_duckdb frame_maybe frame_route frame_serve)

lemma frame_many: "executemany D sql ps s = (r, s') \<Longrightarrow> hub_frame s s'"
  unfolding executemany_def
  by (auto split: if_splits dest: frame_refuse elim!: frame_bind frame_inner frame_conn)

section \<open>What execute raises\<close>

lemma duckdb_outcome:
  "run_duckdb_timed D sql ps s = (Inl exc, s') \<Longrightarrow>
   \<exists>w w'. ds_execute (dr_session D (cn_inner (fst s))) sql ps w = (Inl exc, w')"
  by (auto simp: run_duckdb_timed_def eff_simps on_inner_def on_stage_def set_conn_def perf_counter_def
      read_clock_def split: prod.splits sum.splits) blast

lemma duckdb_answers:
  "run_duckdb_timed D sql ps s = (Inr u, s') \<Longrightarrow> cn_current (fst s') = None \<and>
   (\<exists>w w'. ds_execute (dr_session D (cn_inner (fst s))) sql ps w = (Inr (), w'))"
  by (auto simp: run_duckdb_timed_def eff_simps on_inner_def on_stage_def set_conn_def perf_counter_def
      read_clock_def split: prod.splits sum.splits) blast

lemma route_here_returns:
  assumes "hb_router (snd s) = Some r" "mode (policy r) \<noteq> BESPOKE_ONLY"
    "finite_answers (outside_of D (cn_inner (fst s)))"
  shows "\<exists>d s1. route_here D sql ps s = (Inr d, s1)"
proof -
  let ?E = "outside_of D (cn_inner (fst s))"
  obtain d r' st where "route ?E r sql ps True (hb_stage (snd s)) = (Inr d, r', st)"
    using returns_route [OF assms(2,3)] unfolding returns_def by blast
  with assms(1) show ?thesis by (simp add: route_here_def)
qed

lemma serve_outcome:
  "serve_decision D sql ps d s = (Inl exc, s') \<Longrightarrow>
   \<exists>w w'. ds_execute (dr_session D (cn_inner (fst s))) sql ps w = (Inl exc, w')"
  by (auto simp: serve_decision_def set_conn_def dest: duckdb_outcome split: option.splits bool.splits prod.splits)

text \<open>
  What an engine and DuckDB are asked for: no result file with a cell the difference report cannot
  handle (\<open>finite_cell\<close>) is written by a batch, and no such table comes from DuckDB.
\<close>

definition finite_engine :: "'w engine_host \<Rightarrow> bool" where
  "finite_engine H \<longleftrightarrow> (\<forall>h ls env es w r es' w' p t n. batch H h ls env (es, w) = (r, es', w') \<longrightarrow>
     map_of es' p = Some (Data (Complete t n)) \<longrightarrow> (\<forall>x. map_of es p \<noteq> Some (Data x)) \<longrightarrow> finite_table t)"

definition finite_duck :: "'w duck_session \<Rightarrow> bool" where
  "finite_duck S \<longleftrightarrow> (\<forall>w t w'. ds_arrow S w = (Inr t, w') \<longrightarrow> finite_table t)"

lemma finite_run:
  assumes "finite_engine H" "run_engine H q phs e m = (Inr (t, ms), e', m')"
  shows "finite_table t"
proof -
  let ?p = "\<lambda>e. result_path e (request_id H q phs)"
  obtain h e1 m3 br m4 where b: "call_batch H h [request_line H q phs] (batch_env e1) m3 = (Inr br, m4)"
    and p: "\<not> exists_path (?p e1) m3"
    and c: "collect_result H q (request_id H q phs) (?p e1) br e1 m4 = (Inr (t, ms), e', m')"
    using assms(2) by (rule run_engine_batch)
  from b obtain w' where bt: "batch H h [request_line H q phs] (batch_env e1) (entries m3, rest_of_world m3)
      = (Inr br, entries m4, w')"
    by (auto simp: call_batch_def split: prod.splits)
  obtain n where n: "map_of (entries m4) (?p e1) = Some (Data (Complete t n))"
    using collect_result_ok(2) [OF c] by blast
  have "\<forall>x. map_of (entries m3) (?p e1) \<noteq> Some (Data x)" using p by (auto simp: exists_path_def)
  with assms(1) bt n show ?thesis unfolding finite_engine_def by blast
qed

lemma finite_reference:
  "finite_duck S \<Longrightarrow> execute_arrow_timed S sql ps w = (Inr (t, ms), w') \<Longrightarrow> finite_table t"
  unfolding finite_duck_def
  by (auto simp: execute_arrow_timed_def execute_profiled_def finally_eff_def eff_simps
      split: prod.splits sum.splits dest!: body_table)

lemma finite_outside:
  assumes "finite_engine (se_host (dr_site D h))" "finite_duck (dr_session D h)"
  shows "finite_answers (outside_of D h)"
  unfolding finite_answers_def
proof (intro conjI allI impI)
  fix e q b v t s v' assume "run (outside_of D h) e q b v = (Inr (t, s), v')"
  then show "finite_table t"
    by (auto simp: outside_of_def Let_def split: if_splits prod.splits intro: finite_run [OF assms(1)])
next
  fix s p v t ms v' assume "duck (outside_of D h) s p v = (Inr (t, ms), v')"
  then show "finite_table t"
    by (auto simp: outside_of_def Let_def on_stage_def split: prod.splits intro: finite_reference [OF assms(2)])
qed


section \<open>What a successful execute leaves behind\<close>

lemma map_sum_Inr: "map_sum f g x = Inr y \<longleftrightarrow> (\<exists>z. x = Inr z \<and> y = g z)"
  by (cases x) auto

text \<open>
  The routing of this statement: the router's own call on the state discovery left, with the decision
  specified in \<open>Query_Router\<close>; \<open>s2\<close> is the state after it.
\<close>

definition routed_here :: "'w driver \<Rightarrow> string \<Rightarrow> params \<Rightarrow> 'w session \<Rightarrow> route_decision \<Rightarrow> 'w session \<Rightarrow> bool" where
  "routed_here D sql ps s1 d s2 \<longleftrightarrow> (\<exists>r r' st. hb_router (snd s1) = Some r \<and>
     route (outside_of D (cn_inner (fst s1))) r sql ps True (hb_stage (snd s1)) = (Inr d, r', st) \<and>
     decision_ok (outside_of D (cn_inner (fst s1))) r sql ps True (hb_stage (snd s1)) d st \<and>
     s2 = (fst s1, (snd s1)\<lparr>hb_router := Some r', hb_stage := st\<rparr>))"

text \<open>DuckDB executed the statement between two readings of the clock, and nothing else was called.\<close>

definition duckdb_ran :: "'w driver \<Rightarrow> string \<Rightarrow> params \<Rightarrow> 'w session \<Rightarrow> 'w session \<Rightarrow> bool" where
  "duckdb_ran D sql ps s2 s' \<longleftrightarrow> (let S = dr_session D (cn_inner (fst s2));
       world = (\<lambda>s. rest_of_world (snd (hb_stage (snd s)))) in
     \<exists>w. ds_execute S sql ps (snd (ds_clock S (world s2))) = (Inr (), w) \<and> world s' = snd (ds_clock S w) \<and>
       fst (hb_stage (snd s')) = fst (hb_stage (snd s2)) \<and> hb_router (snd s') = hb_router (snd s2))"

lemma duckdb_served:
  "run_duckdb_timed D sql ps s = (Inr u, s') \<Longrightarrow> duckdb_ran D sql ps s s' \<and> cn_current (fst s') = None"
  by (auto simp: run_duckdb_timed_def eff_simps on_inner_def on_stage_def set_conn_def perf_counter_def
      read_clock_def duckdb_ran_def Let_def split: prod.splits sum.splits)

lemma route_here_routed:
  assumes "route_here D sql ps s1 = (Inr d, s2)" "hb_router (snd s1) = Some r"
  obtains dec where "d = Some dec" "routed_here D sql ps s1 dec s2"
proof -
  let ?E = "outside_of D (cn_inner (fst s1))"
  obtain res r' st where e: "route ?E r sql ps True (hb_stage (snd s1)) = (res, r', st)" by (rule prod_cases3)
  with assms obtain dec where d: "res = Inr dec" "d = Some dec"
    "s2 = (fst s1, (snd s1)\<lparr>hb_router := Some r', hb_stage := st\<rparr>)"
    by (auto simp: route_here_def map_sum_Inr)
  have "decision_ok ?E r sql ps True (hb_stage (snd s1)) dec st"
    using route_on_answer [of ?E r sql ps True "hb_stage (snd s1)"] e d(1) by (simp add: on_answer_def)
  then have "routed_here D sql ps s1 dec s2"
    unfolding routed_here_def d(3)
    by (intro exI [of _ r] exI [of _ r'] exI [of _ st] conjI refl assms(2)) (simp_all only: e d(1))
  with d(2) show ?thesis by (rule that)
qed

text \<open>
  C3. After a successful \<open>execute\<close> the handle serves a trusted answer. Either the router's own decision on
  this statement, taken on the state the discovery scan left, attached a result: then the
  decision meets its specification (the engine's table, or DuckDB's on any failed check), the current result
  is the one it attached, no further call was made, and \<open>fetchall\<close> gives exactly its rows. Or there was no
  active router or the decision was not to route: then DuckDB has executed this statement right
  after, there is no routed result, and fetches go to DuckDB.
\<close>

theorem execute_serves_trusted:
  assumes "execute D sql ps s = (Inr u, s')"
  shows "(\<exists>s1 s2 d res. maybe_discover D s = (Inr (), s1) \<and> routed_here D sql ps s1 d s2 \<and>
      d_routed d \<and> d_result d = Some res \<and> snd s' = snd s2 \<and>
      cn_current (fst s') = Some (new_result (sr_table res) (sr_types res)) \<and>
      fst (con_fetchall D s') = Inr (rows_of (sr_table res))) \<or>
    (\<exists>s2. (s2 = s \<and> (\<forall>r. hb_router (snd s) = Some r \<longrightarrow> \<not> routing_active (policy r)) \<or>
        (\<exists>s1 d. maybe_discover D s = (Inr (), s1) \<and> routed_here D sql ps s1 d s2 \<and> \<not> d_routed d)) \<and>
      duckdb_ran D sql ps s2 s' \<and> cn_current (fst s') = None)"
  (is "?routed \<or> ?duck")
proof -
  have b: "\<not> blocked_write D sql s" using assms by (auto simp: execute_def refuse_write_def)
  consider (duck) "run_duckdb_timed D sql ps s = (Inr u, s')"
      "\<forall>r. hb_router (snd s) = Some r \<longrightarrow> \<not> routing_active (policy r)"
    | (route) r s1 d s2 where "hb_router (snd s) = Some r" "maybe_discover D s = (Inr (), s1)"
        "route_here D sql ps s1 = (Inr d, s2)" "serve_decision D sql ps d s2 = (Inr u, s')"
    using assms b by (auto simp: execute_def bind_eff_def split: option.splits if_splits prod.splits sum.splits)
  then show ?thesis
  proof cases
    case duck
    from duckdb_served [OF duck(1)] duck(2) show ?thesis by blast
  next
    case route
    from frame_maybe [OF route(2)] route(1) obtain r1 where "hb_router (snd s1) = Some r1"
      by (auto simp: hub_frame_def)
    from route_here_routed [OF route(3) this] obtain dec where
      d: "d = Some dec" "routed_here D sql ps s1 dec s2" .
    show ?thesis
    proof (cases "d_routed dec")
      case True
      from d(2) obtain res where res: "d_result dec = Some res"
        unfolding routed_here_def using decision_result [OF _ True] by metis
      with route(4) d True have s': "cn_current (fst s') = Some (new_result (sr_table res) (sr_types res))"
        "snd s' = snd s2"
        by (auto simp: serve_decision_def set_conn_def)
      then have "fst (con_fetchall D s') = Inr (rows_of (sr_table res))"
        by (simp add: con_fetchall_def fetch_from_def fetchall_def new_result_def)
      with True res d(2) route(2) s' have ?routed by blast
      then show ?thesis ..
    next
      case False
      with route(4) d have "run_duckdb_timed D sql ps s2 = (Inr u, s')" by (simp add: serve_decision_def)
      from duckdb_served [OF this] False d(2) route(2) have ?duck by blast
      then show ?thesis ..
    qed
  qed
qed

end
