(* ===== verification/Connection_Handles.thy ===== *)
theory Connection_Handles
  imports Synno_Connection
begin

text \<open>
  Several handles over one hub: the shared reference count, closing, and warming the engines
  (\<open>cursor\<close>, \<open>close\<close>, \<open>_close_engines\<close> and \<open>synno_ingest_data\<close> of \<open>duckdb_compat/connection.py\<close>). A session is a
  step relation on the hub and the list of open handles; the concrete driver at the end evaluates
  the connection's properties on a routed statement.
\<close>

section \<open>The remaining calls\<close>

lemma frame_fetch: "fetch_from f g s = (r, s') \<Longrightarrow> hub_frame s s'"
  by (auto simp: fetch_from_def hub_frame_def dest: frame_inner split: option.splits prod.splits)

lemma frame_materialize: "materialize_current D s = (r, s') \<Longrightarrow> hub_frame s s'"
  unfolding materialize_current_def
  by (auto split: option.splits simp: return_eff_def elim!: frame_bind frame_inner frame_conn)

lemma frame_warm: "synno_ingest_data D s = (n, s') \<Longrightarrow> hub_frame s s'"
  by (auto simp: synno_ingest_data_def hub_frame_def router_ok_def split: option.splits prod.splits)

lemma frame_why: "con_why D sql ps s = (r, s') \<Longrightarrow> hub_frame s s'"
proof (cases "hb_router (snd s)")
  case (Some r0)
  moreover assume "con_why D sql ps s = (r, s')"
  ultimately show ?thesis unfolding con_why_def
    by (auto elim!: frame_bind dest: frame_maybe split: option.splits prod.splits)
      (auto simp: hub_frame_def router_ok_def)
qed (simp add: con_why_def)

lemma frame_fetches:
  "con_fetchone D s = (r1, s') \<Longrightarrow> hub_frame s s'" "con_fetchmany D k s = (r2, s') \<Longrightarrow> hub_frame s s'"
  "con_fetchall D s = (r3, s') \<Longrightarrow> hub_frame s s'"
  by (auto simp: con_fetchone_def con_fetchmany_def con_fetchall_def dest: frame_fetch)

section \<open>Handles that share engines\<close>

text \<open>
  The calls of a session over one hub. The list holds every handle ever made over it with the number
  of times it was closed, and any handle, closed or not, may be called (what DuckDB says to a
  closed one is the driver's): it executes, fetches, scans, warms or inspects; \<open>cursor()\<close> adds a
  handle; \<open>close()\<close> may be called again and again.
\<close>

type_synonym 'w hub_state = "'w hub \<times> (connection \<times> nat) list"

inductive hub_step :: "'w driver \<Rightarrow> 'w hub_state \<Rightarrow> 'w hub_state \<Rightarrow> bool" for D where
  execute: "i < length hs \<Longrightarrow> execute D sql ps (fst (hs ! i), hb) = (x, c, hb') \<Longrightarrow>
    hub_step D (hb, hs) (hb', hs[i := (c, snd (hs ! i))])"
| many: "i < length hs \<Longrightarrow> executemany D sql ps (fst (hs ! i), hb) = (x, c, hb') \<Longrightarrow>
    hub_step D (hb, hs) (hb', hs[i := (c, snd (hs ! i))])"
| refresh: "i < length hs \<Longrightarrow> refresh_engines D (fst (hs ! i), hb) = (x, c, hb') \<Longrightarrow>
    hub_step D (hb, hs) (hb', hs[i := (c, snd (hs ! i))])"
| fetchone: "i < length hs \<Longrightarrow> con_fetchone D (fst (hs ! i), hb) = (y1, c, hb') \<Longrightarrow>
    hub_step D (hb, hs) (hb', hs[i := (c, snd (hs ! i))])"
| fetchmany: "i < length hs \<Longrightarrow> con_fetchmany D n (fst (hs ! i), hb) = (y2, c, hb') \<Longrightarrow>
    hub_step D (hb, hs) (hb', hs[i := (c, snd (hs ! i))])"
| fetchall: "i < length hs \<Longrightarrow> con_fetchall D (fst (hs ! i), hb) = (y3, c, hb') \<Longrightarrow>
    hub_step D (hb, hs) (hb', hs[i := (c, snd (hs ! i))])"
| materialize: "i < length hs \<Longrightarrow> materialize_current D (fst (hs ! i), hb) = (z, c, hb') \<Longrightarrow>
    hub_step D (hb, hs) (hb', hs[i := (c, snd (hs ! i))])"
| warm: "i < length hs \<Longrightarrow> synno_ingest_data D (fst (hs ! i), hb) = (m, c, hb') \<Longrightarrow>
    hub_step D (hb, hs) (hb', hs[i := (c, snd (hs ! i))])"
| why: "i < length hs \<Longrightarrow> con_why D sql ps (fst (hs ! i), hb) = (a, c, hb') \<Longrightarrow>
    hub_step D (hb, hs) (hb', hs[i := (c, snd (hs ! i))])"
| cursor: "i < length hs \<Longrightarrow> open_cursor D (fst (hs ! i), hb) = (Inr k, c, hb') \<Longrightarrow>
    hub_step D (hb, hs) (hb', hs[i := (c, snd (hs ! i))] @ [(k, 0)])"
| cursor_fails: "i < length hs \<Longrightarrow> open_cursor D (fst (hs ! i), hb) = (Inl e, c, hb') \<Longrightarrow>
    hub_step D (hb, hs) (hb', hs[i := (c, snd (hs ! i))])"
| close: "i < length hs \<Longrightarrow> close_connection D (fst (hs ! i), hb) = (x, c, hb') \<Longrightarrow>
    hub_step D (hb, hs) (hb', hs[i := (c, Suc (snd (hs ! i)))])"

inductive hub_reaches :: "'w driver \<Rightarrow> 'w hub_state \<Rightarrow> 'w hub_state \<Rightarrow> bool" for D where
  start: "hub_reaches D s s"
| step: "hub_reaches D s t \<Longrightarrow> hub_step D t u \<Longrightarrow> hub_reaches D s u"

text \<open>The calls of \<open>close()\<close> so far, over all handles.\<close>

definition close_calls :: "(connection \<times> nat) list \<Rightarrow> nat" where
  "close_calls hs = sum_list (map snd hs)"

lemma close_calls_update:
  "i < length hs \<Longrightarrow> close_calls (hs[i := (c, n)]) + snd (hs ! i) = close_calls hs + n"
  unfolding close_calls_def by (induction hs arbitrary: i) (auto split: nat.splits)

lemma close_calls_simps:
  "i < length hs \<Longrightarrow> close_calls (hs[i := (c, snd (hs ! i))]) = close_calls hs"
  "i < length hs \<Longrightarrow> close_calls (hs[i := (c, Suc (snd (hs ! i)))]) = Suc (close_calls hs)"
  "close_calls (hs @ [(k, 0)]) = close_calls hs"
  using close_calls_update [of i hs c "snd (hs ! i)"] close_calls_update [of i hs c "Suc (snd (hs ! i))"]
  by simp_all (simp add: close_calls_def)

definition hub_inv :: "'w hub_state \<Rightarrow> bool" where
  "hub_inv s \<longleftrightarrow> hb_refs (fst s) = int (length (snd s)) - int (close_calls (snd s)) \<and> router_ok (fst s)"

lemma frame_inv:
  "hub_inv (hb, hs) \<Longrightarrow> i < length hs \<Longrightarrow> hub_frame (fst (hs ! i), hb) (c, hb') \<Longrightarrow>
   hub_inv (hb', hs[i := (c, snd (hs ! i))])"
  by (simp add: hub_inv_def hub_frame_def close_calls_simps)

lemma release_inv:
  "hb_refs (release hb) = hb_refs hb - 1 \<and> hb_router (release hb) = hb_router hb"
  by (simp add: release_def close_engines_def Let_def split: option.splits)

lemma close_connection_inv:
  assumes "hub_inv (hb, hs)" "i < length hs" "close_connection D (fst (hs ! i), hb) = (x, c, hb')"
  shows "hub_inv (hb', hs[i := (c, Suc (snd (hs ! i)))])"
proof -
  have "hub_frame (fst (hs ! i), release hb) (c, hb')"
    using assms(3) by (auto simp: close_connection_def Let_def dest: frame_inner split: if_splits)
  with assms(1,2) release_inv [of hb] show ?thesis
    by (simp add: hub_inv_def hub_frame_def router_ok_def close_calls_simps)
qed

lemma cursor_inv:
  assumes "hub_inv (hb, hs)" "i < length hs" "open_cursor D (fst (hs ! i), hb) = (x, c, hb')"
  shows "hub_inv (hb', hs[i := (c, snd (hs ! i))] @ (case x of Inl e \<Rightarrow> [] | Inr k \<Rightarrow> [(k, 0)]))"
proof -
  obtain y c1 hb1 where o: "on_inner (dr_cursor D) (fst (hs ! i), hb) = (y, c1, hb1)" by (rule prod_cases3)
  from frame_inv [OF assms(1,2) frame_inner [OF this]] have "hub_inv (hb1, hs[i := (c1, snd (hs ! i))])" .
  with assms(3) o show ?thesis
    by (auto simp: open_cursor_def hub_inv_def attach_def router_ok_def close_calls_simps split: sum.splits)
qed

lemma hub_step_inv: "hub_step D s t \<Longrightarrow> hub_inv s \<Longrightarrow> hub_inv t"
proof (induction rule: hub_step.induct)
  case (cursor i hs hb k c hb')
  from cursor_inv [OF cursor.prems cursor.hyps] show ?case by simp
next
  case (cursor_fails i hs hb e c hb')
  from cursor_inv [OF cursor_fails.prems cursor_fails.hyps] show ?case by simp
next
  case (close i hs hb x c hb')
  then show ?case by (intro close_connection_inv)
next
  case execute
  from frame_inv [OF execute.prems execute.hyps(1) frame_execute [OF execute.hyps(2)]] show ?case .
next
  case many
  from frame_inv [OF many.prems many.hyps(1) frame_many [OF many.hyps(2)]] show ?case .
next
  case refresh
  from frame_inv [OF refresh.prems refresh.hyps(1) frame_refresh [OF refresh.hyps(2)]] show ?case .
next
  case fetchone
  from frame_inv [OF fetchone.prems fetchone.hyps(1) frame_fetches(1) [OF fetchone.hyps(2)]] show ?case .
next
  case fetchmany
  from frame_inv [OF fetchmany.prems fetchmany.hyps(1) frame_fetches(2) [OF fetchmany.hyps(2)]] show ?case .
next
  case fetchall
  from frame_inv [OF fetchall.prems fetchall.hyps(1) frame_fetches(3) [OF fetchall.hyps(2)]] show ?case .
next
  case materialize
  from frame_inv [OF materialize.prems materialize.hyps(1) frame_materialize [OF materialize.hyps(2)]] show ?case .
next
  case warm
  from frame_inv [OF warm.prems warm.hyps(1) frame_warm [OF warm.hyps(2)]] show ?case .
next
  case why
  from frame_inv [OF why.prems why.hyps(1) frame_why [OF why.hyps(2)]] show ?case .
qed

lemma hub_reaches_inv: "hub_reaches D s t \<Longrightarrow> hub_inv s \<Longrightarrow> hub_inv t"
  by (induction rule: hub_reaches.induct) (simp, rule hub_step_inv)

lemma other_open:
  assumes "i < length hs" "snd (hs ! i) = (0 :: nat)"
  shows "1 < length (filter (\<lambda>(c, n). n = 0) hs) \<longleftrightarrow> (\<exists>j < length hs. j \<noteq> i \<and> snd (hs ! j) = 0)"
proof -
  let ?J = "{j. j < length hs \<and> snd (hs ! j) = 0}"
  have c: "length (filter (\<lambda>(c, n). n = 0) hs) = card ?J"
    by (simp add: length_filter_conv_card case_prod_beta)
  have J: "finite ?J" "i \<in> ?J" using assms by simp_all
  from card_Suc_Diff1 [OF J] have "card ?J = Suc (card (?J - {i}))" by simp
  then have "1 < card ?J \<longleftrightarrow> 0 < card (?J - {i})" by linarith
  also have "\<dots> \<longleftrightarrow> ?J - {i} \<noteq> {}" using J(1) by (simp only: card_gt_0_iff finite_Diff simp_thms)
  also have "\<dots> \<longleftrightarrow> (\<exists>j < length hs. j \<noteq> i \<and> snd (hs ! j) = 0)" by blast
  finally show ?thesis unfolding c .
qed

text \<open>Handles closed at most once: the closed ones and the open ones make up the list.\<close>

lemma closed_once_calls:
  "list_all (\<lambda>(c, n). n \<le> 1) hs \<Longrightarrow> close_calls hs + length (filter (\<lambda>(c, n). n = 0) hs) = length hs"
  unfolding close_calls_def by (induction hs) auto

definition bound_refs :: "engine_binding list \<Rightarrow> engine_ref set" where
  "bound_refs bs = {r. \<exists>b \<in> set bs. engine b = Some r}"

lemma bound_refs_simps [simp]:
  "bound_refs [] = {}" "bound_refs (b # bs) = (case engine b of None \<Rightarrow> bound_refs bs | Some r \<Rightarrow> insert r (bound_refs bs))"
  by (auto simp: bound_refs_def split: option.splits)

text \<open>An engine that has been released: refused by the readiness guard, no handle, no snapshot.\<close>

definition released :: "process_engine \<Rightarrow> 'w machine \<Rightarrow> process_engine \<Rightarrow> bool" where
  "released e m e' \<longleftrightarrow> pe_closed e' \<and> (\<forall>h. pe_proc e = Some h \<longrightarrow> h \<notin> set (open_procs m)) \<and>
     (\<forall>d p. pe_hot e \<longrightarrow> pe_ingest_dir e = Some d \<longrightarrow> below d p \<longrightarrow> map_of (entries m) p = None)"

lemma close_engine_released:
  assumes "close_engine (e, m) = (e', m')"
  shows "released e m' e'" "set (open_procs m') \<subseteq> set (open_procs m)"
    "map_of (entries m) p = None \<Longrightarrow> map_of (entries m') p = None"
  using assms
  by (auto simp: close_engine_def released_def Let_def remove_tree_lookup
      split: if_splits option.splits)

lemma released_mono:
  "released e m e' \<Longrightarrow> set (open_procs m') \<subseteq> set (open_procs m) \<Longrightarrow>
   (\<And>p. map_of (entries m) p = None \<Longrightarrow> map_of (entries m') p = None) \<Longrightarrow> released e m' e'"
  by (fastforce simp: released_def)

text \<open>Closing the engines behind a list of bindings, each once.\<close>

lemma close_stage_frame:
  "length (fst (close_stage r st)) = length (fst st)"
  "i \<noteq> r \<Longrightarrow> fst (close_stage r st) ! i = fst st ! i"
  "set (open_procs (snd (close_stage r st))) \<subseteq> set (open_procs (snd st))"
  "map_of (entries (snd st)) p = None \<Longrightarrow> map_of (entries (snd (close_stage r st))) p = None"
  using close_engine_released(2,3) [of "fst st ! r" "snd st"]
  by (auto simp: close_stage_def split: prod.splits)

lemma close_each_frame:
  "length (fst (close_each bs seen st)) = length (fst st)"
  "i \<notin> bound_refs bs - set seen \<Longrightarrow> fst (close_each bs seen st) ! i = fst st ! i"
  "set (open_procs (snd (close_each bs seen st))) \<subseteq> set (open_procs (snd st))"
  "map_of (entries (snd st)) p = None \<Longrightarrow> map_of (entries (snd (close_each bs seen st))) p = None"
proof (induction bs arbitrary: seen st)
  case (Cons b bs)
  { case 1 show ?case by (simp add: Cons.IH(1) close_stage_frame(1) split: option.split) }
  { case 2 then show ?case by (auto simp: Cons.IH(2) close_stage_frame(2) split: option.splits) }
  { case 3 show ?case by (auto split: option.split dest!: subsetD [OF Cons.IH(3)] subsetD [OF close_stage_frame(3)]) }
  { case 4 then show ?case by (simp add: Cons.IH(4) close_stage_frame(4) split: option.split) }
qed simp_all

lemma close_each_released:
  "r \<in> bound_refs bs - set seen \<Longrightarrow> r < length (fst st) \<Longrightarrow>
   released (fst st ! r) (snd (close_each bs seen st)) (fst (close_each bs seen st) ! r)"
proof (induction bs arbitrary: seen st)
  case (Cons b bs)
  show ?case
  proof (cases "engine b")
    case None
    with Cons show ?thesis by simp
  next
    case (Some q)
    consider "q \<in> set seen" | "q \<notin> set seen" "q \<noteq> r" | "q \<notin> set seen" "q = r" by blast
    then show ?thesis
    proof cases
      case 1
      with Some Cons show ?thesis by auto
    next
      case 2
      with Some Cons.prems Cons.IH [of "q # seen" "close_stage q st"] show ?thesis
        by (simp add: close_stage_frame)
    next
      case 3
      let ?st = "close_stage r st"
      obtain e m where c: "close_engine (fst st ! r, snd st) = (e, m)" by (cases "close_engine (fst st ! r, snd st)")
      with Cons.prems(2) have st: "?st = ((fst st)[r := e], m)" by (simp add: close_stage_def)
      have "released (fst st ! r) (snd (close_each bs (r # seen) ?st)) e"
        by (rule released_mono [OF close_engine_released(1) [OF c]])
          (use close_each_frame(3,4) [where bs = bs and seen = "r # seen" and st = ?st] st in auto)
      moreover have "fst (close_each bs (r # seen) ?st) ! r = e"
        using close_each_frame(2) [of r bs "r # seen" ?st] st Cons.prems(2) by simp
      ultimately show ?thesis using Some 3 by simp
    qed
  qed
qed simp

text \<open>
  C8. Handles share engines by counting: in every state a connection and its cursors reach, by any
  calls in any order and with handles closed any number of times, the shared count is the number of
  handles made minus the number of \<open>close()\<close> calls, and the router's books are in order. A \<open>close()\<close> that
  leaves the count positive touches no engine object, no subprocess and no file; one that
  brings it to zero or below releases every engine the registry holds: closed, subprocess terminated,
  staged snapshot removed. So if every handle has been closed at most once and this one is
  open, closing it releases the engines exactly when no other handle is open; a handle closed twice
  counts twice (\<open>double_close_releases\<close>), against the comment in \<open>close\<close>.
\<close>

definition stage_untouched :: "'w hub \<Rightarrow> 'w hub \<Rightarrow> bool" where
  "stage_untouched hb hb' \<longleftrightarrow> fst (hb_stage hb') = fst (hb_stage hb) \<and>
     entries (snd (hb_stage hb')) = entries (snd (hb_stage hb)) \<and>
     open_procs (snd (hb_stage hb')) = open_procs (snd (hb_stage hb))"

definition engines_released :: "'w hub \<Rightarrow> 'w hub \<Rightarrow> bool" where
  "engines_released hb hb' \<longleftrightarrow> (\<forall>rt r. hb_router hb = Some rt \<longrightarrow> r \<in> bound_refs (reg_bindings (registry rt)) \<longrightarrow>
     r < length (fst (hb_stage hb)) \<longrightarrow>
     released (fst (hb_stage hb) ! r) (snd (hb_stage hb')) (fst (hb_stage hb') ! r))"


text \<open>
  The count is decremented by every call of \<open>close()\<close>, so closing one handle twice (an explicit
  \<open>close()\<close> inside a \<open>with\<close> block) releases the engines another handle still uses.
\<close>

lemma double_close_releases:
  assumes "hb_refs hb = 2" "hb_router hb = Some rt" "r \<in> bound_refs (reg_bindings (registry rt))"
    "r < length (fst (hb_stage hb))"
  shows "pe_closed (fst (hb_stage (release (release hb))) ! r)"
proof -
  have "hb_stage (release (release hb)) = close_each (reg_bindings (registry rt)) [] (hb_stage hb)"
    using assms(1,2) by (simp add: release_def close_engines_def)
  with close_each_released [of r "reg_bindings (registry rt)" "[]" "hb_stage hb"] assms(3,4)
  show ?thesis by (simp add: released_def)
qed

text \<open>
  A statement that fails in DuckDB leaves the result of the routed statement before it current: the
  next fetch delivers that statement's remaining rows.
\<close>

lemma failed_statement_keeps_result:
  assumes "cn_current (fst s) = Some res" "run_duckdb_timed D sql ps s = (Inl exc, s')"
  shows "fst (con_fetchall D s') = Inr (drop (res_pos res) (res_rows res))"
proof -
  have "cn_current (fst s') = Some res"
    using assms by (auto simp: run_duckdb_timed_def eff_simps on_inner_def on_stage_def set_conn_def perf_counter_def
        read_clock_def split: prod.splits sum.splits)
  then show ?thesis by (simp add: con_fetchall_def fetch_from_def fetchall_def)
qed

section \<open>Warming loads each engine at most once\<close>

lemma load_ref_warm:
  assumes "load_ref H r st = (x, st')"
  shows "length (fst st') = length (fst st)" "i \<noteq> r \<Longrightarrow> fst st' ! i = fst st ! i"
    "x = Inr u \<Longrightarrow> r < length (fst st) \<and> pe_loaded_data (fst st' ! r)"
  using assms
  by (auto simp: load_ref_def load_data_def load_process_def split: if_splits prod.splits sum.splits)

definition warm_refs :: "engine_ref set \<Rightarrow> process_engine list \<Rightarrow> engine_ref set" where
  "warm_refs R es = {r \<in> R. r < length es \<and> pe_loaded_data (es ! r)}"

lemma warm_refs_finite [simp]: "finite (warm_refs R es)"
  unfolding warm_refs_def by (rule finite_subset [of _ "{..< length es}"]) auto

lemma load_each_warm:
  assumes "load_each H bs seen n st = (n', st')"
  shows "length (fst st') = length (fst st) \<and>
    (\<forall>i. i \<notin> bound_refs bs - set seen \<longrightarrow> fst st' ! i = fst st ! i) \<and>
    n' \<le> n + card (warm_refs (bound_refs bs - set seen) (fst st'))"
  using assms
proof (induction bs arbitrary: seen n st)
  case (Cons b bs)
  show ?case
  proof (cases "engine b")
    case None
    with Cons show ?thesis by simp
  next
    case (Some r)
    show ?thesis
    proof (cases "r \<in> set seen")
      case True
      with Some Cons.prems have "load_each H bs seen n st = (n', st')" by simp
      moreover have "bound_refs (b # bs) - set seen = bound_refs bs - set seen" using Some True by auto
      ultimately show ?thesis using Cons.IH by simp
    next
      case False
      obtain x st1 where l: "load_ref H r st = (x, st1)" by (cases "load_ref H r st")
      define k where "k = (case x of Inl e \<Rightarrow> n | Inr u \<Rightarrow> n + 1)"
      have "load_each H bs (r # seen) k st1 = (n', st')"
        using Cons.prems Some False l by (auto simp: k_def split: sum.splits)
      note IH = Cons.IH [OF this]
      have R: "bound_refs (b # bs) - set seen = insert r (bound_refs bs - set (r # seen))"
        using Some False by auto
      have rest: "warm_refs (bound_refs bs - set (r # seen)) (fst st') \<subseteq> warm_refs (bound_refs (b # bs) - set seen) (fst st')"
        unfolding R by (auto simp: warm_refs_def)
      have "n' \<le> n + card (warm_refs (bound_refs (b # bs) - set seen) (fst st'))"
      proof (cases x)
        case (Inl e)
        with IH card_mono [OF warm_refs_finite rest] show ?thesis by (simp add: k_def)
      next
        case (Inr u)
        from load_ref_warm(3) [OF l Inr] load_ref_warm(1) [OF l] IH
        have "r < length (fst st')" "pe_loaded_data (fst st' ! r)" by simp_all
        then have "warm_refs (bound_refs (b # bs) - set seen) (fst st') =
            insert r (warm_refs (bound_refs bs - set (r # seen)) (fst st'))"
          unfolding R by (auto simp: warm_refs_def)
        moreover have "r \<notin> warm_refs (bound_refs bs - set (r # seen)) (fst st')" by (simp add: warm_refs_def)
        ultimately show ?thesis using IH Inr by (simp add: k_def)
      qed
      then show ?thesis using IH load_ref_warm(1,2) [OF l] unfolding R by auto
    qed
  qed
qed simp

text \<open>
  \<open>synno_ingest_data\<close> is bounded and honest: the number it returns is at most the number of
  distinct engines behind the registered bindings that now hold their data in memory, the engines
  no binding uses are left as they were, and neither the handle nor the router changes (a failing
  engine is skipped).
\<close>

theorem ingest_data_counts_warm:
  assumes "synno_ingest_data D s = (n, s')" "hb_router (snd s) = Some r"
  shows "n \<le> card (warm_refs (bound_refs (reg_bindings (registry r))) (fst (hb_stage (snd s')))) \<and>
    (\<forall>i. i \<notin> bound_refs (reg_bindings (registry r)) \<longrightarrow>
      fst (hb_stage (snd s')) ! i = fst (hb_stage (snd s)) ! i) \<and>
    fst s' = fst s \<and> hb_router (snd s') = hb_router (snd s)"
proof -
  obtain k st where l: "load_each (se_host (dr_site D (cn_inner (fst s)))) (reg_bindings (registry r)) [] 0 (hb_stage (snd s)) = (k, st)"
    by (cases "load_each (se_host (dr_site D (cn_inner (fst s)))) (reg_bindings (registry r)) [] 0 (hb_stage (snd s))")
  with assms have "n = k" "s' = (fst s, (snd s)\<lparr>hb_stage := st\<rparr>)" by (auto simp: synno_ingest_data_def)
  with load_each_warm [OF l] show ?thesis by simp
qed

section \<open>Concrete connections\<close>

text \<open>
  A driver over the demonstration host: DuckDB answers every statement with one row, or fails it; the
  engine of the demonstration package answers with the same row.
\<close>

definition demo_duck :: "(py_error + unit) \<Rightarrow> unit duck_session" where
  "demo_duck answer = \<lparr>
     ds_execute = (\<lambda>s ps w. if py_startswith s ''PRAGMA'' then (Inr (), w) else (answer, w)),
     ds_arrow = return_eff one_row, ds_read_json = (\<lambda>p. return_eff None),
     ds_temp_name = (\<lambda>w. (''/tmp/p'', w)), ds_clock = (\<lambda>w. (5, w))\<rparr>"

definition demo_driver :: "(py_error + unit) \<Rightarrow> unit driver" where
  "demo_driver answer = \<lparr>
     dr_site = (\<lambda>h. demo_site_env\<lparr>se_catalog := demo_catalog_env\<lparr>sql_lang := select_sqlglot, digest16 := (\<lambda>s. ''fp'')\<rparr>\<rparr>),
     dr_session = (\<lambda>h. demo_duck answer), dr_many = (\<lambda>h s p. return_eff ()),
     dr_fetchone = (\<lambda>h. return_eff None), dr_fetchmany = (\<lambda>h n. return_eff []), dr_fetchall = (\<lambda>h. return_eff []),
     dr_description = (\<lambda>h. return_eff []), dr_cursor = (\<lambda>h. return_eff (h + 1)), dr_close = (\<lambda>h. return_eff ()),
     dr_open = (\<lambda>p ro. return_eff 0), dr_monotonic = (\<lambda>w. (0, w)), dr_dice = (\<lambda>w. (0, w)),
     dr_no_result = (\<lambda>e. False), dr_exc_repr = (\<lambda>e. ''error''), dr_arrow_types = (\<lambda>t. [])\<rparr>"

text \<open>One handle, one registered template whose engine object is the snapshot engine of \<open>/e\<close>.\<close>

definition demo_hub :: "unit hub" where
  "demo_hub = \<lparr>hb_router = Some (new_router None (Some (reg_register (demo_engine\<lparr>engine := Some 0\<rparr>) empty_registry))),
     hb_stage = ([new_process_engine ''eng-1'' ''/e'' ''/d'' []], demo_machine), hb_refs = 1\<rparr>"

definition demo_handle :: connection where
  "demo_handle = new_connection 0 True None False None"

lemma demo_routed:
  "map_option res_rows (cn_current (fst (snd (execute (demo_driver (Inr ())) ''select'' NoParams (demo_handle, demo_hub)))))
     = Some [[PInt 1]]"
  by code_simp

lemma finite_demo: "finite_engine demo_host" "finite_duck (demo_duck answer)"
proof -
  have one: "finite_table one_row" by (simp add: finite_table_def one_row_def rows_of_def finite_cell_def)
  then show "finite_duck (demo_duck answer)" by (simp add: finite_duck_def demo_duck_def return_eff_def)
  have "finite_table t" if b: "demo_batch h ls env (es, w) = (r, es', w')"
    and p: "map_of es' p = Some (Data (Complete t n))" "\<forall>x. map_of es p \<noteq> Some (Data x)" for h ls env es w r es' w' p t n
  proof (cases ls)
    case Nil
    with that show ?thesis by (simp add: demo_batch_def)
  next
    case (Cons l ls')
    with b obtain k where "es' = AList.update k (Data (Complete one_row 8)) es"
      by (auto simp: demo_batch_def Let_def)
    with p one show ?thesis by (auto simp: update_conv' split: if_splits)
  qed
  then show "finite_engine demo_host" by (auto simp: finite_engine_def demo_host_def)
qed


theorem execute_serves_trusted_witness:
  "\<exists>s1 s2 s' d. execute (demo_driver (Inr ())) ''select'' NoParams (demo_handle, demo_hub) = (Inr (), s') \<and>
    fst (con_fetchall (demo_driver (Inr ())) s') = Inr [[PInt 1]] \<and>
    routed_here (demo_driver (Inr ())) ''select'' NoParams s1 d s2 \<and> d_routed d \<and> snd s' = snd s2"
proof -
  let ?D = "demo_driver (Inr ())" and ?s = "(demo_handle, demo_hub)"
  have "fst (execute ?D ''select'' NoParams ?s) = Inr ()" by code_simp
  moreover obtain x s' where x: "execute ?D ''select'' NoParams ?s = (x, s')" by (cases "execute ?D ''select'' NoParams ?s")
  ultimately have e: "execute ?D ''select'' NoParams ?s = (Inr (), s')" by (simp only: fst_conv)
  with demo_routed have c: "map_option res_rows (cn_current (fst s')) = Some [[PInt 1]]" by simp
  then have n: "cn_current (fst s') \<noteq> None" by auto
  from execute_serves_trusted [OF e] n obtain s1 s2 d res where d:
    "routed_here ?D ''select'' NoParams s1 d s2" "d_routed d" "d_result d = Some res" "snd s' = snd s2"
    "cn_current (fst s') = Some (new_result (sr_table res) (sr_types res))"
    "fst (con_fetchall ?D s') = Inr (rows_of (sr_table res))" by blast
  with c have "rows_of (sr_table res) = [[PInt 1]]" by (simp add: new_result_def)
  with e d(1,2,4,6) show ?thesis by (metis (no_types))
qed


theorem ingest_data_counts_warm_witness:
  "\<exists>s'. synno_ingest_data (demo_driver (Inr ())) (demo_handle, demo_hub) = (1, s') \<and>
    1 \<le> card (warm_refs (bound_refs (reg_bindings (registry (the (hb_router demo_hub))))) (fst (hb_stage (snd s'))))"
proof -
  let ?r = "synno_ingest_data (demo_driver (Inr ())) (demo_handle, demo_hub)"
  have "fst ?r = 1" by code_simp
  moreover obtain n s' where x: "?r = (n, s')" by (cases ?r)
  ultimately have e: "?r = (1, s')" by (simp only: fst_conv)
  from ingest_data_counts_warm [OF e, of "the (hb_router demo_hub)"] e show ?thesis by (simp add: demo_hub_def)
qed

end
