(* ===== verification/Query_Template.thy ===== *)
theory Query_Template
  imports Engine_Wire Py_Effects
begin

text \<open>
  Templated workload queries (the text half of \<open>workloads/query_params.py\<close>): finding the
  \<open>[PLACEHOLDER]\<close> holes of a template, filling them with the rendered values, and moving the
  quotes of extracted literals from the values into the template. The two regular expressions
  are written as scanners.
\<close>

section \<open>Placeholders\<close>

definition is_name_char :: "char \<Rightarrow> bool" where
  "is_name_char c \<longleftrightarrow> is_upper_char c \<or> is_digit_char c \<or> c = CHR ''_''"

definition is_placeholder_name :: "string \<Rightarrow> bool" where
  "is_placeholder_name n \<longleftrightarrow> n \<noteq> [] \<and> is_upper_char (hd n) \<and> list_all is_name_char n"

text \<open>The name of the hole whose opening bracket has just been read.\<close>

definition hole_at :: "string \<Rightarrow> string option" where
  "hole_at s = (let n = takeWhile is_name_char s; r = drop (length n) s
     in if is_placeholder_name n \<and> r \<noteq> [] \<and> hd r = CHR '']'' then Some n else None)"

function holes :: "string \<Rightarrow> string list" where
  "holes [] = []"
| "holes (c # s) =
     (if c = CHR ''['' then
        (case hole_at s of Some n \<Rightarrow> n # holes (drop (Suc (length n)) s) | None \<Rightarrow> holes s)
      else holes s)"
  by pat_completeness auto
termination
  by (relation "measure length") auto

text \<open>The keys of a dictionary filled in this order: first occurrences.\<close>

definition first_keys :: "'a list \<Rightarrow> 'a list" where
  "first_keys xs = rev (remdups (rev xs))"

definition find_placeholders :: "string \<Rightarrow> string list" where
  "find_placeholders sql = first_keys (holes sql)"

section \<open>Filling a template\<close>

definition hole :: "string \<Rightarrow> string" where
  "hole n = CHR ''['' # n @ [CHR '']'']"

text \<open>The engine is sent text only.\<close>

definition coerce_for_engine :: "py_fmt \<Rightarrow> pyval \<Rightarrow> string" where
  "coerce_for_engine F v = (case v of
     PList vs \<Rightarrow> render_in_list F vs
   | PTuple vs \<Rightarrow> render_in_list F vs
   | PDate d \<Rightarrow> drepr F d
   | PDec c e \<Rightarrow> dec_fixed c e
   | PFloat a \<Rightarrow> frepr F a
   | _ \<Rightarrow> py_str (frepr F) (drepr F) v)"

definition substitute :: "py_fmt \<Rightarrow> string \<Rightarrow> (string \<times> pyval) list \<Rightarrow> string" where
  "substitute F template asg =
     foldl (\<lambda>sql pv. py_replace (hole (fst pv)) (render_value F (snd pv)) sql) template asg"

section \<open>Quoted literals\<close>

text \<open>The inside of \<open>'(?:[^']|'')*'\<close>: every quote is doubled.\<close>

fun quotes_doubled :: "string \<Rightarrow> bool" where
  "quotes_doubled [] = True"
| "quotes_doubled (c # s) =
     (if c = CHR 0x27 then (case s of d # t \<Rightarrow> d = CHR 0x27 \<and> quotes_doubled t | [] \<Rightarrow> False)
      else quotes_doubled s)"

definition unquoted :: "string \<Rightarrow> string" where
  "unquoted s = butlast (tl s)"

definition is_quoted_literal :: "pyval \<Rightarrow> bool" where
  "is_quoted_literal v = (case v of
     PStr s \<Rightarrow> 2 \<le> length s \<and> hd s = CHR 0x27 \<and> last s = CHR 0x27 \<and> quotes_doubled (unquoted s)
   | _ \<Rightarrow> False)"

definition has_embedded_quote :: "pyval \<Rightarrow> bool" where
  "has_embedded_quote v = (case v of PStr s \<Rightarrow> CHR 0x27 \<in> set (unquoted s) | _ \<Rightarrow> False)"

definition strip_quotes :: "pyval \<Rightarrow> pyval" where
  "strip_quotes v = (case v of PStr s \<Rightarrow> PStr (unquoted s) | _ \<Rightarrow> v)"

definition row_cell :: "nat \<Rightarrow> pyval list \<Rightarrow> py_error + pyval" where
  "row_cell col row = (if col < length row then Inr (row ! col) else Inl IndexError)"

text \<open>One column: left alone when no value is quoted, refused when quoting is not uniform.\<close>

definition hoist_column ::
  "nat \<Rightarrow> string \<Rightarrow> string \<times> pyval list list \<Rightarrow> py_error + string \<times> pyval list list" where
  "hoist_column col name st =
     (let template = fst st; rows = snd st in
      ebind (traverse_e (row_cell col) rows) (\<lambda>values.
        let quoted = filter is_quoted_literal values in
        if quoted = [] then Inr (template, rows)
        else if list_ex has_embedded_quote quoted then
          Inl (ValueError ''contains an embedded quote'')
        else if length quoted \<noteq> length values then
          Inl (ValueError ''cannot hoist quotes - values mix quoted literals with other shapes'')
        else if \<not> py_contains (hole name) template then
          Inl (ValueError ''does not occur in the template'')
        else Inr (py_replace (hole name) ([CHR 0x27] @ hole name @ [CHR 0x27]) template,
                  map (\<lambda>row. row[col := strip_quotes (row ! col)]) rows)))"

fun hoist_from ::
  "nat \<Rightarrow> string list \<Rightarrow> string \<times> pyval list list \<Rightarrow> py_error + string \<times> pyval list list" where
  "hoist_from col [] st = Inr st"
| "hoist_from col (name # names) st = ebind (hoist_column col name st) (hoist_from (Suc col) names)"

definition hoist_literal_quotes ::
  "string \<Rightarrow> string list \<Rightarrow> pyval list list \<Rightarrow> py_error + string \<times> pyval list list" where
  "hoist_literal_quotes template phs rows = hoist_from 0 phs (template, rows)"

section \<open>Simultaneous substitution\<close>

text \<open>
  The meaning of filling: one pass over the template in which every bracketed name with a value
  is replaced. The sequential replacement computes it when brackets in the template are closed and
  not nested and the rendered values open no bracket.
\<close>

definition bracket_free :: "string \<Rightarrow> bool" where
  "bracket_free s \<longleftrightarrow> CHR ''['' \<notin> set s \<and> CHR '']'' \<notin> set s"

definition bracket_inner :: "string \<Rightarrow> string" where
  "bracket_inner s = takeWhile (\<lambda>c. c \<noteq> CHR ''['' \<and> c \<noteq> CHR '']'') s"

definition bracket_closes :: "string \<Rightarrow> bool" where
  "bracket_closes s \<longleftrightarrow> (case drop (length (bracket_inner s)) s of [] \<Rightarrow> False | c # t \<Rightarrow> c = CHR '']'')"

function brackets_ok :: "string \<Rightarrow> bool" where
  "brackets_ok [] = True"
| "brackets_ok (c # s) =
     (if c = CHR ''['' then bracket_closes s \<and> brackets_ok (drop (Suc (length (bracket_inner s))) s)
      else brackets_ok s)"
  by pat_completeness auto
termination
  by (relation "measure length") auto

function fill :: "(string \<Rightarrow> string option) \<Rightarrow> string \<Rightarrow> string" where
  "fill \<sigma> [] = []"
| "fill \<sigma> (c # s) =
     (if c = CHR ''['' \<and> bracket_closes s then
        (case \<sigma> (bracket_inner s) of Some v \<Rightarrow> v | None \<Rightarrow> hole (bracket_inner s))
        @ fill \<sigma> (drop (Suc (length (bracket_inner s))) s)
      else c # fill \<sigma> s)"
  by pat_completeness auto
termination
  by (relation "measure (\<lambda>(\<sigma>, s). length s)") auto

lemma bracket_inner_free: "bracket_free (bracket_inner s)"
  unfolding bracket_free_def bracket_inner_def by (auto dest: set_takeWhileD)

lemma bracket_closes_split:
  assumes "bracket_closes s"
  shows "s = bracket_inner s @ CHR '']'' # drop (Suc (length (bracket_inner s))) s"
proof -
  from assms obtain t where "drop (length (bracket_inner s)) s = CHR '']'' # t"
    by (auto simp: bracket_closes_def split: list.splits)
  then have "s = bracket_inner s @ CHR '']'' # t"
    by (metis append_take_drop_id bracket_inner_def takeWhile_eq_take)
  then show ?thesis by (metis append_eq_conv_conj length_append_singleton append.assoc append_Cons append_Nil)
qed

lemma inner_hole: "bracket_free n \<Longrightarrow> bracket_inner (n @ CHR '']'' # s) = n"
  unfolding bracket_free_def bracket_inner_def by (subst takeWhile_append2) auto

lemma closes_hole: "bracket_free n \<Longrightarrow> bracket_closes (n @ CHR '']'' # s)"
  by (simp add: bracket_closes_def inner_hole)

lemma fill_hole:
  "bracket_free n \<Longrightarrow> fill \<sigma> (hole n @ s) = (case \<sigma> n of Some v \<Rightarrow> v | None \<Rightarrow> hole n) @ fill \<sigma> s"
  by (simp add: hole_def closes_hole inner_hole split: option.split)

lemma fill_text: "CHR ''['' \<notin> set u \<Longrightarrow> fill \<sigma> (u @ s) = u @ fill \<sigma> s"
  by (induction u) auto

lemma brackets_ok_hole: "bracket_free n \<Longrightarrow> brackets_ok (hole n @ s) = brackets_ok s"
  by (simp add: hole_def closes_hole inner_hole)

lemma brackets_ok_text: "CHR ''['' \<notin> set u \<Longrightarrow> brackets_ok (u @ s) = brackets_ok s"
  by (induction u) auto

text \<open>Templates are built from plain characters and holes.\<close>

lemma brackets_induct [consumes 1, case_names Nil Char Hole]:
  assumes "brackets_ok s" and "P []"
    and "\<And>c s. c \<noteq> CHR ''['' \<Longrightarrow> brackets_ok s \<Longrightarrow> P s \<Longrightarrow> P (c # s)"
    and "\<And>n s. bracket_free n \<Longrightarrow> brackets_ok s \<Longrightarrow> P s \<Longrightarrow> P (hole n @ s)"
  shows "P s"
  using assms(1)
proof (induction s rule: brackets_ok.induct)
  case 1
  show ?case by (rule assms(2))
next
  case (2 c s)
  show ?case
  proof (cases "c = CHR ''[''")
    case True
    let ?r = "drop (Suc (length (bracket_inner s))) s"
    from True 2(3) have c: "bracket_closes s" and ok: "brackets_ok ?r" by auto
    from 2(1) [OF True ok] assms(4) [OF bracket_inner_free ok] have "P (hole (bracket_inner s) @ ?r)" by blast
    moreover have "c # s = hole (bracket_inner s) @ ?r"
      using bracket_closes_split [OF c] True by (simp add: hole_def)
    ultimately show ?thesis by simp
  next
    case False
    with 2 assms(3) show ?thesis by auto
  qed
qed

lemma hole_neq: "bracket_free n \<Longrightarrow> bracket_free m \<Longrightarrow> n \<noteq> m \<Longrightarrow> \<not> py_startswith (hole n @ s) (hole m)"
  unfolding py_startswith_iff hole_def
  by (metis append.assoc append_Cons append_Nil inner_hole list.inject)

lemma replace_other_hole:
  assumes "bracket_free n" "bracket_free m" "n \<noteq> m"
  shows "py_replace (hole m) v (hole n @ s) = hole n @ py_replace (hole m) v s"
proof -
  have "py_replace (hole m) v (hole n @ s) = CHR ''['' # py_replace (hole m) v ((n @ [CHR '']'']) @ s)"
    using hole_neq [OF assms, of s] by (simp add: hole_def)
  also have "py_replace (hole m) v ((n @ [CHR '']'']) @ s) = (n @ [CHR '']'']) @ py_replace (hole m) v s"
    using assms(1) by (intro py_replace_skip) (auto simp: hole_def bracket_free_def)
  finally show ?thesis by (simp add: hole_def)
qed

lemma replace_hole: "py_replace (hole n) v (hole n @ s) = v @ py_replace (hole n) v s"
  by (rule py_replace_hit) (simp add: hole_def)

lemma replace_char: "c \<noteq> CHR ''['' \<Longrightarrow> py_replace (hole n) v (c # s) = c # py_replace (hole n) v s"
  by (simp add: py_startswith_def hole_def)

lemma replace_fill:
  assumes "brackets_ok s" "bracket_free m" "\<sigma> m = None"
    and v: "\<And>n v. \<sigma> n = Some v \<Longrightarrow> CHR ''['' \<notin> set v"
    and t: "\<tau> m = Some v" "\<And>n. n \<noteq> m \<Longrightarrow> \<tau> n = \<sigma> n"
  shows "py_replace (hole m) v (fill \<sigma> s) = fill \<tau> s"
  using assms(1)
proof (induction s rule: brackets_induct)
  case (Char c s)
  then show ?case by (simp del: py_replace.simps add: replace_char)
next
  case (Hole n s)
  consider "n = m" | "n \<noteq> m" "\<sigma> n = None" | u where "n \<noteq> m" "\<sigma> n = Some u" by blast
  then show ?case
  proof cases
    case 1
    then show ?thesis using assms(3) t(1) Hole by (simp add: fill_hole replace_hole)
  next
    case 2
    then show ?thesis using t(2) [of n] Hole assms(2) by (simp add: fill_hole replace_other_hole)
  next
    case 3
    then have "py_replace (hole m) v (u @ fill \<sigma> s) = u @ py_replace (hole m) v (fill \<sigma> s)"
      using v [of n u] by (intro py_replace_skip) (simp add: hole_def)
    then show ?thesis using 3 t(2) [of n] Hole by (simp add: fill_hole)
  qed
qed simp

definition renders_plain :: "py_fmt \<Rightarrow> (string \<times> pyval) list \<Rightarrow> bool" where
  "renders_plain F asg \<longleftrightarrow> list_all (\<lambda>(n, v). bracket_free n \<and> CHR ''['' \<notin> set (render_value F v)) asg"

definition rendered :: "py_fmt \<Rightarrow> (string \<times> pyval) list \<Rightarrow> string \<Rightarrow> string option" where
  "rendered F asg = map_of (map (\<lambda>(n, v). (n, render_value F v)) asg)"

lemma fill_empty: "brackets_ok s \<Longrightarrow> fill Map.empty s = s"
  by (induction s rule: brackets_induct) (simp_all add: fill_hole)

lemma rendered_Cons:
  "rendered F ((n, v) # asg) = (rendered F asg)(n \<mapsto> render_value F v)"
  by (simp add: rendered_def)

lemma rendered_None: "n \<notin> fst ` set asg \<Longrightarrow> rendered F asg n = None"
  by (induction asg) (auto simp: rendered_def)

lemma substitute_fill:
  assumes "brackets_ok t" "\<And>n v. \<sigma> n = Some v \<Longrightarrow> CHR ''['' \<notin> set v"
    "renders_plain F asg" "distinct (map fst asg)" "\<And>n. n \<in> fst ` set asg \<Longrightarrow> \<sigma> n = None"
  shows "substitute F (fill \<sigma> t) asg = fill (\<lambda>n. case rendered F asg n of Some v \<Rightarrow> Some v | None \<Rightarrow> \<sigma> n) t"
  using assms(2-)
proof (induction asg arbitrary: \<sigma>)
  case Nil
  then show ?case by (simp add: substitute_def rendered_def)
next
  case (Cons p asg)
  obtain n v where p: "p = (n, v)" by (cases p)
  define \<tau> where "\<tau> = (\<lambda>m. if m = n then Some (render_value F v) else \<sigma> m)"
  have n: "bracket_free n" "CHR ''['' \<notin> set (render_value F v)" "renders_plain F asg" "\<sigma> n = None"
    using Cons.prems p by (auto simp: renders_plain_def)
  have "py_replace (hole n) (render_value F v) (fill \<sigma> t) = fill \<tau> t"
    using assms(1) n Cons.prems(1) by (intro replace_fill) (auto simp: \<tau>_def)
  then have "substitute F (fill \<sigma> t) (p # asg) = substitute F (fill \<tau> t) asg"
    by (simp add: substitute_def p)
  also have "\<dots> = fill (\<lambda>n. case rendered F asg n of Some v \<Rightarrow> Some v | None \<Rightarrow> \<tau> n) t"
    using Cons.prems n p by (intro Cons.IH) (auto simp: \<tau>_def split: if_splits)
  also have "(\<lambda>n. case rendered F asg n of Some v \<Rightarrow> Some v | None \<Rightarrow> \<tau> n) =
      (\<lambda>n. case rendered F (p # asg) n of Some v \<Rightarrow> Some v | None \<Rightarrow> \<sigma> n)"
    using Cons.prems(3) rendered_None [of n asg F]
    by (auto simp: \<tau>_def p rendered_Cons fun_eq_iff split: option.splits)
  finally show ?case .
qed

text \<open>
  C29. Filling a template is simultaneous: for a template whose brackets are closed and not nested
  and values that render without an opening bracket, replacing the holes one placeholder after the
  other gives the one-pass substitution, whatever the order of the assignment; a value that holds
  text looking like another hole is never expanded.
\<close>

theorem substitution_simultaneous:
  assumes "brackets_ok template" "renders_plain F asg" "distinct (map fst asg)"
  shows "substitute F template asg = fill (rendered F asg) template"
  using substitute_fill [of template Map.empty F asg] assms
  by (simp add: fill_empty option.case_eq_if cong: if_cong)

theorem substitution_simultaneous_witness:
  "substitute plain_fmt ''a=[A] and b=[B1] or [A]'' [(''B1'', PInt 7), (''A'', PStr ''B1]'')]
     = ''a=B1] and b=7 or B1]''"
proof -
  let ?asg = "[(''B1'', PInt 7), (''A'', PStr ''B1]'')]"
  have "brackets_ok ''a=[A] and b=[B1] or [A]''" by code_simp
  moreover have "renders_plain plain_fmt ?asg" by code_simp
  moreover have "distinct (map fst ?asg)" by simp
  ultimately have "substitute plain_fmt ''a=[A] and b=[B1] or [A]'' ?asg =
      fill (rendered plain_fmt ?asg) ''a=[A] and b=[B1] or [A]''"
    by (rule substitution_simultaneous)
  also have "\<dots> = ''a=B1] and b=7 or B1]''" by code_simp
  finally show ?thesis .
qed

text \<open>Without the proviso the order of the assignment shows: a value may open another hole.\<close>

lemma substitution_order_matters:
  "substitute plain_fmt ''[A]'' [(''A'', PStr ''[B]''), (''B'', PInt 1)] = ''1''"
  "substitute plain_fmt ''[A]'' [(''B'', PInt 1), (''A'', PStr ''[B]'')] = ''[B]''"
  by code_simp+

text \<open>The engine argument and the substituted text are the same literal.\<close>

lemma coerce_render: "coerce_for_engine F v = render_value F v"
  by (simp add: coerce_for_engine_def render_value_def)

lemma render_coerced [simp]: "render_value F (PStr (coerce_for_engine F v)) = render_value F v"
  by (simp add: coerce_render) (simp add: render_value_def py_str_def)

section \<open>Hoisting the quotes\<close>

definition quote_hole :: "string \<Rightarrow> string" where
  "quote_hole n = CHR 0x27 # hole n @ [CHR 0x27]"

lemma fill_quoted:
  assumes "brackets_ok s" "bracket_free m" "\<tau> m = Some u"
    and t: "\<sigma> m = Some (CHR 0x27 # u @ [CHR 0x27])" "\<And>n. n \<noteq> m \<Longrightarrow> \<sigma> n = \<tau> n"
  shows "brackets_ok (py_replace (hole m) (quote_hole m) s) \<and>
    fill \<tau> (py_replace (hole m) (quote_hole m) s) = fill \<sigma> s"
  using assms(1)
proof (induction s rule: brackets_induct)
  case (Char c s)
  then show ?case by (simp del: py_replace.simps add: replace_char)
next
  case (Hole n s)
  show ?case
  proof (cases "n = m")
    case True
    then show ?thesis using Hole assms(3) t(1)
      by (simp add: replace_hole quote_hole_def fill_hole brackets_ok_hole)
  next
    case False
    then show ?thesis using Hole assms(2) t(2) [of n]
      by (simp add: replace_other_hole fill_hole brackets_ok_hole)
  qed
qed simp

lemma rendered_zip:
  assumes "distinct phs" "length row = length phs" "j < length phs"
  shows "rendered F (zip phs row) (phs ! j) = Some (render_value F (row ! j))"
proof -
  have "rendered F (zip phs row) = map_of (zip phs (map (render_value F) row))"
    by (simp add: rendered_def zip_map2)
  then show ?thesis using assms by (simp add: map_of_zip_nth)
qed

lemma rendered_zip_update:
  assumes "distinct phs" "length row = length phs" "j < length phs" "n \<noteq> phs ! j"
  shows "rendered F (zip phs (row[j := v])) n = rendered F (zip phs row) n"
proof (cases "n \<in> set phs")
  case True
  then obtain k where k: "k < length phs" "n = phs ! k" by (auto simp: in_set_conv_nth)
  with assms(4) have "k \<noteq> j" by auto
  then show ?thesis using assms k by (simp add: rendered_zip)
next
  case False
  then have z: "n \<notin> fst ` set (zip phs r)" for r :: "pyval list" by (auto dest: set_zip_leftD)
  show ?thesis using rendered_None [OF z] rendered_None [OF z] by metis
qed

lemma quoted_literal_cases:
  assumes "is_quoted_literal v"
  obtains u where "v = PStr (CHR 0x27 # u @ [CHR 0x27])" "strip_quotes v = PStr u"
proof -
  from assms obtain s where v: "v = PStr s" and s: "2 \<le> length s" "hd s = CHR 0x27" "last s = CHR 0x27"
    by (auto simp: is_quoted_literal_def split: pyval.splits)
  then obtain a b t where "s = a # b # t" by (cases s; cases "tl s") auto
  then have "s = CHR 0x27 # unquoted s @ [CHR 0x27]"
    using s by (simp add: unquoted_def) (metis append_butlast_last_id list.distinct(1))
  then show thesis using that [of "unquoted s"] v by (simp add: strip_quotes_def)
qed

lemma render_str [simp]: "render_value F (PStr s) = s"
  by (simp add: render_value_def py_str_def)

text \<open>What holds after the first columns: the text is unchanged and their values are bare.\<close>

definition hoisted_upto ::
  "py_fmt \<Rightarrow> string list \<Rightarrow> string \<Rightarrow> pyval list list \<Rightarrow> nat \<Rightarrow> string \<times> pyval list list \<Rightarrow> bool" where
  "hoisted_upto F phs template rows col st \<longleftrightarrow>
     brackets_ok (fst st) \<and> length (snd st) = length rows \<and>
     (\<forall>i < length rows. let row = snd st ! i in
        length row = length phs \<and> renders_plain F (zip phs row) \<and>
        list_all (\<lambda>v. \<not> is_quoted_literal v) (take col row) \<and>
        fill (rendered F (zip phs row)) (fst st) = fill (rendered F (zip phs (rows ! i))) template)"

lemma traverse_cells:
  "traverse_e (row_cell col) rows = Inr vs \<Longrightarrow> vs = map (\<lambda>row. row ! col) rows"
  by (induction rows arbitrary: vs) (auto simp: ebind_Inr_iff row_cell_def split: if_splits)

lemma hoist_column_cases:
  assumes "hoist_column col name (t, rs) = Inr (t', rs')"
  obtains "list_all (\<lambda>row. \<not> is_quoted_literal (row ! col)) rs" "t' = t" "rs' = rs"
  | "list_all (\<lambda>row. is_quoted_literal (row ! col) \<and> \<not> has_embedded_quote (row ! col)) rs"
    "t' = py_replace (hole name) (quote_hole name) t"
    "rs' = map (\<lambda>row. row[col := strip_quotes (row ! col)]) rs"
proof -
  let ?vs = "map (\<lambda>row. row ! col) rs"
  from assms have tr: "traverse_e (row_cell col) rs = Inr ?vs"
    by (auto simp: hoist_column_def Let_def ebind_Inr_iff dest: traverse_cells)
  show thesis
  proof (cases "filter is_quoted_literal ?vs = []")
    case True
    with assms tr have r: "t' = t" "rs' = rs" by (simp_all add: hoist_column_def Let_def)
    from True have "list_all (\<lambda>row. \<not> is_quoted_literal (row ! col)) rs"
      by (simp add: filter_empty_conv list_all_iff)
    with r that(1) show thesis by blast
  next
    case False
    with assms tr have e: "\<not> list_ex has_embedded_quote (filter is_quoted_literal ?vs)"
      "length (filter is_quoted_literal ?vs) = length ?vs"
      and r: "t' = py_replace (hole name) (quote_hole name) t"
        "rs' = map (\<lambda>row. row[col := strip_quotes (row ! col)]) rs"
      by (auto simp: hoist_column_def Let_def quote_hole_def split: if_splits)
    have f: "filter is_quoted_literal ?vs = ?vs"
      using length_filter_less [of _ ?vs is_quoted_literal] e(2)
      by (intro filter_True) (metis less_irrefl)
    then have q: "list_all is_quoted_literal ?vs" by (simp only: filter_id_conv list_all_iff)
    with e(1) f have "list_all (\<lambda>row. is_quoted_literal (row ! col) \<and> \<not> has_embedded_quote (row ! col)) rs"
      by (auto simp: list_all_iff list_ex_iff)
    then show thesis using r that(2) by blast
  qed
qed

lemma stripped_bare: "is_quoted_literal v \<Longrightarrow> \<not> has_embedded_quote v \<Longrightarrow> \<not> is_quoted_literal (strip_quotes v)"
  by (auto simp: is_quoted_literal_def has_embedded_quote_def strip_quotes_def split: pyval.splits)
    (metis hd_in_set list.size(3) not_numeral_le_zero)

lemma renders_plain_zip:
  "length row = length phs \<Longrightarrow> renders_plain F (zip phs row) \<longleftrightarrow>
     (\<forall>j < length phs. bracket_free (phs ! j) \<and> CHR ''['' \<notin> set (render_value F (row ! j)))"
  by (simp add: renders_plain_def list_all_length)

lemma renders_plain_update:
  assumes "renders_plain F (zip phs row)" "length row = length phs" "CHR ''['' \<notin> set (render_value F v)"
  shows "renders_plain F (zip phs (row[j := v]))"
  using assms by (cases "j < length phs") (auto simp: renders_plain_zip nth_list_update)

lemma hoist_row:
  assumes ok: "brackets_ok t" and d: "distinct phs" "j < length phs" "length row = length phs"
    and pl: "renders_plain F (zip phs row)"
    and q: "is_quoted_literal (row ! j)"
  defines "row' \<equiv> row[j := strip_quotes (row ! j)]"
    and "t' \<equiv> py_replace (hole (phs ! j)) (quote_hole (phs ! j)) t"
  shows "brackets_ok t' \<and> renders_plain F (zip phs row') \<and>
    fill (rendered F (zip phs row')) t' = fill (rendered F (zip phs row)) t"
proof -
  obtain u where u: "row ! j = PStr (CHR 0x27 # u @ [CHR 0x27])" "strip_quotes (row ! j) = PStr u"
    using q by (rule quoted_literal_cases)
  have b: "bracket_free (phs ! j)" "CHR ''['' \<notin> set (render_value F (row ! j))"
    using pl d by (auto simp: renders_plain_def list_all_length)
  then have "renders_plain F (zip phs row')"
    using renders_plain_update [OF pl d(3), of "PStr u" j] u by (simp add: row'_def)
  moreover have "brackets_ok t' \<and> fill (rendered F (zip phs row')) t' = fill (rendered F (zip phs row)) t"
    unfolding t'_def using ok b(1)
  proof (rule fill_quoted)
    show "rendered F (zip phs row') (phs ! j) = Some u"
      using rendered_zip [of phs row' j F] d u by (simp add: row'_def)
    show "rendered F (zip phs row) (phs ! j) = Some (CHR 0x27 # u @ [CHR 0x27])"
      using rendered_zip [of phs row j F] d u by simp
    show "rendered F (zip phs row) n = rendered F (zip phs row') n" if "n \<noteq> phs ! j" for n
      using rendered_zip_update [OF d(1,3,2) that] by (simp add: row'_def)
  qed
  ultimately show ?thesis by blast
qed

lemma hoist_column_upto:
  assumes inv: "hoisted_upto F phs template rows col st" and "distinct phs" "col < length phs"
    and h: "hoist_column col (phs ! col) st = Inr st'" and "rows \<noteq> []"
  shows "hoisted_upto F phs template rows (Suc col) st'"
proof -
  obtain t rs t' rs' where st: "st = (t, rs)" "st' = (t', rs')" by (cases st; cases st') auto
  have tk: "list_all P (take (Suc col) row) \<longleftrightarrow> list_all P (take col row) \<and> P (row ! col)"
    if "length row = length phs" for P and row :: "pyval list"
    using that assms(3) by (simp add: take_Suc_conv_app_nth)
  from h st have "hoist_column col (phs ! col) (t, rs) = Inr (t', rs')" by simp
  then show ?thesis
  proof (cases rule: hoist_column_cases)
    case 1
    have "\<forall>i < length rows. \<not> is_quoted_literal (rs ! i ! col)"
      using 1(1) inv st by (simp add: hoisted_upto_def list_all_length)
    then show ?thesis using inv st tk 1(2,3) by (simp add: hoisted_upto_def Let_def)
  next
    case 2
    have row: "brackets_ok t' \<and> length (rs' ! i) = length phs \<and> renders_plain F (zip phs (rs' ! i)) \<and>
        list_all (\<lambda>v. \<not> is_quoted_literal v) (take (Suc col) (rs' ! i)) \<and>
        fill (rendered F (zip phs (rs' ! i))) t' = fill (rendered F (zip phs (rows ! i))) template"
      if i: "i < length rows" for i
    proof -
      have l: "length (rs ! i) = length phs" "renders_plain F (zip phs (rs ! i))" "brackets_ok t" "i < length rs"
        "list_all (\<lambda>v. \<not> is_quoted_literal v) (take col (rs ! i))"
        "fill (rendered F (zip phs (rs ! i))) t = fill (rendered F (zip phs (rows ! i))) template"
        using inv st i by (auto simp: hoisted_upto_def Let_def)
      have q: "is_quoted_literal (rs ! i ! col)" "\<not> has_embedded_quote (rs ! i ! col)"
        using 2(1) l(4) by (auto simp: list_all_length)
      have r: "rs' ! i = (rs ! i)[col := strip_quotes (rs ! i ! col)]" using 2(3) l(4) by simp
      then show ?thesis
        using hoist_row [OF l(3) assms(2,3) l(1,2) q(1)] 2(2) l stripped_bare [OF q] assms(3) tk [of "rs' ! i"]
        by simp
    qed
    then have "brackets_ok t'" using assms(5) by (metis length_greater_0_conv)
    moreover have "length rs' = length rows" using inv st 2(3) by (simp add: hoisted_upto_def)
    ultimately show ?thesis using row st by (simp add: hoisted_upto_def)
  qed
qed

lemma hoist_from_upto:
  assumes "hoisted_upto F phs template rows col st" "distinct phs" "rows \<noteq> []" "col \<le> length phs"
    "hoist_from col (drop col phs) st = Inr st'"
  shows "hoisted_upto F phs template rows (length phs) st'"
  using assms
proof (induction "length phs - col" arbitrary: col st)
  case 0
  then show ?case by simp
next
  case (Suc k)
  then have c: "col < length phs" by simp
  then have "drop col phs = phs ! col # drop (Suc col) phs" by (simp add: Cons_nth_drop_Suc)
  with Suc.prems(5) obtain st1 where h: "hoist_column col (phs ! col) st = Inr st1"
    "hoist_from (Suc col) (drop (Suc col) phs) st1 = Inr st'"
    by (auto simp: ebind_Inr_iff)
  show ?case
    using Suc.hyps(1) [OF _ hoist_column_upto [OF Suc.prems(1,2) c h(1) Suc.prems(3)] Suc.prems(2,3) _ h(2)]
      Suc.hyps(2) c by simp
qed

text \<open>
  C30. Hoisting changes where the quotes are written, not the query: when every row gives one value
  per placeholder, brackets are well formed and values open none, each row substituted into the
  hoisted template gives the same text as before, and no value is a quoted literal any more.
\<close>

theorem hoist_keeps_sql:
  assumes "hoist_literal_quotes template phs rows = Inr (template', rows')"
    and "brackets_ok template" "distinct phs" "rows \<noteq> []"
    and "list_all (\<lambda>row. length row = length phs \<and> renders_plain F (zip phs row)) rows"
  shows "length rows' = length rows \<and>
    (\<forall>i < length rows.
       substitute F template' (zip phs (rows' ! i)) = substitute F template (zip phs (rows ! i)) \<and>
       list_all (\<lambda>v. \<not> is_quoted_literal v) (rows' ! i))"
proof -
  have "hoisted_upto F phs template rows 0 (template, rows)"
    using assms(2,5) by (simp add: hoisted_upto_def list_all_length)
  from hoist_from_upto [OF this assms(3,4)] assms(1)
  have h: "hoisted_upto F phs template rows (length phs) (template', rows')"
    by (simp add: hoist_literal_quotes_def)
  have "substitute F s (zip phs row) = fill (rendered F (zip phs row)) s"
    if "brackets_ok s" "renders_plain F (zip phs row)" "length row = length phs" for s row
    using substitute_fill [of s Map.empty F "zip phs row"] that assms(3)
    by (simp add: fill_empty option.case_eq_if cong: if_cong)
  then show ?thesis using h assms(2,5) by (auto simp: hoisted_upto_def Let_def list_all_length)
qed

theorem hoist_keeps_sql_witness:
  "\<exists>template' rows'. hoist_literal_quotes ''site=[SITE] and id=[N]'' [''SITE'', ''N'']
       [[PStr (CHR 0x27 # ''scifi'' @ [CHR 0x27]), PInt 3]] = Inr (template', rows') \<and>
     rows' = [[PStr ''scifi'', PInt 3]] \<and>
     substitute plain_fmt template' (zip [''SITE'', ''N''] (rows' ! 0))
       = substitute plain_fmt ''site=[SITE] and id=[N]'' (zip [''SITE'', ''N''] [PStr (CHR 0x27 # ''scifi'' @ [CHR 0x27]), PInt 3])"
proof -
  let ?t = "''site=[SITE] and id=[N]''" and ?phs = "[''SITE'', ''N'']"
    and ?rows = "[[PStr (CHR 0x27 # ''scifi'' @ [CHR 0x27]), PInt 3]]"
  have h: "hoist_literal_quotes ?t ?phs ?rows =
      Inr (''site='' @ quote_hole ''SITE'' @ '' and id=[N]'', [[PStr ''scifi'', PInt 3]])" by code_simp
  have "brackets_ok ?t" by code_simp
  moreover have "distinct ?phs" "?rows \<noteq> []" by simp_all
  moreover have "list_all (\<lambda>row. length row = length ?phs \<and> renders_plain plain_fmt (zip ?phs row)) ?rows" by code_simp
  ultimately show ?thesis using hoist_keeps_sql [OF h, of plain_fmt] h by simp
qed

end
