(* ===== verification/Query_Params.thy ===== *)
theory Query_Params
  imports Query_Template Engine_Manifest
begin

text \<open>
  The typed parameter spaces of templated queries (\<open>workloads/query_params.py\<close>): specs, their
  sampling and metadata, and the parser that validates a query's specs against its template. Raw
  specs are JSON values; the random generator is the record \<open>py_random\<close> of the three draws the
  source makes. Decimal arithmetic is exact (the 28 digits of the default context are not modelled).
\<close>

section \<open>Random draws\<close>

record 'w py_random =
  rnd_between :: "int \<Rightarrow> int \<Rightarrow> 'w \<Rightarrow> int \<times> 'w"
  rnd_index :: "nat \<Rightarrow> 'w \<Rightarrow> nat \<times> 'w"
  rnd_positions :: "nat \<Rightarrow> nat \<Rightarrow> 'w \<Rightarrow> nat list \<times> 'w"

definition randint :: "'w py_random \<Rightarrow> int \<Rightarrow> int \<Rightarrow> ('w, int) eff" where
  "randint R a b w = (if b < a then (Inl (ValueError ''empty range for randrange()''), w)
     else (let (i, w') = rnd_between R a b w in (Inr i, w')))"

definition rnd_choice :: "'w py_random \<Rightarrow> 'a list \<Rightarrow> ('w, 'a) eff" where
  "rnd_choice R xs w = (if xs = [] then (Inl IndexError, w)
     else (let (i, w') = rnd_index R (length xs) w in (Inr (xs ! i), w')))"

definition rnd_sample :: "'w py_random \<Rightarrow> 'a list \<Rightarrow> nat \<Rightarrow> ('w, 'a list) eff" where
  "rnd_sample R xs k w = (if length xs < k then (Inl (ValueError ''Sample larger than population or is negative''), w)
     else (let (ps, w') = rnd_positions R (length xs) k w in (Inr (map (\<lambda>i. xs ! i) ps), w')))"

text \<open>What the library promises of the draws.\<close>

definition draws_in_range :: "'w py_random \<Rightarrow> bool" where
  "draws_in_range R \<longleftrightarrow>
     (\<forall>a b w. a \<le> b \<longrightarrow> a \<le> fst (rnd_between R a b w) \<and> fst (rnd_between R a b w) \<le> b) \<and>
     (\<forall>n w. 0 < n \<longrightarrow> fst (rnd_index R n w) < n) \<and>
     (\<forall>n k w. k \<le> n \<longrightarrow> length (fst (rnd_positions R n k w)) = k \<and>
        distinct (fst (rnd_positions R n k w)) \<and> set (fst (rnd_positions R n k w)) \<subseteq> {..<n})"

lemma randint_draw:
  assumes "draws_in_range R" "a \<le> b"
  obtains i w' where "randint R a b w = (Inr i, w')" "a \<le> i" "i \<le> b"
proof
  show "randint R a b w = (Inr (fst (rnd_between R a b w)), snd (rnd_between R a b w))"
    using assms(2) by (simp add: randint_def split_beta)
qed (use assms in \<open>auto simp: draws_in_range_def\<close>)

lemma rnd_choice_draw:
  assumes "draws_in_range R" "xs \<noteq> []"
  obtains x w' where "rnd_choice R xs w = (Inr x, w')" "x \<in> set xs"
proof
  show "rnd_choice R xs w = (Inr (xs ! fst (rnd_index R (length xs) w)), snd (rnd_index R (length xs) w))"
    using assms(2) by (simp add: rnd_choice_def split_beta)
qed (use assms in \<open>auto simp: draws_in_range_def\<close>)

lemma rnd_sample_draw:
  assumes "draws_in_range R" "k \<le> length xs"
  obtains ps w' where "rnd_sample R xs k w = (Inr (map (\<lambda>i. xs ! i) ps), w')"
    "length ps = k" "distinct ps" "set ps \<subseteq> {..<length xs}"
proof
  show "rnd_sample R xs k w = (Inr (map (\<lambda>i. xs ! i) (fst (rnd_positions R (length xs) k w))),
      snd (rnd_positions R (length xs) k w))"
    using assms(2) by (simp add: rnd_sample_def split_beta)
qed (use assms in \<open>auto simp: draws_in_range_def\<close>)

section \<open>Decimals\<close>

text \<open>\<open>Decimal(s)\<close> of the text of a finite float: sign, digits with a point, exponent.\<close>

definition dec_of_text :: "string \<Rightarrow> (int \<times> int) option" where
  "dec_of_text s =
     (let (neg, body) = split_sign s;
          m = takeWhile (\<lambda>c. c \<noteq> CHR ''e'') body;
          ex = drop (Suc (length m)) body;
          ip = takeWhile (\<lambda>c. c \<noteq> CHR ''.'') m;
          fp = drop (Suc (length ip)) m
      in (case (digits_us (ip @ fp), if length m < length body then py_int_of_str ex else Some 0) of
            (Some c, Some e) \<Rightarrow> Some (if neg then - int c else int c, e - int (length fp))
          | _ \<Rightarrow> None))"

definition dec_of_float :: "py_fmt \<Rightarrow> pyfloat \<Rightarrow> (int \<times> int) option" where
  "dec_of_float F a = (case a of Num (Fin r) \<Rightarrow> dec_of_text (frepr F a) | _ \<Rightarrow> None)"

text \<open>The coefficient at a smaller exponent.\<close>

definition dec_scale :: "int \<times> int \<Rightarrow> int \<Rightarrow> int" where
  "dec_scale d e = fst d * 10 ^ nat (snd d - e)"

definition dec_add_mult :: "int \<times> int \<Rightarrow> int \<times> int \<Rightarrow> int \<Rightarrow> int \<times> int" where
  "dec_add_mult lo st n = (let e = min (snd lo) (snd st)
     in (dec_scale lo e + dec_scale (fst st * n, snd st) e, e))"

text \<open>\<open>int((hi - lo) / step)\<close>.\<close>

definition trunc_div :: "int \<Rightarrow> int \<Rightarrow> int" where
  "trunc_div a b = sgn a * sgn b * (\<bar>a\<bar> div \<bar>b\<bar>)"

definition dec_steps :: "int \<times> int \<Rightarrow> int \<times> int \<Rightarrow> int \<times> int \<Rightarrow> py_error + int" where
  "dec_steps lo hi st =
     (let e = min (snd lo) (min (snd hi) (snd st));
          d = dec_scale hi e - dec_scale lo e
      in if fst st = 0 then (if d = 0 then Inl (InvalidOperation ''0 / 0'') else Inl ZeroDivisionError)
         else Inr (trunc_div d (dec_scale st e)))"

section \<open>Specs\<close>

datatype scalar_spec =
    IntSpec int int int
  | FloatSpec pyfloat pyfloat pyfloat
  | DateSpec int int
  | CategoricalSpec "pyval list"

datatype group_spec =
    TupleGroupSpec (group_names: "string list") "pyval list list"
  | SampleGroupSpec (group_names: "string list") "pyval list" bool

record param_space =
  ps_order :: "string list"
  ps_scalars :: "(string \<times> scalar_spec) list"
  ps_groups :: "group_spec list"

definition is_empty_space :: "param_space \<Rightarrow> bool" where
  "is_empty_space sp \<longleftrightarrow> ps_scalars sp = [] \<and> ps_groups sp = []"

definition float_infinite :: "pyfloat \<Rightarrow> bool" where
  "float_infinite a \<longleftrightarrow> a = Num PosInf \<or> a = Num NegInf"

text \<open>
  \<open>FloatSpec.sample\<close>. With an infinite bound the number of steps is infinite or undefined; with an
  infinite step the product with zero steps is undefined.
\<close>

definition sample_float ::
  "py_fmt \<Rightarrow> 'w py_random \<Rightarrow> pyfloat \<Rightarrow> pyfloat \<Rightarrow> pyfloat \<Rightarrow> ('w, pyval) eff" where
  "sample_float F R lo hi st =
     (if NaN \<in> {lo, hi, st} then raise_eff (ValueError ''cannot convert NaN to integer'')
      else if float_infinite lo \<or> float_infinite hi then
        (if lo = hi \<or> float_infinite st then raise_eff (InvalidOperation ''undefined'')
         else raise_eff (OverflowError ''cannot convert Infinity to integer''))
      else if float_infinite st then
        bind_eff (randint R 0 0) (\<lambda>n. raise_eff (InvalidOperation ''0 * infinity''))
      else (case (dec_of_float F lo, dec_of_float F hi, dec_of_float F st) of
          (Some l, Some h, Some s) \<Rightarrow>
            (case dec_steps l h s of
               Inl e \<Rightarrow> raise_eff e
             | Inr steps \<Rightarrow> bind_eff (randint R 0 steps) (\<lambda>n.
                 return_eff (case dec_add_mult l s n of (c, e) \<Rightarrow> PDec c e)))
        | _ \<Rightarrow> raise_eff (InvalidOperation ''ConversionSyntax'')))"

definition sample_scalar :: "py_fmt \<Rightarrow> 'w py_random \<Rightarrow> scalar_spec \<Rightarrow> ('w, pyval) eff" where
  "sample_scalar F R spec = (case spec of
     IntSpec lo hi st \<Rightarrow>
       if st = 0 then raise_eff ZeroDivisionError
       else bind_eff (randint R 0 ((hi - lo) div st)) (\<lambda>n. return_eff (PInt (lo + st * n)))
   | FloatSpec lo hi st \<Rightarrow> sample_float F R lo hi st
   | DateSpec lo hi \<Rightarrow> bind_eff (randint R 0 (hi - lo)) (\<lambda>d. return_eff (PDate (lo + d)))
   | CategoricalSpec vs \<Rightarrow> rnd_choice R vs)"

definition draw_each :: "'w py_random \<Rightarrow> 'a list \<Rightarrow> string list \<Rightarrow> ('w, 'a list) eff" where
  "draw_each R domain phs = traverse_eff (\<lambda>p. rnd_choice R domain) phs"

definition sample_group :: "'w py_random \<Rightarrow> group_spec \<Rightarrow> ('w, (string \<times> pyval) list) eff" where
  "sample_group R g = (case g of
     TupleGroupSpec phs rows \<Rightarrow> bind_eff (rnd_choice R rows) (\<lambda>row. return_eff (zip phs row))
   | SampleGroupSpec phs domain uniq \<Rightarrow>
       bind_eff (if uniq then rnd_sample R domain (length phs) else draw_each R domain phs)
         (\<lambda>vals. return_eff (zip phs vals)))"

text \<open>The two loops of \<open>ParamSpace.sample\<close>.\<close>

fun sample_scalars ::
  "py_fmt \<Rightarrow> 'w py_random \<Rightarrow> (string \<times> scalar_spec) list \<Rightarrow> (string \<times> pyval) list \<Rightarrow> ('w, (string \<times> pyval) list) eff" where
  "sample_scalars F R [] raw = return_eff raw"
| "sample_scalars F R ((ph, spec) # ss) raw =
     bind_eff (sample_scalar F R spec) (\<lambda>v. sample_scalars F R ss (AList.update ph v raw))"

fun sample_groups ::
  "'w py_random \<Rightarrow> group_spec list \<Rightarrow> (string \<times> pyval) list \<Rightarrow> ('w, (string \<times> pyval) list) eff" where
  "sample_groups R [] raw = return_eff raw"
| "sample_groups R (g # gs) raw =
     bind_eff (sample_group R g) (\<lambda>kvs. sample_groups R gs (dict_update raw kvs))"

definition in_order :: "string list \<Rightarrow> (string \<times> 'a) list \<Rightarrow> py_error + (string \<times> 'a) list" where
  "in_order phs d = traverse_e (\<lambda>ph. case map_of d ph of Some v \<Rightarrow> Inr (ph, v) | None \<Rightarrow> Inl (KeyError ph)) phs"

definition sample_space :: "py_fmt \<Rightarrow> 'w py_random \<Rightarrow> param_space \<Rightarrow> ('w, (string \<times> string) list) eff" where
  "sample_space F R sp =
     bind_eff (sample_scalars F R (ps_scalars sp) []) (\<lambda>raw0.
     bind_eff (sample_groups R (ps_groups sp) raw0) (\<lambda>raw.
       case in_order (ps_order sp) raw of
         Inl e \<Rightarrow> raise_eff e
       | Inr kvs \<Rightarrow> return_eff (map (\<lambda>(ph, v). (ph, coerce_for_engine F v)) kvs)))"

section \<open>Metadata\<close>

datatype param_meta =
    IntMeta int int int
  | FloatMeta pyfloat pyfloat pyfloat
  | DateMeta string string
  | CategoricalMeta "pyval list"

text \<open>The keys of \<open>dict.fromkeys(xs)\<close>: the first of equal values stays.\<close>

definition dict_fromkeys :: "pyval list \<Rightarrow> pyval list" where
  "dict_fromkeys xs = foldl (\<lambda>acc x. if list_ex (\<lambda>y. py_eq y x) acc then acc else acc @ [x]) [] xs"

definition scalar_metadata :: "py_fmt \<Rightarrow> scalar_spec \<Rightarrow> param_meta" where
  "scalar_metadata F spec = (case spec of
     IntSpec lo hi st \<Rightarrow> IntMeta lo hi st
   | FloatSpec lo hi st \<Rightarrow> FloatMeta lo hi st
   | DateSpec lo hi \<Rightarrow> DateMeta (drepr F lo) (drepr F hi)
   | CategoricalSpec vs \<Rightarrow> CategoricalMeta vs)"

definition name_index :: "string list \<Rightarrow> string \<Rightarrow> nat" where
  "name_index phs ph = length (takeWhile (\<lambda>p. p \<noteq> ph) phs)"

definition column_metadata :: "group_spec \<Rightarrow> string \<Rightarrow> py_error + param_meta" where
  "column_metadata g ph = (case g of
     TupleGroupSpec phs rows \<Rightarrow>
       (if ph \<notin> set phs then Inl (ValueError ''tuple.index(x): x not in tuple'')
        else ebind (traverse_e (row_cell (name_index phs ph)) rows) (\<lambda>vs. Inr (CategoricalMeta (dict_fromkeys vs))))
   | SampleGroupSpec phs domain uniq \<Rightarrow> Inr (CategoricalMeta domain))"

definition group_metadata :: "group_spec \<Rightarrow> py_error + (string \<times> param_meta) list" where
  "group_metadata g = traverse_e (\<lambda>ph. ebind (column_metadata g ph) (\<lambda>m. Inr (ph, m))) (group_names g)"

definition space_metadata :: "py_fmt \<Rightarrow> param_space \<Rightarrow> py_error + (string \<times> param_meta) list" where
  "space_metadata F sp =
     ebind (traverse_e group_metadata (ps_groups sp)) (\<lambda>gms.
       in_order (ps_order sp)
         (dict_update (map (\<lambda>(ph, spec). (ph, scalar_metadata F spec)) (ps_scalars sp)) (concat gms)))"

section \<open>Validation\<close>

definition require :: "bool \<Rightarrow> string \<Rightarrow> py_error + unit" where
  "require cond msg = (if cond then Inr () else Inl (ValueError msg))"

text \<open>A string or a number, as the value it is; \<open>bool\<close> is excluded.\<close>

definition simple_scalar :: "json \<Rightarrow> pyval option" where
  "simple_scalar j = (case j of JStr s \<Rightarrow> Some (PStr s) | JInt i \<Rightarrow> Some (PInt i)
     | JFloat a \<Rightarrow> Some (PFloat a) | _ \<Rightarrow> None)"

definition is_simple_scalar :: "json \<Rightarrow> bool" where
  "is_simple_scalar j \<longleftrightarrow> simple_scalar j \<noteq> None"

text \<open>The wire shape of a value, with the value it classifies.\<close>

definition value_wire_shape :: "json \<Rightarrow> py_error + string \<times> pyval" where
  "value_wire_shape j = (case j of
     JList xs \<Rightarrow> ebind (require (xs \<noteq> [] \<and> list_all is_simple_scalar xs)
         ''IN-list value must be a non-empty list of simple scalars'')
       (\<lambda>_. Inr (''in_list'', PList (List.map_filter simple_scalar xs)))
   | _ \<Rightarrow> (case simple_scalar j of
       Some v \<Rightarrow> Inr (''scalar'', v)
     | None \<Rightarrow> Inl (ValueError ''must be a string or number (simple datatypes only)'')))"

definition is_number :: "json \<Rightarrow> bool" where
  "is_number j = (case j of JInt i \<Rightarrow> True | JFloat a \<Rightarrow> True | _ \<Rightarrow> False)"

definition is_json_int :: "json \<Rightarrow> bool" where
  "is_json_int j = (case j of JInt i \<Rightarrow> True | _ \<Rightarrow> False)"

definition parse_number :: "(string \<times> json) list \<Rightarrow> string \<Rightarrow> py_error + json" where
  "parse_number raw key = (case map_of raw key of
     None \<Rightarrow> Inl (ValueError (''missing required field '' @ key))
   | Some v \<Rightarrow> ebind (require (is_number v) (key @ '' must be a number'')) (\<lambda>_. Inr v))"

text \<open>The number as Python compares it, exactly.\<close>

definition number_value :: "json \<Rightarrow> pyfloat" where
  "number_value j = (case j of JInt i \<Rightarrow> Num (Fin (of_int i)) | JFloat a \<Rightarrow> a | _ \<Rightarrow> NaN)"

definition int_value :: "json \<Rightarrow> int" where
  "int_value j = (case j of JInt i \<Rightarrow> i | _ \<Rightarrow> 0)"

text \<open>\<open>date.fromisoformat\<close> is the parameter \<open>isodate\<close>: \<open>None\<close> is its \<open>ValueError\<close>.\<close>

definition parse_date :: "(string \<Rightarrow> int option) \<Rightarrow> (string \<times> json) list \<Rightarrow> string \<Rightarrow> py_error + int" where
  "parse_date isodate raw key = (case map_of raw key of
     None \<Rightarrow> Inl (ValueError (''missing required field '' @ key))
   | Some (JStr s) \<Rightarrow> (case isodate s of Some d \<Rightarrow> Inr d | None \<Rightarrow> Inl (ValueError (key @ '' is not a valid ISO date'')))
   | Some _ \<Rightarrow> Inl (ValueError (key @ '' must be an ISO date string'')))"

definition parse_int_spec :: "(string \<times> json) list \<Rightarrow> py_error + scalar_spec" where
  "parse_int_spec raw =
     ebind (parse_number raw ''min'') (\<lambda>lo.
     ebind (parse_number raw ''max'') (\<lambda>hi.
       let st = json_get raw ''step'' (JInt 1) in
       ebind (require (list_all is_json_int [lo, hi, st]) ''min/max/step must be integers'') (\<lambda>_.
       ebind (require (0 < int_value st) ''step must be > 0'') (\<lambda>_.
       ebind (require (int_value lo \<le> int_value hi) ''min must be <= max'') (\<lambda>_.
         Inr (IntSpec (int_value lo) (int_value hi) (int_value st)))))))"

definition parse_float_spec :: "(string \<times> json) list \<Rightarrow> py_error + scalar_spec" where
  "parse_float_spec raw =
     ebind (parse_number raw ''min'') (\<lambda>lo.
     ebind (parse_number raw ''max'') (\<lambda>hi.
     ebind (parse_number raw ''step'') (\<lambda>st.
     ebind (require (float_lt (Num (Fin 0)) (number_value st)) ''step must be > 0'') (\<lambda>_.
     ebind (require (float_le (number_value lo) (number_value hi)) ''min must be <= max'') (\<lambda>_.
     ebind (json_float lo) (\<lambda>l. ebind (json_float hi) (\<lambda>h. ebind (json_float st) (\<lambda>s.
       Inr (FloatSpec l h s)))))))))"

definition parse_date_spec :: "(string \<Rightarrow> int option) \<Rightarrow> (string \<times> json) list \<Rightarrow> py_error + scalar_spec" where
  "parse_date_spec isodate raw =
     ebind (require (map_of raw ''granularity'' = None) ''granularity is no longer supported'') (\<lambda>_.
     ebind (parse_date isodate raw ''min'') (\<lambda>lo.
     ebind (parse_date isodate raw ''max'') (\<lambda>hi.
     ebind (require (lo \<le> hi) ''min must be <= max'') (\<lambda>_.
       Inr (DateSpec lo hi)))))"

definition parse_categorical_spec :: "(string \<times> json) list \<Rightarrow> py_error + scalar_spec" where
  "parse_categorical_spec raw = (case json_get raw ''values'' JNull of
     JList (v # vs) \<Rightarrow> ebind (traverse_e value_wire_shape (v # vs)) (\<lambda>shaped.
       ebind (require (length (remdups (map fst shaped)) = 1) ''all values must share one shape'') (\<lambda>_.
         Inr (CategoricalSpec (map snd shaped))))
   | _ \<Rightarrow> Inl (ValueError ''values must be a non-empty list''))"

text \<open>The dispatch on the type tag.\<close>

definition tagged :: "json \<Rightarrow> ((string \<times> json) list \<times> json) option" where
  "tagged raw = (case raw of JDict d \<Rightarrow> map_option (\<lambda>t. (d, t)) (map_of d ''type'') | _ \<Rightarrow> None)"

definition parse_scalar_spec :: "(string \<Rightarrow> int option) \<Rightarrow> json \<Rightarrow> py_error + scalar_spec" where
  "parse_scalar_spec isodate raw = (case tagged raw of
     None \<Rightarrow> Inl (ValueError ''a parameter spec must be an object with a type field'')
   | Some (d, t) \<Rightarrow>
       if t = JStr ''int'' then parse_int_spec d
       else if t = JStr ''float'' then parse_float_spec d
       else if t = JStr ''date'' then parse_date_spec isodate d
       else if t = JStr ''categorical'' then parse_categorical_spec d
       else Inl (ValueError ''unknown parameter spec type''))"

definition simple_or :: "string \<Rightarrow> json \<Rightarrow> py_error + pyval" where
  "simple_or msg c = (case simple_scalar c of Some v \<Rightarrow> Inr v | None \<Rightarrow> Inl (ValueError msg))"

definition parse_row :: "nat \<Rightarrow> json \<Rightarrow> py_error + pyval list" where
  "parse_row k r = (case r of
     JList cells \<Rightarrow>
       if length cells \<noteq> k then Inl (ValueError ''each row must be a list matching the placeholders'')
       else traverse_e (simple_or ''row value must be a simple scalar'') cells
   | _ \<Rightarrow> Inl (ValueError ''each row must be a list matching the placeholders''))"

definition parse_tuples :: "string list \<Rightarrow> (string \<times> json) list \<Rightarrow> py_error + group_spec" where
  "parse_tuples phs raw = (case json_get raw ''values'' JNull of
     JList (r # rs) \<Rightarrow> ebind (traverse_e (parse_row (length phs)) (r # rs)) (\<lambda>rows.
       Inr (TupleGroupSpec phs rows))
   | _ \<Rightarrow> Inl (ValueError ''values must be a non-empty list of rows''))"

definition json_bool :: "json \<Rightarrow> py_error + bool" where
  "json_bool j = (case j of JBool b \<Rightarrow> Inr b | _ \<Rightarrow> Inl (ValueError ''distinct must be a boolean''))"

definition sample_spec :: "string list \<Rightarrow> pyval list \<Rightarrow> bool \<Rightarrow> py_error + group_spec" where
  "sample_spec phs domain uniq =
     (if uniq then
        (let domain' = dict_fromkeys domain in
         ebind (require (length phs \<le> length domain') ''distinct draw needs a larger domain'') (\<lambda>_.
           Inr (SampleGroupSpec phs domain' True)))
      else Inr (SampleGroupSpec phs domain False))"

definition parse_sample :: "string list \<Rightarrow> (string \<times> json) list \<Rightarrow> py_error + group_spec" where
  "parse_sample phs raw = (case json_get raw ''domain'' JNull of
     JList (x # xs) \<Rightarrow>
       ebind (traverse_e (simple_or ''domain value must be a simple scalar'') (x # xs)) (\<lambda>domain.
       ebind (json_bool (json_get raw ''distinct'' (JBool True))) (\<lambda>uniq. sample_spec phs domain uniq))
   | _ \<Rightarrow> Inl (ValueError ''domain must be a non-empty list''))"

definition json_string :: "json \<Rightarrow> string option" where
  "json_string j = (case j of JStr s \<Rightarrow> Some s | _ \<Rightarrow> None)"

definition json_strings :: "json \<Rightarrow> string list option" where
  "json_strings j = (case j of
     JList xs \<Rightarrow> if list_all (\<lambda>x. json_string x \<noteq> None) xs then Some (List.map_filter json_string xs) else None
   | _ \<Rightarrow> None)"

definition parse_group_spec :: "json \<Rightarrow> py_error + group_spec" where
  "parse_group_spec raw = (case tagged raw of
     None \<Rightarrow> Inl (ValueError ''a group spec must be an object with a type field'')
   | Some (d, t) \<Rightarrow> (case json_strings (json_get d ''placeholders'' JNull) of
       Some (p # ps) \<Rightarrow>
         if t = JStr ''tuples'' then parse_tuples (p # ps) d
         else if t = JStr ''sample'' then parse_sample (p # ps) d
         else Inl (ValueError ''unknown group spec type'')
     | _ \<Rightarrow> Inl (ValueError ''placeholders must be a non-empty list of placeholder names'')))"

text \<open>The warnings logged: a declared value that looks like a quoted literal, one per placeholder.\<close>

definition meta_values :: "param_meta \<Rightarrow> pyval list" where
  "meta_values m = (case m of CategoricalMeta vs \<Rightarrow> vs | _ \<Rightarrow> [])"

definition warn_quoted_literal_values :: "py_fmt \<Rightarrow> param_space \<Rightarrow> py_error + (string \<times> pyval) list" where
  "warn_quoted_literal_values F sp = ebind (space_metadata F sp) (\<lambda>meta.
     Inr (List.map_filter (\<lambda>(ph, m). map_option (\<lambda>v. (ph, v)) (List.find is_quoted_literal (meta_values m))) meta))"

definition parse_param_space ::
  "(string \<Rightarrow> int option) \<Rightarrow> py_fmt \<Rightarrow> (string \<times> json) list option \<Rightarrow> json list option \<Rightarrow> string
     \<Rightarrow> py_error + param_space \<times> (string \<times> pyval) list" where
  "parse_param_space isodate F raw_params raw_groups template =
     (let phs = find_placeholders template;
          params = (case raw_params of None \<Rightarrow> [] | Some d \<Rightarrow> d);
          groups = (case raw_groups of None \<Rightarrow> [] | Some gs \<Rightarrow> gs)
      in if phs = [] then
           (if params \<noteq> [] \<or> groups \<noteq> [] then
              Inl (ValueError ''Query has no placeholders but params/param_groups were supplied'')
            else Inr (\<lparr>ps_order = [], ps_scalars = [], ps_groups = []\<rparr>, []))
         else
           ebind (traverse_e (\<lambda>(ph, raw). ebind (parse_scalar_spec isodate raw) (\<lambda>s. Inr (ph, s))) params) (\<lambda>scalars.
           ebind (traverse_e parse_group_spec groups) (\<lambda>gs.
             let covered = map fst scalars @ concat (map group_names gs) in
             if \<not> distinct covered then Inl (ValueError ''placeholder(s) are covered by more than one spec'')
             else if \<not> (list_all (\<lambda>p. p \<in> set covered) phs \<and> list_all (\<lambda>p. p \<in> set phs) covered) then
               Inl (ValueError ''params placeholder mismatch'')
             else
               (let sp = \<lparr>ps_order = phs,
                     ps_scalars = List.map_filter (\<lambda>ph. map_option (\<lambda>s. (ph, s)) (map_of scalars ph)) phs,
                     ps_groups = gs\<rparr>
                in ebind (warn_quoted_literal_values F sp) (\<lambda>ws. Inr (sp, ws))))))"

section \<open>Typed spaces\<close>

definition is_simple_value :: "pyval \<Rightarrow> bool" where
  "is_simple_value v = (case v of PStr s \<Rightarrow> True | PInt i \<Rightarrow> True | PFloat a \<Rightarrow> True | _ \<Rightarrow> False)"

definition is_in_list :: "pyval \<Rightarrow> bool" where
  "is_in_list v = (case v of PList xs \<Rightarrow> xs \<noteq> [] \<and> list_all is_simple_value xs | _ \<Rightarrow> False)"

definition scalar_typed :: "scalar_spec \<Rightarrow> bool" where
  "scalar_typed spec = (case spec of
     IntSpec lo hi st \<Rightarrow> 0 < st \<and> lo \<le> hi
   | FloatSpec lo hi st \<Rightarrow> float_lt (Num (Fin 0)) st \<and> float_le lo hi
   | DateSpec lo hi \<Rightarrow> lo \<le> hi
   | CategoricalSpec vs \<Rightarrow> vs \<noteq> [] \<and> (list_all is_simple_value vs \<or> list_all is_in_list vs))"

definition all_differ :: "pyval list \<Rightarrow> bool" where
  "all_differ xs = sorted_wrt (\<lambda>x y. \<not> py_eq x y) xs"

definition group_typed :: "group_spec \<Rightarrow> bool" where
  "group_typed g \<longleftrightarrow> group_names g \<noteq> [] \<and> (case g of
     TupleGroupSpec phs rows \<Rightarrow> rows \<noteq> [] \<and>
       list_all (\<lambda>row. length row = length phs \<and> list_all is_simple_value row) rows
   | SampleGroupSpec phs domain uniq \<Rightarrow> domain \<noteq> [] \<and> list_all is_simple_value domain \<and>
       (uniq \<longrightarrow> all_differ domain \<and> length phs \<le> length domain))"

definition covered_names :: "param_space \<Rightarrow> string list" where
  "covered_names sp = map fst (ps_scalars sp) @ concat (map group_names (ps_groups sp))"

definition space_typed :: "string \<Rightarrow> param_space \<Rightarrow> bool" where
  "space_typed template sp \<longleftrightarrow>
     ps_order sp = find_placeholders template \<and>
     distinct (covered_names sp) \<and> set (covered_names sp) = set (find_placeholders template) \<and>
     map fst (ps_scalars sp) = filter (\<lambda>p. p \<in> fst ` set (ps_scalars sp)) (ps_order sp) \<and>
     list_all (\<lambda>p. scalar_typed (snd p)) (ps_scalars sp) \<and> list_all group_typed (ps_groups sp)"

definition refusal :: "py_error \<Rightarrow> bool" where
  "refusal e = (case e of ValueError m \<Rightarrow> True | OverflowError m \<Rightarrow> True | _ \<Rightarrow> False)"

lemma ebind_Inl_iff: "ebind x f = Inl e \<longleftrightarrow> x = Inl e \<or> (\<exists>a. x = Inr a \<and> f a = Inl e)"
  by (cases x) simp_all

lemma traverse_e_Inl: "traverse_e f xs = Inl e \<Longrightarrow> \<exists>x\<in>set xs. f x = Inl e"
  by (induction xs) (auto simp: ebind_Inl_iff)

lemma traverse_e_mem: "traverse_e f xs = Inr ys \<Longrightarrow> y \<in> set ys \<Longrightarrow> \<exists>x\<in>set xs. f x = Inr y"
  by (induction xs arbitrary: ys) (auto simp: ebind_Inr_iff)

lemma traverse_e_length: "traverse_e f xs = Inr ys \<Longrightarrow> length ys = length xs"
  by (auto simp: traverse_e_Inr dest: list_all2_lengthD)

lemma require_iff [simp]: "require b m = Inr u \<longleftrightarrow> b" "require b m = Inl e \<longleftrightarrow> \<not> b \<and> e = ValueError m"
  by (auto simp: require_def)

named_theorems parse_defs \<open>the parsers of specs\<close>

lemmas [parse_defs] = ebind_Inl_iff refusal_def Let_def parse_number_def

lemma find_placeholders_distinct [simp]: "distinct (find_placeholders t)"
  by (simp add: find_placeholders_def first_keys_def)

subsection \<open>Scalar specs\<close>

lemma simple_scalar_simple: "simple_scalar j = Some v \<Longrightarrow> is_simple_value v"
  by (auto simp: simple_scalar_def is_simple_value_def split: json.splits)

lemma parse_number_number: "parse_number raw key = Inr j \<Longrightarrow> is_number j"
  by (auto simp: parse_number_def ebind_Inr_iff split: option.splits)

lemma json_float_number: "is_number j \<Longrightarrow> json_float j = Inr a \<Longrightarrow> a = number_value j"
  by (auto simp: is_number_def json_float_def number_value_def split: json.splits if_splits)

lemma json_float_refusal: "is_number j \<Longrightarrow> json_float j = Inl e \<Longrightarrow> refusal e"
  by (auto simp: is_number_def json_float_def refusal_def split: json.splits if_splits)

lemma parse_float_typed: "parse_float_spec raw = Inr s \<Longrightarrow> scalar_typed s"
  by (auto simp: parse_float_spec_def ebind_Inr_iff scalar_typed_def
      dest!: json_float_number [OF parse_number_number])

lemma wire_shape_kind:
  "value_wire_shape j = Inr (sh, v) \<Longrightarrow>
     sh = ''in_list'' \<and> is_in_list v \<or> sh = ''scalar'' \<and> is_simple_value v"
  by (auto simp: value_wire_shape_def ebind_Inr_iff is_in_list_def list_all_iff is_simple_scalar_def
      map_filter_def neq_Nil_conv simple_scalar_simple split: json.splits option.splits)

lemma one_shape:
  assumes "length (remdups xs) = 1"
  obtains a where "set xs \<subseteq> {a}"
proof -
  from assms obtain a where "remdups xs = [a]" by (auto simp: length_Suc_conv)
  then have "set xs = {a}" by (metis list.set(1) list.simps(15) set_remdups)
  then show thesis using that by blast
qed

lemma parse_categorical_typed:
  assumes "parse_categorical_spec raw = Inr s"
  shows "scalar_typed s"
proof -
  obtain v vs shaped where t: "traverse_e value_wire_shape (v # vs) = Inr shaped"
    and one: "length (remdups (map fst shaped)) = 1" and s: "s = CategoricalSpec (map snd shaped)"
    using assms by (auto simp: parse_categorical_spec_def ebind_Inr_iff simp del: traverse_e.simps
        split: json.splits list.splits)
  have k: "fst p = ''in_list'' \<and> is_in_list (snd p) \<or> fst p = ''scalar'' \<and> is_simple_value (snd p)"
    if "p \<in> set shaped" for p
    using traverse_e_mem [OF t that] wire_shape_kind [of _ "fst p" "snd p"] by auto
  obtain a where a: "set (map fst shaped) \<subseteq> {a}" using one by (rule one_shape)
  have "list_all is_simple_value (map snd shaped) \<or> list_all is_in_list (map snd shaped)"
  proof (cases "a = ''in_list''")
    case True
    then have "list_all is_in_list (map snd shaped)" using k a by (fastforce simp: list_all_iff)
    then show ?thesis ..
  next
    case False
    then have "list_all is_simple_value (map snd shaped)" using k a by (fastforce simp: list_all_iff)
    then show ?thesis ..
  qed
  moreover have "shaped \<noteq> []" using traverse_e_length [OF t] by auto
  ultimately show ?thesis using s by (simp add: scalar_typed_def)
qed

lemma parse_scalar_typed:
  assumes "parse_scalar_spec isodate raw = Inr s"
  shows "scalar_typed s"
proof -
  have "\<exists>d. parse_int_spec d = Inr s \<or> parse_float_spec d = Inr s \<or>
      parse_date_spec isodate d = Inr s \<or> parse_categorical_spec d = Inr s"
    using assms by (simp add: parse_scalar_spec_def split: option.splits prod.splits if_splits) blast+
  then obtain d where "parse_int_spec d = Inr s \<or> parse_float_spec d = Inr s \<or>
      parse_date_spec isodate d = Inr s \<or> parse_categorical_spec d = Inr s" ..
  then show ?thesis
  proof (elim disjE)
    assume "parse_int_spec d = Inr s"
    then show ?thesis by (auto simp: parse_int_spec_def ebind_Inr_iff Let_def scalar_typed_def)
  next
    assume "parse_date_spec isodate d = Inr s"
    then show ?thesis by (auto simp: parse_date_spec_def ebind_Inr_iff scalar_typed_def)
  qed (rule parse_float_typed parse_categorical_typed; assumption)+
qed

lemma parse_scalar_refusal:
  assumes "parse_scalar_spec isodate raw = Inl e"
  shows "refusal e"
proof -
  have n: "refusal e'" if "parse_number r k = Inl e'" for r k e'
    using that by (auto simp: parse_defs split: option.splits)
  have d: "refusal e'" if "parse_date isodate r k = Inl e'" for r k e'
    using that by (auto simp: parse_date_def refusal_def split: option.splits json.splits)
  have w: "refusal e'" if "value_wire_shape j = Inl e'" for j e'
    using that by (auto simp: value_wire_shape_def parse_defs split: json.splits option.splits)
  have i: "refusal e'" if "parse_int_spec r = Inl e'" for r e'
    using that n by (auto simp: parse_int_spec_def ebind_Inl_iff Let_def) (auto simp: refusal_def)
  have f: "refusal e'" if "parse_float_spec r = Inl e'" for r e'
    using that n by (auto simp: parse_float_spec_def ebind_Inl_iff
        dest: json_float_refusal [OF parse_number_number]) (auto simp: refusal_def)
  have t: "refusal e'" if "parse_date_spec isodate r = Inl e'" for r e'
    using that d by (auto simp: parse_date_spec_def ebind_Inl_iff) (auto simp: refusal_def)
  have c: "refusal e'" if "parse_categorical_spec r = Inl e'" for r e'
    using that w by (auto simp: parse_categorical_spec_def ebind_Inl_iff simp del: traverse_e.simps
        split: json.splits list.splits dest!: traverse_e_Inl) (auto simp: refusal_def)
  show ?thesis using assms i f t c
    by (auto simp: parse_scalar_spec_def split: option.splits if_splits) (auto simp: refusal_def)
qed

subsection \<open>Group specs\<close>

lemma dict_fromkeys_spec:
  "all_differ (dict_fromkeys xs) \<and> set (dict_fromkeys xs) \<subseteq> set xs \<and> (xs \<noteq> [] \<longrightarrow> dict_fromkeys xs \<noteq> [])"
proof (induction xs rule: rev_induct)
  case Nil
  then show ?case by (simp add: dict_fromkeys_def all_differ_def)
next
  case (snoc x xs)
  have "dict_fromkeys (xs @ [x]) = (if list_ex (\<lambda>y. py_eq y x) (dict_fromkeys xs) then dict_fromkeys xs
      else dict_fromkeys xs @ [x])"
    by (simp add: dict_fromkeys_def)
  with snoc show ?case
    by (auto simp: all_differ_def sorted_wrt_append list_ex_iff)
qed

lemma simple_or_simple: "simple_or msg c = Inr v \<Longrightarrow> is_simple_value v"
  by (auto simp: simple_or_def split: option.splits intro: simple_scalar_simple)

lemma simple_or_refusal: "simple_or msg c = Inl e \<Longrightarrow> refusal e"
  by (auto simp: simple_or_def refusal_def split: option.splits)

lemma row_typed:
  assumes "parse_row k r = Inr row"
  shows "length row = k \<and> list_all is_simple_value row"
proof -
  obtain cells msg where c: "length cells = k" "traverse_e (simple_or msg) cells = Inr row"
    using assms by (auto simp: parse_row_def split: json.splits if_splits)
  have "list_all is_simple_value row"
    using traverse_e_mem [OF c(2)] simple_or_simple by (fastforce simp: list_all_iff)
  then show ?thesis using traverse_e_length [OF c(2)] c(1) by simp
qed

lemma parse_tuples_typed:
  assumes "parse_tuples phs raw = Inr g" "phs \<noteq> []"
  shows "group_typed g"
proof -
  obtain r rs rows where t: "traverse_e (parse_row (length phs)) (r # rs) = Inr rows"
    and g: "g = TupleGroupSpec phs rows"
    using assms(1) by (auto simp: parse_tuples_def ebind_Inr_iff simp del: traverse_e.simps
        split: json.splits list.splits)
  have "list_all (\<lambda>row. length row = length phs \<and> list_all is_simple_value row) rows"
    using traverse_e_mem [OF t] row_typed by (fastforce simp: list_all_iff)
  moreover have "rows \<noteq> []" using traverse_e_length [OF t] by auto
  ultimately show ?thesis using g assms(2) by (simp add: group_typed_def)
qed

lemma parse_sample_typed:
  assumes "parse_sample phs raw = Inr g" "phs \<noteq> []"
  shows "group_typed g"
proof -
  obtain x xs domain uniq msg where t: "traverse_e (simple_or msg) (x # xs) = Inr domain"
    and g: "sample_spec phs domain uniq = Inr g"
    using assms(1) by (auto simp: parse_sample_def ebind_Inr_iff simp del: traverse_e.simps
        split: json.splits list.splits)
  have s: "\<forall>v\<in>set domain. is_simple_value v"
    using traverse_e_mem [OF t] simple_or_simple by blast
  have "domain \<noteq> []" using traverse_e_length [OF t] by auto
  then show ?thesis using g s dict_fromkeys_spec [of domain] assms(2)
    by (auto simp: sample_spec_def Let_def ebind_Inr_iff group_typed_def list_all_iff subset_iff split: if_splits)
qed

lemma parse_group_typed: "parse_group_spec raw = Inr g \<Longrightarrow> group_typed g"
  by (auto simp: parse_group_spec_def split: option.splits list.splits if_splits
      dest: parse_tuples_typed parse_sample_typed)

lemma parse_group_refusal:
  assumes "parse_group_spec raw = Inl e"
  shows "refusal e"
proof -
  have r: "refusal e'" if "parse_row k j = Inl e'" for k j e'
    using that by (auto simp: parse_row_def split: json.splits if_splits dest!: traverse_e_Inl simple_or_refusal)
      (auto simp: refusal_def)
  have t: "refusal e'" if "parse_tuples phs d = Inl e'" for phs d e'
    using that by (auto simp: parse_tuples_def ebind_Inl_iff simp del: traverse_e.simps
        split: json.splits list.splits dest!: traverse_e_Inl r) (auto simp: refusal_def)
  have b: "refusal e'" if "json_bool j = Inl e'" for j e'
    using that by (auto simp: json_bool_def refusal_def split: json.splits)
  have s: "refusal e'" if "parse_sample phs d = Inl e'" for phs d e'
    using that by (auto simp: parse_sample_def sample_spec_def ebind_Inl_iff Let_def simp del: traverse_e.simps
        split: json.splits list.splits if_splits dest!: traverse_e_Inl simple_or_refusal b) (auto simp: refusal_def)
  show ?thesis using assms t s
    by (auto simp: parse_group_spec_def split: option.splits list.splits if_splits) (auto simp: refusal_def)
qed

subsection \<open>Metadata of a typed space\<close>

lemma in_order_total:
  "set phs \<subseteq> dom (map_of d) \<Longrightarrow> in_order phs d = Inr (map (\<lambda>ph. (ph, the (map_of d ph))) phs)"
  unfolding in_order_def by (induction phs) auto

lemma dict_update_dom: "dom (map_of (dict_update d kvs)) = fst ` set d \<union> fst ` set kvs"
  by (auto simp: dict_update_get dom_map_of_conv_image_fst)

lemma name_index_less: "ph \<in> set phs \<Longrightarrow> name_index phs ph < length phs"
  unfolding name_index_def by (induction phs) auto

lemma group_metadata_total:
  assumes "group_typed g"
  shows "\<exists>ms. group_metadata g = Inr ms \<and> map fst ms = group_names g"
proof -
  have "\<exists>m. column_metadata g ph = Inr m" if "ph \<in> set (group_names g)" for ph
  proof (cases g)
    case (TupleGroupSpec phs rows)
    then have i: "name_index phs ph < length phs" using that by (simp add: name_index_less)
    have "list_all (\<lambda>row. length row = length phs) rows"
      using assms TupleGroupSpec by (auto simp: group_typed_def list_all_iff)
    then have "\<exists>vs. traverse_e (row_cell (name_index phs ph)) rows = Inr vs"
      using i by (induction rows) (auto simp: row_cell_def)
    then show ?thesis using that TupleGroupSpec by (auto simp: column_metadata_def)
  qed (simp add: column_metadata_def)
  then have "\<exists>ms. traverse_e (\<lambda>ph. ebind (column_metadata g ph) (\<lambda>m. Inr (ph, m))) phs = Inr ms \<and> map fst ms = phs"
    if "set phs \<subseteq> set (group_names g)" for phs
    using that by (induction phs) fastforce+
  then show ?thesis by (simp add: group_metadata_def)
qed

lemma space_metadata_total:
  assumes "list_all group_typed (ps_groups sp)" "set (ps_order sp) \<subseteq> set (covered_names sp)"
  shows "\<exists>ms. space_metadata F sp = Inr ms"
proof -
  have "\<exists>gms. traverse_e group_metadata gs = Inr gms \<and> map fst (concat gms) = concat (map group_names gs)"
    if "list_all group_typed gs" for gs
    using that by (induction gs) (auto dest!: group_metadata_total)
  then obtain gms where g: "traverse_e group_metadata (ps_groups sp) = Inr gms"
    "map fst (concat gms) = concat (map group_names (ps_groups sp))" using assms(1) by blast
  then have "fst ` set (concat gms) = set (concat (map group_names (ps_groups sp)))" by (metis list.set_map)
  then have "set (ps_order sp) \<subseteq> dom (map_of (dict_update
      (map (\<lambda>(ph, spec). (ph, scalar_metadata F spec)) (ps_scalars sp)) (concat gms)))"
    using assms(2) by (simp add: dict_update_dom covered_names_def image_image split_beta)
  then show ?thesis by (simp add: space_metadata_def g(1) in_order_total)
qed

subsection \<open>The parser\<close>

definition dict_of :: "(string \<times> json) list option \<Rightarrow> (string \<times> json) list" where
  "dict_of raw = (case raw of None \<Rightarrow> [] | Some d \<Rightarrow> d)"

lemma map_fst_pick:
  "map fst (List.map_filter (\<lambda>p. map_option (\<lambda>s. (p, s)) (m p)) ps) = filter (\<lambda>p. m p \<noteq> None) ps"
  by (induction ps) (auto simp: map_filter_simps split: option.splits)

lemma pick_mem: "(p, s) \<in> set (List.map_filter (\<lambda>p. map_option (\<lambda>s. (p, s)) (m p)) ps) \<Longrightarrow> m p = Some s"
  by (auto simp: map_filter_def)

definition pick_scalars :: "(string \<times> scalar_spec) list \<Rightarrow> string list \<Rightarrow> (string \<times> scalar_spec) list" where
  "pick_scalars scalars phs = List.map_filter (\<lambda>ph. map_option (\<lambda>s. (ph, s)) (map_of scalars ph)) phs"

lemma typed_space_built:
  assumes c: "distinct (map fst scalars @ concat (map group_names gs))"
    "set (map fst scalars @ concat (map group_names gs)) = set (find_placeholders template)"
    and s: "\<forall>p\<in>set scalars. scalar_typed (snd p)" and g: "\<forall>g\<in>set gs. group_typed g"
  shows "space_typed template
    \<lparr>ps_order = find_placeholders template, ps_scalars = pick_scalars scalars (find_placeholders template), ps_groups = gs\<rparr>"
proof -
  let ?phs = "find_placeholders template" let ?sel = "pick_scalars scalars ?phs"
  have k: "map fst ?sel = filter (\<lambda>p. p \<in> fst ` set scalars) ?phs"
    using map_fst_pick [of "map_of scalars" ?phs] by (simp add: pick_scalars_def map_of_eq_None_iff)
  have "fst ` set ?sel = set (map fst ?sel)" by simp
  also have "\<dots> = {p \<in> set ?phs. p \<in> fst ` set scalars}" by (simp only: k set_filter)
  also have "\<dots> = fst ` set scalars" using c(2) by auto
  finally have f: "fst ` set ?sel = fst ` set scalars" .
  have "list_all (\<lambda>p. scalar_typed (snd p)) ?sel"
    using s by (auto simp: list_all_iff pick_scalars_def dest!: pick_mem map_of_SomeD)
  moreover have "distinct (map fst ?sel @ concat (map group_names gs))"
  proof -
    have "distinct (map fst ?sel)" by (simp add: k)
    moreover have "set (map fst ?sel) = set (map fst scalars)" using f by simp
    ultimately show ?thesis using c(1) unfolding distinct_append by metis
  qed
  moreover have "set (map fst ?sel @ concat (map group_names gs)) = set ?phs"
    using c(2) f by simp
  ultimately show ?thesis using k f g
    by (simp add: space_typed_def covered_names_def list_all_iff)
qed

text \<open>
  C17. The typing layer of bring-your-own queries: an accepted parameter space covers every hole of
  the template exactly once, its scalar specs are in template order, every range is non-empty with
  a positive step, every value list is non-empty and of one wire shape, rows fit their placeholders
  and a distinct domain holds enough pairwise different values; anything else is refused with
  \<open>ValueError\<close>, or \<open>OverflowError\<close> for an integer too large for a float.
\<close>

theorem parse_param_space_typed:
  assumes "distinct (map fst (dict_of raw_params))"
  shows "case parse_param_space isodate F raw_params raw_groups template of
      Inl e \<Rightarrow> refusal e | Inr (sp, warnings) \<Rightarrow> space_typed template sp"
proof (cases "find_placeholders template = []")
  case True
  then show ?thesis
    by (simp add: parse_param_space_def Let_def refusal_def space_typed_def covered_names_def)
next
  case False
  let ?phs = "find_placeholders template" and ?ps = "dict_of raw_params"
  let ?scalar = "\<lambda>(ph, raw). ebind (parse_scalar_spec isodate raw) (\<lambda>s. Inr (ph, s))"
  let ?gs = "case raw_groups of None \<Rightarrow> [] | Some gs \<Rightarrow> gs"
  show ?thesis
  proof (cases "traverse_e ?scalar ?ps")
    case (Inl e)
    then have "refusal e" by (auto dest!: traverse_e_Inl parse_scalar_refusal simp: ebind_Inl_iff)
    with Inl False show ?thesis by (simp add: parse_param_space_def Let_def dict_of_def)
  next
    case (Inr scalars)
    note sc = this
    show ?thesis
    proof (cases "traverse_e parse_group_spec ?gs")
      case (Inl e)
      then have "refusal e" by (auto dest!: traverse_e_Inl parse_group_refusal)
      with sc Inl False show ?thesis by (simp add: parse_param_space_def Let_def dict_of_def)
    next
      case (Inr gs)
      let ?cov = "map fst scalars @ concat (map group_names gs)"
      let ?sp = "\<lparr>ps_order = ?phs, ps_scalars = pick_scalars scalars ?phs, ps_groups = gs\<rparr>"
      have p: "parse_param_space isodate F raw_params raw_groups template =
          (if \<not> distinct ?cov then Inl (ValueError ''placeholder(s) are covered by more than one spec'')
           else if \<not> (list_all (\<lambda>p. p \<in> set ?cov) ?phs \<and> list_all (\<lambda>p. p \<in> set ?phs) ?cov) then
             Inl (ValueError ''params placeholder mismatch'')
           else ebind (warn_quoted_literal_values F ?sp) (\<lambda>ws. Inr (?sp, ws)))"
        using False sc Inr by (simp only: parse_param_space_def Let_def dict_of_def if_False ebind_simps pick_scalars_def)
      show ?thesis
      proof (cases "distinct ?cov \<and> list_all (\<lambda>p. p \<in> set ?cov) ?phs \<and> list_all (\<lambda>p. p \<in> set ?phs) ?cov")
        case True
        have st: "scalar_typed (snd q)" if "q \<in> set scalars" for q
          using traverse_e_mem [OF sc that] parse_scalar_typed by (fastforce simp: ebind_Inr_iff)
        have gt: "group_typed g" if "g \<in> set gs" for g
          using traverse_e_mem [OF Inr that] by (auto dest: parse_group_typed)
        have cov: "set ?cov = set ?phs"
        proof (rule subset_antisym)
          show "set ?cov \<subseteq> set ?phs" using True by (simp only: list_all_iff) blast
          show "set ?phs \<subseteq> set ?cov" using True by (simp only: list_all_iff) blast
        qed
        have t: "space_typed template ?sp" using typed_space_built [OF _ cov] True st gt by blast
        then have "\<exists>ms. space_metadata F ?sp = Inr ms"
          by (intro space_metadata_total) (auto simp: space_typed_def)
        then show ?thesis using p True t by (auto simp: warn_quoted_literal_values_def)
      next
        case False
        then show ?thesis by (simp only: p) (auto simp: refusal_def)
      qed
    qed
  qed
qed

section \<open>Sampling a typed space\<close>

definition float_grid :: "py_fmt \<Rightarrow> scalar_spec \<Rightarrow> bool" where
  "float_grid F spec = (case spec of
     FloatSpec lo hi st \<Rightarrow> NaN \<notin> {lo, hi, st} \<and> \<not> float_infinite lo \<and> \<not> float_infinite hi \<and> \<not> float_infinite st \<and>
       (case (dec_of_float F lo, dec_of_float F hi, dec_of_float F st) of
          (Some l, Some h, Some s) \<Rightarrow> 0 < fst s \<and>
            (let e = min (snd l) (min (snd h) (snd s)) in dec_scale l e \<le> dec_scale h e)
        | _ \<Rightarrow> False)
   | _ \<Rightarrow> True)"

definition on_grid :: "int \<times> int \<Rightarrow> int \<times> int \<Rightarrow> int \<times> int \<Rightarrow> int \<times> int \<Rightarrow> bool" where
  "on_grid l h s d \<longleftrightarrow>
     (let e = min (snd l) (min (snd h) (snd s)); x = fst d * 10 ^ nat (snd d - e)
      in e \<le> snd d \<and> dec_scale l e \<le> x \<and> x \<le> dec_scale h e \<and> dec_scale s e dvd x - dec_scale l e)"

definition admits :: "py_fmt \<Rightarrow> scalar_spec \<Rightarrow> pyval \<Rightarrow> bool" where
  "admits F spec v = (case (spec, v) of
     (IntSpec lo hi st, PInt i) \<Rightarrow> lo \<le> i \<and> i \<le> hi \<and> st dvd i - lo
   | (FloatSpec lo hi st, PDec c e) \<Rightarrow>
       (case (dec_of_float F lo, dec_of_float F hi, dec_of_float F st) of
          (Some l, Some h, Some s) \<Rightarrow> on_grid l h s (c, e) | _ \<Rightarrow> False)
   | (DateSpec lo hi, PDate d) \<Rightarrow> lo \<le> d \<and> d \<le> hi
   | (CategoricalSpec vs, v) \<Rightarrow> v \<in> set vs
   | _ \<Rightarrow> False)"

definition group_admits :: "group_spec \<Rightarrow> pyval list \<Rightarrow> bool" where
  "group_admits g vals = (case g of
     TupleGroupSpec phs rows \<Rightarrow> vals \<in> set rows
   | SampleGroupSpec phs domain uniq \<Rightarrow> set vals \<subseteq> set domain \<and>
       (uniq \<longrightarrow> (\<forall>i < length vals. \<forall>j < length vals. i \<noteq> j \<longrightarrow> \<not> py_eq (vals ! i) (vals ! j))))"

lemma int_grid:
  fixes lo hi st n :: int
  assumes "0 < st" "0 \<le> n" "n \<le> (hi - lo) div st"
  shows "lo \<le> lo + st * n \<and> lo + st * n \<le> hi"
proof -
  have "st * n \<le> st * ((hi - lo) div st)" using assms by (intro mult_left_mono) auto
  moreover have "st * ((hi - lo) div st) + (hi - lo) mod st = hi - lo" by simp
  moreover have "0 \<le> (hi - lo) mod st" using assms(1) by simp
  ultimately have "st * n \<le> hi - lo" by linarith
  then show ?thesis using assms by simp
qed

lemma dec_rescale:
  assumes "e \<le> e'" "e' \<le> snd d"
  shows "dec_scale d e' * 10 ^ nat (e' - e) = dec_scale d e"
proof -
  have "nat (snd d - e') + nat (e' - e) = nat (snd d - e)" using assms by simp
  then show ?thesis by (simp add: dec_scale_def mult.assoc flip: power_add)
qed

lemma float_draw:
  assumes "0 < fst s" "dec_scale l e \<le> dec_scale h e" and e: "e = min (snd l) (min (snd h) (snd s))"
    and n: "0 \<le> n" "n \<le> trunc_div (dec_scale h e - dec_scale l e) (dec_scale s e)"
  shows "on_grid l h s (dec_add_mult l s n)"
proof -
  let ?e = "min (snd l) (snd s)"
  have le: "e \<le> ?e" "?e \<le> snd l" "?e \<le> snd s" using e by auto
  have p: "0 < dec_scale s e" using assms(1) by (simp add: dec_scale_def)
  have x: "fst (dec_add_mult l s n) * 10 ^ nat (snd (dec_add_mult l s n) - e) = dec_scale l e + dec_scale s e * n"
  proof -
    have "dec_scale (fst s * n, snd s) ?e = dec_scale s ?e * n" by (simp add: dec_scale_def)
    then show ?thesis using dec_rescale [OF le(1,2)] dec_rescale [OF le(1,3)]
      by (simp add: dec_add_mult_def Let_def algebra_simps)
  qed
  have "n \<le> (dec_scale h e - dec_scale l e) div dec_scale s e"
    using n(2) p assms(2) by (cases "dec_scale h e = dec_scale l e") (simp_all add: trunc_div_def)
  from int_grid [OF p n(1) this] show ?thesis
    using x le(1) by (simp add: on_grid_def Let_def dec_add_mult_def flip: e)
qed

lemma scalar_draw:
  assumes R: "draws_in_range R" and t: "scalar_typed spec" "float_grid F spec"
  shows "\<exists>v w'. sample_scalar F R spec w = (Inr v, w') \<and> admits F spec v"
proof (cases spec)
  case (IntSpec lo hi st)
  then have p: "0 < st" "lo \<le> hi" using t by (auto simp: scalar_typed_def)
  then have "0 \<le> (hi - lo) div st" by (simp add: pos_imp_zdiv_nonneg_iff)
  then obtain n w' where r: "randint R 0 ((hi - lo) div st) w = (Inr n, w')" "0 \<le> n" "n \<le> (hi - lo) div st"
    using randint_draw [OF R] by metis
  from int_grid [OF p(1) r(2,3)] show ?thesis
    using IntSpec p r(1) by (auto simp: sample_scalar_def admits_def eff_simps)
next
  case (FloatSpec lo hi st)
  obtain l h s where d: "dec_of_float F lo = Some l" "dec_of_float F hi = Some h" "dec_of_float F st = Some s"
    and f: "NaN \<notin> {lo, hi, st}" "\<not> float_infinite lo" "\<not> float_infinite hi" "\<not> float_infinite st"
    and p: "0 < fst s" "(let e = min (snd l) (min (snd h) (snd s)) in dec_scale l e \<le> dec_scale h e)"
    using t(2) FloatSpec by (simp add: float_grid_def split: option.splits)
  define e where "e = min (snd l) (min (snd h) (snd s))"
  have le: "dec_scale l e \<le> dec_scale h e" using p(2) by (simp add: e_def Let_def)
  let ?n = "trunc_div (dec_scale h e - dec_scale l e) (dec_scale s e)"
  have "0 < dec_scale s e" using p(1) by (simp add: dec_scale_def)
  then have "0 \<le> ?n" using le
    by (cases "dec_scale h e = dec_scale l e") (simp_all add: trunc_div_def pos_imp_zdiv_nonneg_iff)
  then obtain n w' where r: "randint R 0 ?n w = (Inr n, w')" "0 \<le> n" "n \<le> ?n"
    using randint_draw [OF R] by metis
  have st: "dec_steps l h s = Inr ?n" using p(1) by (simp add: dec_steps_def Let_def e_def)
  have "sample_scalar F R spec w = (Inr (case dec_add_mult l s n of (c, e) \<Rightarrow> PDec c e), w')"
    using FloatSpec f d st r(1) by (simp add: sample_scalar_def sample_float_def eff_simps)
  moreover have "admits F spec (case dec_add_mult l s n of (c, e) \<Rightarrow> PDec c e)"
    using float_draw [OF p(1) le e_def r(2,3)] FloatSpec d by (cases "dec_add_mult l s n") (simp add: admits_def)
  ultimately show ?thesis by blast
next
  case (DateSpec lo hi)
  then have "0 \<le> hi - lo" using t by (simp add: scalar_typed_def)
  then obtain n w' where r: "randint R 0 (hi - lo) w = (Inr n, w')" "0 \<le> n" "n \<le> hi - lo"
    using randint_draw [OF R] by metis
  then show ?thesis using DateSpec by (auto simp: sample_scalar_def admits_def eff_simps)
next
  case (CategoricalSpec vs)
  then have "vs \<noteq> []" using t by (simp add: scalar_typed_def)
  then obtain x w' where "rnd_choice R vs w = (Inr x, w')" "x \<in> set vs"
    using rnd_choice_draw [OF R] by metis
  then show ?thesis using CategoricalSpec by (simp add: sample_scalar_def admits_def split: pyval.splits)
qed

lemma differ_positions:
  assumes "all_differ xs" "i < length xs" "j < length xs" "i \<noteq> j"
  shows "\<not> py_eq (xs ! i) (xs ! j)"
  using assms py_eq_sym [of "xs ! i" "xs ! j"] unfolding all_differ_def sorted_wrt_iff_nth_less
  by (metis linorder_neqE_nat)

lemma draw_each_ok:
  assumes "draws_in_range R" "domain \<noteq> []"
  shows "\<exists>vals w'. draw_each R domain phs w = (Inr vals, w') \<and> length vals = length phs \<and> set vals \<subseteq> set domain"
proof (induction phs arbitrary: w)
  case (Cons p phs)
  obtain x w1 where "rnd_choice R domain w = (Inr x, w1)" "x \<in> set domain"
    using rnd_choice_draw [OF assms] by metis
  moreover obtain vals w' where "draw_each R domain phs w1 = (Inr vals, w')" "length vals = length phs"
    "set vals \<subseteq> set domain" using Cons by blast
  ultimately show ?case by (simp add: draw_each_def eff_simps)
qed (simp add: draw_each_def eff_simps)

lemma group_draw:
  assumes R: "draws_in_range R" and t: "group_typed g"
  shows "\<exists>vals w'. sample_group R g w = (Inr (zip (group_names g) vals), w') \<and>
    length vals = length (group_names g) \<and> group_admits g vals"
proof (cases g)
  case (TupleGroupSpec phs rows)
  then have "rows \<noteq> []" using t by (simp add: group_typed_def)
  then obtain row w' where "rnd_choice R rows w = (Inr row, w')" "row \<in> set rows"
    using rnd_choice_draw [OF R] by metis
  then show ?thesis using TupleGroupSpec t
    by (auto simp: sample_group_def eff_simps group_admits_def group_typed_def list_all_iff)
next
  case (SampleGroupSpec phs domain uniq)
  show ?thesis
  proof (cases uniq)
    case True
    then have d: "all_differ domain" "length phs \<le> length domain"
      using t SampleGroupSpec by (auto simp: group_typed_def)
    obtain ps w' where r: "rnd_sample R domain (length phs) w = (Inr (map (\<lambda>i. domain ! i) ps), w')"
      "length ps = length phs" "distinct ps" "set ps \<subseteq> {..<length domain}"
      using rnd_sample_draw [OF R d(2)] by metis
    have lt: "ps ! i < length domain" if "i < length ps" for i using r(4) nth_mem [OF that] by auto
    have "\<not> py_eq (domain ! (ps ! i)) (domain ! (ps ! j))" if "i < length ps" "j < length ps" "i \<noteq> j" for i j
      using differ_positions [OF d(1) lt lt] that r(3) by (simp add: nth_eq_iff_index_eq)
    then have "group_admits g (map (\<lambda>i. domain ! i) ps)"
      using r(4) SampleGroupSpec by (auto simp: group_admits_def)
    then show ?thesis using SampleGroupSpec True r(1,2)
      by (auto simp: sample_group_def eff_simps intro!: exI [of _ "map (\<lambda>i. domain ! i) ps"])
  next
    case False
    have "domain \<noteq> []" using t SampleGroupSpec by (simp add: group_typed_def)
    from draw_each_ok [OF R this] obtain vals w' where "draw_each R domain phs w = (Inr vals, w')"
      "length vals = length phs" "set vals \<subseteq> set domain" by blast
    then show ?thesis using SampleGroupSpec False
      by (auto simp: sample_group_def eff_simps group_admits_def intro!: exI [of _ vals])
  qed
qed

lemma sample_scalars_ok:
  assumes R: "draws_in_range R" and "distinct (map fst ss)"
    "list_all (\<lambda>p. scalar_typed (snd p) \<and> float_grid F (snd p)) ss"
  shows "\<exists>raw' w'. sample_scalars F R ss raw w = (Inr raw', w') \<and>
    (\<forall>p\<in>set ss. \<exists>v. map_of raw' (fst p) = Some v \<and> admits F (snd p) v) \<and>
    (\<forall>k. k \<notin> fst ` set ss \<longrightarrow> map_of raw' k = map_of raw k)"
  using assms(2,3)
proof (induction ss arbitrary: raw w)
  case (Cons p ss)
  obtain ph spec where p: "p = (ph, spec)" by (cases p)
  with Cons.prems have "scalar_typed spec" "float_grid F spec" by simp_all
  from scalar_draw [OF R this] obtain v w1 where v: "sample_scalar F R spec w = (Inr v, w1)" "admits F spec v"
    by blast
  obtain raw' w' where r: "sample_scalars F R ss (AList.update ph v raw) w1 = (Inr raw', w')"
    "\<forall>p\<in>set ss. \<exists>v. map_of raw' (fst p) = Some v \<and> admits F (snd p) v"
    "\<forall>k. k \<notin> fst ` set ss \<longrightarrow> map_of raw' k = map_of (AList.update ph v raw) k"
    using Cons.IH [of "AList.update ph v raw" w1] Cons.prems by auto
  have "ph \<notin> fst ` set ss" using Cons.prems(1) p by simp
  then have "map_of raw' ph = Some v" using r(3) by (simp add: update_conv)
  then show ?case using r v p by (auto simp: eff_simps update_conv)
qed (simp add: eff_simps)

lemma zip_get:
  assumes "distinct phs" "length vals = length phs"
  shows "map_of (rev (zip phs vals)) k = (if k \<in> set phs then map_of (zip phs vals) k else None)"
proof -
  have "map_of (rev (zip phs vals)) = map_of (zip phs vals)"
    using assms by (subst map_of_inject_set) (simp_all add: map_fst_zip rev_map [symmetric])
  then show ?thesis using assms by (auto simp: map_of_eq_None_iff dest: set_zip_leftD)
qed

lemma sample_groups_ok:
  assumes R: "draws_in_range R" and "distinct (concat (map group_names gs))" "list_all group_typed gs"
  shows "\<exists>raw' w'. sample_groups R gs raw w = (Inr raw', w') \<and>
    (\<forall>g\<in>set gs. \<exists>vals. map (map_of raw') (group_names g) = map Some vals \<and> group_admits g vals) \<and>
    (\<forall>k. k \<notin> set (concat (map group_names gs)) \<longrightarrow> map_of raw' k = map_of raw k)"
  using assms(2,3)
proof (induction gs arbitrary: raw w)
  case (Cons g gs)
  from Cons.prems have d: "distinct (group_names g)" "group_typed g"
    "set (group_names g) \<inter> set (concat (map group_names gs)) = {}" by auto
  from group_draw [OF R d(2)] obtain vals w1 where v: "sample_group R g w = (Inr (zip (group_names g) vals), w1)"
    "length vals = length (group_names g)" "group_admits g vals" by blast
  let ?raw = "dict_update raw (zip (group_names g) vals)"
  obtain raw' w' where r: "sample_groups R gs ?raw w1 = (Inr raw', w')"
    "\<forall>g\<in>set gs. \<exists>vals. map (map_of raw') (group_names g) = map Some vals \<and> group_admits g vals"
    "\<forall>k. k \<notin> set (concat (map group_names gs)) \<longrightarrow> map_of raw' k = map_of ?raw k"
    using Cons.IH [of ?raw w1] Cons.prems by auto
  have get: "map_of ?raw k = (if k \<in> set (group_names g) then map_of (zip (group_names g) vals) k else map_of raw k)" for k
    using d(1) v(2) by (auto simp: dict_update_get zip_get map_add_def split: option.splits
        dest: map_of_SomeD set_zip_leftD)
  have "map (map_of raw') (group_names g) = map Some vals"
  proof (rule nth_equalityI)
    fix i assume i: "i < length (map (map_of raw') (group_names g))"
    then have k: "group_names g ! i \<in> set (group_names g)" by simp
    then have "group_names g ! i \<notin> set (concat (map group_names gs))" using d(3) by blast
    then show "map (map_of raw') (group_names g) ! i = map Some vals ! i"
      using r(3) get i k d(1) v(2) by (simp add: map_of_zip_nth)
  qed (simp add: v(2))
  moreover have "map_of raw' k = map_of raw k" if "k \<notin> set (concat (map group_names (g # gs)))" for k
    using r(3) get that by simp
  ultimately show ?case using r v by (auto simp: eff_simps)
qed (simp add: eff_simps)

text \<open>
  C18. Sampling a typed space always succeeds: the assignment has one engine text per hole of the
  template, in template order; the values behind the texts lie in their declared ranges on the step
  grid, value lists are drawn from, the columns of one row are taken together and distinct draws are
  pairwise different values. The float ranges must be finite with texts in the order of the numbers.
\<close>

theorem sampling_sound:
  assumes "draws_in_range R" "space_typed template sp"
    and "list_all (\<lambda>p. float_grid F (snd p)) (ps_scalars sp)"
  shows "\<exists>raw w'. sample_space F R sp w
      = (Inr (map (\<lambda>ph. (ph, coerce_for_engine F (raw ph))) (find_placeholders template)), w') \<and>
    (\<forall>p\<in>set (ps_scalars sp). admits F (snd p) (raw (fst p))) \<and>
    (\<forall>g\<in>set (ps_groups sp). group_admits g (map raw (group_names g)))"
proof -
  have t: "ps_order sp = find_placeholders template" "distinct (map fst (ps_scalars sp))"
    "distinct (concat (map group_names (ps_groups sp)))"
    "fst ` set (ps_scalars sp) \<inter> set (concat (map group_names (ps_groups sp))) = {}"
    "set (find_placeholders template) = fst ` set (ps_scalars sp) \<union> set (concat (map group_names (ps_groups sp)))"
    "list_all group_typed (ps_groups sp)"
    using assms(2) by (auto simp: space_typed_def covered_names_def)
  have s: "list_all (\<lambda>p. scalar_typed (snd p) \<and> float_grid F (snd p)) (ps_scalars sp)"
    using assms(2,3) by (auto simp: space_typed_def list_all_iff)
  obtain raw1 w1 where r1: "sample_scalars F R (ps_scalars sp) [] w = (Inr raw1, w1)"
    "\<forall>p\<in>set (ps_scalars sp). \<exists>v. map_of raw1 (fst p) = Some v \<and> admits F (snd p) v"
    using sample_scalars_ok [OF assms(1) t(2) s] by blast
  obtain raw2 w2 where r2: "sample_groups R (ps_groups sp) raw1 w1 = (Inr raw2, w2)"
    "\<forall>g\<in>set (ps_groups sp). \<exists>vals. map (map_of raw2) (group_names g) = map Some vals \<and> group_admits g vals"
    "\<forall>k. k \<notin> set (concat (map group_names (ps_groups sp))) \<longrightarrow> map_of raw2 k = map_of raw1 k"
    using sample_groups_ok [OF assms(1) t(3,6)] by blast
  define raw where "raw = (\<lambda>ph. the (map_of raw2 ph))"
  have g: "group_admits g (map raw (group_names g)) \<and> set (group_names g) \<subseteq> dom (map_of raw2)"
    if mem: "g \<in> set (ps_groups sp)" for g
  proof -
    obtain vals where v: "map (map_of raw2) (group_names g) = map Some vals" "group_admits g vals"
      using bspec [OF r2(2) mem] by (elim exE conjE)
    have "map raw (group_names g) = map the (map (map_of raw2) (group_names g))" by (simp add: raw_def)
    also have "\<dots> = vals" by (simp add: v(1) comp_def)
    finally have m: "map raw (group_names g) = vals" .
    have "map_of raw2 n \<in> Some ` set vals" if "n \<in> set (group_names g)" for n
      using arg_cong [OF v(1), of set] that by auto
    then show ?thesis using m v(2) by auto
  qed
  have sc: "admits F (snd p) (raw (fst p)) \<and> fst p \<in> dom (map_of raw2)" if "p \<in> set (ps_scalars sp)" for p
    using r1(2) r2(3) t(4) that by (fastforce simp: raw_def)
  have "set (find_placeholders template) \<subseteq> dom (map_of raw2)"
    using t(5) sc g by fastforce
  then have "in_order (ps_order sp) raw2 = Inr (map (\<lambda>ph. (ph, raw ph)) (find_placeholders template))"
    by (simp add: t(1) in_order_total raw_def)
  then have "sample_space F R sp w
      = (Inr (map (\<lambda>ph. (ph, coerce_for_engine F (raw ph))) (find_placeholders template)), w2)"
    using r1(1) r2(1) by (simp add: sample_space_def eff_simps)
  then show ?thesis using sc g by blast
qed

section \<open>An example\<close>

definition upper_draws :: "unit py_random" where
  "upper_draws = \<lparr>rnd_between = (\<lambda>a b w. (b, w)), rnd_index = (\<lambda>n w. (n - 1, w)),
     rnd_positions = (\<lambda>n k w. (rev [n - k..<n], w))\<rparr>"

lemma upper_draws_ok: "draws_in_range upper_draws"
  by (auto simp: draws_in_range_def upper_draws_def)

definition demo_template :: string where
  "demo_template = ''d < [DAYS] and n in ([N1], [N2]) or n = [N1]''"

definition demo_params :: "(string \<times> json) list" where
  "demo_params = [(''DAYS'', JDict [(''type'', JStr ''int''), (''min'', JInt 60), (''max'', JInt 121), (''step'', JInt 5)])]"

definition demo_groups :: "json list" where
  "demo_groups = [JDict [(''type'', JStr ''sample''), (''placeholders'', JList [JStr ''N1'', JStr ''N2'']),
     (''domain'', JList [JStr ''FR'', JStr ''DE'', JStr ''FR''])]]"

definition demo_space :: param_space where
  "demo_space = \<lparr>ps_order = [''DAYS'', ''N1'', ''N2''], ps_scalars = [(''DAYS'', IntSpec 60 121 5)],
     ps_groups = [SampleGroupSpec [''N1'', ''N2''] [PStr ''FR'', PStr ''DE''] True]\<rparr>"

lemma demo_parsed:
  "parse_param_space (\<lambda>s. None) plain_fmt (Some demo_params) (Some demo_groups) demo_template = Inr (demo_space, [])"
  by code_simp

theorem parse_param_space_typed_witness: "space_typed demo_template demo_space"
  using parse_param_space_typed [where raw_params = "Some demo_params" and isodate = "\<lambda>s. None"
      and F = plain_fmt and raw_groups = "Some demo_groups" and template = demo_template]
  by (simp add: demo_parsed dict_of_def) (simp add: demo_params_def)

theorem sampling_sound_witness:
  "\<exists>w'. sample_space plain_fmt upper_draws demo_space ()
     = (Inr [(''DAYS'', ''120''), (''N1'', ''DE''), (''N2'', ''FR'')], w')"
proof -
  have "space_typed demo_template demo_space" by code_simp
  moreover have "list_all (\<lambda>p. float_grid plain_fmt (snd p)) (ps_scalars demo_space)" by code_simp
  ultimately obtain raw w' where r: "sample_space plain_fmt upper_draws demo_space ()
      = (Inr (map (\<lambda>ph. (ph, coerce_for_engine plain_fmt (raw ph))) (find_placeholders demo_template)), w')"
    using sampling_sound [OF upper_draws_ok, of demo_template demo_space plain_fmt "()"] by blast
  have "fst (sample_space plain_fmt upper_draws demo_space ())
      = Inr [(''DAYS'', ''120''), (''N1'', ''DE''), (''N2'', ''FR'')]" by code_simp
  then show ?thesis using r by simp
qed

text \<open>Distinct values need not be distinct texts: the number 1 and the string \<open>1\<close> reach the engine alike.\<close>

lemma distinct_draw_same_text:
  "fst (sample_space plain_fmt upper_draws
     \<lparr>ps_order = [''N1'', ''N2''], ps_scalars = [],
      ps_groups = [SampleGroupSpec [''N1'', ''N2''] [PInt 1, PStr ''1''] True]\<rparr> ())
   = Inr [(''N1'', ''1''), (''N2'', ''1'')]"
  by code_simp

text \<open>An integer bound beyond the range of a double escapes as \<open>OverflowError\<close>.\<close>

lemma huge_bound_raises:
  "parse_float_spec [(''min'', JInt 0), (''max'', JInt double_limit), (''step'', JInt 1)]
     = Inl (OverflowError ''int too large to convert to float'')"
  by (simp add: parse_float_spec_def parse_number_def is_number_def require_def float_lt_def float_le_def
      number_value_def json_float_def less_xnum_def) (simp add: double_limit_def)

end
