(* ===== verification/Engine_Store.thy ===== *)
theory Engine_Store
  imports Engine_Manifest
begin

text \<open>
  The engines directory and publishing into it (\<open>workloads/engine_publish.py\<close>). A child of the
  directory is a real package or a symbolic link into \<open>.versions\<close>; a package is its files and its
  manifest. Every call into the operating system is one step: before it the other processes may act
  (\<open>os_others\<close>), it may fail (\<open>os_fault\<close>), and the directory it leaves is recorded, so the
  recorded list is what a crash at any point, or a reader at any time, can find. The lock files and
  the contents of half-removed scratch directories are not modelled.
\<close>

section \<open>The directory\<close>

record package =
  pk_files :: "(string \<times> string) list"
  pk_manifest :: "engine_manifest option"

datatype dir_node = RealDir package | VersionLink string

record engines_dir =
  ed_nodes :: "(string \<times> dir_node) list"
  ed_versions :: "(string \<times> package) list"

definition node_of :: "engines_dir \<Rightarrow> string \<Rightarrow> dir_node option" where
  "node_of d n = map_of (ed_nodes d) n"

definition version_of :: "engines_dir \<Rightarrow> string \<Rightarrow> package option" where
  "version_of d v = map_of (ed_versions d) v"

text \<open>The package a name leads to; a link to a missing version leads nowhere.\<close>

definition resolve_name :: "engines_dir \<Rightarrow> string \<Rightarrow> package option" where
  "resolve_name d n = (case node_of d n of
     None \<Rightarrow> None | Some (RealDir p) \<Rightarrow> Some p | Some (VersionLink v) \<Rightarrow> version_of d v)"

definition put_node :: "string \<Rightarrow> dir_node \<Rightarrow> engines_dir \<Rightarrow> engines_dir" where
  "put_node n x d = d\<lparr>ed_nodes := AList.update n x (ed_nodes d)\<rparr>"

definition del_node :: "string \<Rightarrow> engines_dir \<Rightarrow> engines_dir" where
  "del_node n d = d\<lparr>ed_nodes := AList.delete n (ed_nodes d)\<rparr>"

definition put_version :: "string \<Rightarrow> package \<Rightarrow> engines_dir \<Rightarrow> engines_dir" where
  "put_version v p d = d\<lparr>ed_versions := AList.update v p (ed_versions d)\<rparr>"

definition del_version :: "string \<Rightarrow> engines_dir \<Rightarrow> engines_dir" where
  "del_version v d = d\<lparr>ed_versions := AList.delete v (ed_versions d)\<rparr>"

lemma node_facts [simp]:
  "node_of (put_node n x d) m = (if m = n then Some x else node_of d m)"
  "node_of (del_node n d) m = (if m = n then None else node_of d m)"
  "node_of (put_version v p d) m = node_of d m" "node_of (del_version v d) m = node_of d m"
  by (simp_all add: node_of_def put_node_def del_node_def put_version_def del_version_def update_conv delete_conv)

lemma version_facts [simp]:
  "version_of (put_node n x d) w = version_of d w" "version_of (del_node n d) w = version_of d w"
  "version_of (put_version v p d) w = (if w = v then Some p else version_of d w)"
  "version_of (del_version v d) w = (if w = v then None else version_of d w)"
  by (simp_all add: version_of_def put_node_def del_node_def put_version_def del_version_def update_conv delete_conv)

section \<open>Calls into the operating system\<close>

record publish_os =
  os_fault :: "nat \<Rightarrow> (py_error \<times> nat) option"
  os_others :: "nat \<Rightarrow> engines_dir \<Rightarrow> engines_dir"
  os_fresh :: "string \<Rightarrow> engines_dir \<Rightarrow> string"

record publish_world =
  pw_dir :: engines_dir
  pw_step :: nat
  pw_seen :: "engines_dir list"

definition advance :: "engines_dir \<Rightarrow> publish_world \<Rightarrow> publish_world" where
  "advance d w = \<lparr>pw_dir = d, pw_step = pw_step w + 1, pw_seen = pw_seen w @ [d]\<rparr>"

text \<open>A call: \<open>f\<close> is its effect, \<open>g n\<close> what a failing call leaves behind after \<open>n\<close> items.\<close>

definition os_call ::
  "publish_os \<Rightarrow> (engines_dir \<Rightarrow> (py_error + 'a) \<times> engines_dir) \<Rightarrow> (nat \<Rightarrow> engines_dir \<Rightarrow> engines_dir)
     \<Rightarrow> (publish_world, 'a) eff"
where
  "os_call OS f g w = (let d = os_others OS (pw_step w) (pw_dir w) in
     case os_fault OS (pw_step w) of
       Some (e, n) \<Rightarrow> (Inl e, advance (g n d) w)
     | None \<Rightarrow> (case f d of (r, d') \<Rightarrow> (r, advance d' w)))"

abbreviation unchanged :: "nat \<Rightarrow> engines_dir \<Rightarrow> engines_dir" where
  "unchanged n d \<equiv> d"

text \<open>A call whose errors are ignored.\<close>

definition os_quiet :: "publish_os \<Rightarrow> (engines_dir \<Rightarrow> engines_dir) \<Rightarrow> (publish_world, unit) eff" where
  "os_quiet OS f w = (let d = os_others OS (pw_step w) (pw_dir w) in
     (Inr (), advance (if os_fault OS (pw_step w) = None then f d else d) w))"

definition read_dir :: "(engines_dir \<Rightarrow> 'a) \<Rightarrow> (publish_world, 'a) eff" where
  "read_dir f w = (Inr (f (pw_dir w)), w)"

text \<open>\<open>try: m except Exception: handler; raise\<close>.\<close>

definition on_error :: "(publish_world, 'a) eff \<Rightarrow> (publish_world, unit) eff \<Rightarrow> (publish_world, 'a) eff" where
  "on_error m h = try_eff m (\<lambda>e. bind_eff h (\<lambda>u. raise_eff e))"

definition checked_call :: "publish_os \<Rightarrow> (publish_world, unit) eff" where
  "checked_call OS = os_call OS (\<lambda>d. (Inr (), d)) unchanged"

section \<open>Populating a package\<close>

definition publish_ignore :: "string list" where
  "publish_ignore = [''obj'', ''results'', ''debug_logs'', ''__pycache__'', ''.git'']"

definition shipped_files :: "(string \<times> string) list \<Rightarrow> (string \<times> string) list" where
  "shipped_files ws = filter (\<lambda>(p, c). \<not> list_ex (\<lambda>x. x \<in> set publish_ignore) (py_split_char (CHR ''/'') p)) ws"

definition bundled :: "(string \<times> string) list \<Rightarrow> (string \<times> string) list" where
  "bundled bundle = map (\<lambda>(n, c). (''data/'' @ n, c)) (filter (\<lambda>(n, c). py_endswith n ''.parquet'') bundle)"

definition on_package :: "string \<Rightarrow> (package \<Rightarrow> package) \<Rightarrow> engines_dir \<Rightarrow> engines_dir" where
  "on_package s f d = (case node_of d s of Some (RealDir p) \<Rightarrow> put_node s (RealDir (f p)) d | _ \<Rightarrow> d)"

definition populate ::
  "publish_os \<Rightarrow> (string \<times> string) list \<Rightarrow> (string \<times> string) list option \<Rightarrow> engine_manifest \<Rightarrow> string
     \<Rightarrow> (publish_world, unit) eff"
where
  "populate OS ws bundle m s =
     bind_eff (os_call OS (\<lambda>d. (Inr (), on_package s (\<lambda>p. p\<lparr>pk_files := shipped_files ws\<rparr>) d))
        (\<lambda>n. on_package s (\<lambda>p. p\<lparr>pk_files := take n (shipped_files ws)\<rparr>))) (\<lambda>u.
     bind_eff (case bundle of
         None \<Rightarrow> return_eff ()
       | Some b \<Rightarrow> os_call OS (\<lambda>d. (Inr (), on_package s (\<lambda>p. p\<lparr>pk_files := dict_update (pk_files p) (bundled b)\<rparr>) d))
           (\<lambda>n. on_package s (\<lambda>p. p\<lparr>pk_files := dict_update (pk_files p) (take n (bundled b))\<rparr>))) (\<lambda>u.
     os_call OS (\<lambda>d. (Inr (), on_package s (\<lambda>p. p\<lparr>pk_manifest := Some m\<rparr>) d)) unchanged))"

definition full_package ::
  "(string \<times> string) list \<Rightarrow> (string \<times> string) list option \<Rightarrow> engine_manifest \<Rightarrow> package" where
  "full_package ws bundle m =
     \<lparr>pk_files = (case bundle of None \<Rightarrow> shipped_files ws | Some b \<Rightarrow> dict_update (shipped_files ws) (bundled b)),
      pk_manifest = Some m\<rparr>"

definition empty_package :: package where
  "empty_package = \<lparr>pk_files = [], pk_manifest = None\<rparr>"

text \<open>\<open>tempfile.mkdtemp\<close> in the engines directory, and moving a directory into \<open>.versions\<close>.\<close>

definition make_staging :: "publish_os \<Rightarrow> string \<Rightarrow> (publish_world, string) eff" where
  "make_staging OS eid =
     os_call OS (\<lambda>d. let s = os_fresh OS (''.tmp-'' @ eid @ ''-'') d
       in (Inr s, put_node s (RealDir empty_package) d)) unchanged"

definition move_to_version :: "string \<Rightarrow> string \<Rightarrow> engines_dir \<Rightarrow> (py_error + string) \<times> engines_dir" where
  "move_to_version n v d = (case node_of d n of
     Some (RealDir p) \<Rightarrow> (Inr v, put_version v p (del_node n d))
   | _ \<Rightarrow> (Inl (OSError ''not a directory''), d))"

section \<open>The unnamed path\<close>

text \<open>\<open>os.replace\<close> of a directory onto a name that exists fails.\<close>

definition replace_with_dir :: "string \<Rightarrow> string \<Rightarrow> engines_dir \<Rightarrow> (py_error + unit) \<times> engines_dir" where
  "replace_with_dir s dest d = (case (node_of d s, node_of d dest) of
     (Some x, None) \<Rightarrow> (Inr (), put_node dest x (del_node s d))
   | _ \<Rightarrow> (Inl (OSError ''Directory not empty''), d))"

definition publish_content_addressed ::
  "publish_os \<Rightarrow> (string \<times> string) list \<Rightarrow> (string \<times> string) list option \<Rightarrow> engine_manifest
     \<Rightarrow> (publish_world, string) eff"
where
  "publish_content_addressed OS ws bundle m =
     (let dest = mf_engine_id m in
      bind_eff (read_dir (\<lambda>d. resolve_name d dest \<noteq> None)) (\<lambda>there.
        if there then return_eff dest
        else bind_eff (make_staging OS dest) (\<lambda>s.
          on_error
            (bind_eff (populate OS ws bundle m s) (\<lambda>u.
             try_eff (bind_eff (os_call OS (replace_with_dir s dest) unchanged) (\<lambda>u. return_eff dest))
               (\<lambda>e. bind_eff (read_dir (\<lambda>d. resolve_name d dest \<noteq> None)) (\<lambda>won.
                  if (case e of OSError msg \<Rightarrow> won | _ \<Rightarrow> False)
                  then bind_eff (os_quiet OS (del_node s)) (\<lambda>u. return_eff dest)
                  else raise_eff e))))
            (os_quiet OS (del_node s)))))"

section \<open>The named path\<close>

definition version_prefix :: "string \<Rightarrow> string" where
  "version_prefix name = name @ ''@''"

fun quiet_each :: "publish_os \<Rightarrow> (string \<Rightarrow> engines_dir \<Rightarrow> engines_dir) \<Rightarrow> string list \<Rightarrow> (publish_world, unit) eff" where
  "quiet_each OS f [] = return_eff ()"
| "quiet_each OS f (v # vs) = bind_eff (os_quiet OS (f v)) (\<lambda>u. quiet_each OS f vs)"

definition superseded :: "string \<Rightarrow> string \<Rightarrow> engines_dir \<Rightarrow> string list" where
  "superseded name keep d =
     filter (\<lambda>v. py_startswith v (version_prefix name) \<and> v \<noteq> keep) (map fst (ed_versions d))"

definition gc_versions :: "publish_os \<Rightarrow> string \<Rightarrow> string \<Rightarrow> (publish_world, unit) eff" where
  "gc_versions OS name keep =
     bind_eff (os_call OS (\<lambda>d. (Inr (superseded name keep d), d)) unchanged) (quiet_each OS del_version)"

text \<open>\<open>os.replace\<close> of the new link over the name: one rename, unless a real directory is in the way.\<close>

definition flip_link :: "string \<Rightarrow> string \<Rightarrow> engines_dir \<Rightarrow> (py_error + unit) \<times> engines_dir" where
  "flip_link l dest d = (case (node_of d l, node_of d dest) of
     (None, _) \<Rightarrow> (Inl (OSError ''No such file or directory''), d)
   | (_, Some (RealDir p)) \<Rightarrow> (Inl (OSError ''Is a directory''), d)
   | (Some x, _) \<Rightarrow> (Inr (), put_node dest x (del_node l d)))"

definition is_real_dir :: "string \<Rightarrow> engines_dir \<Rightarrow> bool" where
  "is_real_dir n d = (case node_of d n of Some (RealDir p) \<Rightarrow> True | _ \<Rightarrow> False)"

definition migrate_legacy :: "publish_os \<Rightarrow> string \<Rightarrow> (publish_world, unit) eff" where
  "migrate_legacy OS name =
     bind_eff (os_call OS (\<lambda>d. move_to_version name (os_fresh OS (version_prefix name @ ''legacy-'') d) d) unchanged)
       (\<lambda>v. return_eff ())"

definition publish_version ::
  "publish_os \<Rightarrow> (string \<times> string) list \<Rightarrow> (string \<times> string) list option \<Rightarrow> engine_manifest \<Rightarrow> string
     \<Rightarrow> (publish_world, string) eff"
where
  "publish_version OS ws bundle m name =
     bind_eff (make_staging OS (mf_engine_id m)) (\<lambda>s.
       on_error
         (bind_eff (populate OS ws bundle m s) (\<lambda>u.
            os_call OS (\<lambda>d. move_to_version s (os_fresh OS (version_prefix name) d) d) unchanged))
         (os_quiet OS (del_node s)))"

definition make_link :: "publish_os \<Rightarrow> string \<Rightarrow> (publish_world, string) eff" where
  "make_link OS v = os_call OS (\<lambda>d. let l = os_fresh OS ''.link-'' d in (Inr l, put_node l (VersionLink v) d)) unchanged"

definition flip_name :: "publish_os \<Rightarrow> string \<Rightarrow> string \<Rightarrow> (publish_world, unit) eff" where
  "flip_name OS name l =
     on_error
       (bind_eff (read_dir (is_real_dir name)) (\<lambda>legacy.
        bind_eff (if legacy then migrate_legacy OS name else return_eff ()) (\<lambda>u.
          os_call OS (flip_link l name) unchanged)))
       (os_call OS (\<lambda>d. (Inr (), del_node l d)) unchanged)"

definition publish_named ::
  "publish_os \<Rightarrow> (string \<times> string) list \<Rightarrow> (string \<times> string) list option \<Rightarrow> engine_manifest \<Rightarrow> string
     \<Rightarrow> (publish_world, string) eff"
where
  "publish_named OS ws bundle m name =
     bind_eff (checked_call OS) (\<lambda>u.
     bind_eff (publish_version OS ws bundle m name) (\<lambda>v.
     bind_eff (make_link OS v) (\<lambda>l.
     bind_eff (flip_name OS name l) (\<lambda>u.
     bind_eff (gc_versions OS name v) (\<lambda>u. return_eff name)))))"

definition atomic_publish ::
  "publish_os \<Rightarrow> (string \<times> string) list \<Rightarrow> engine_manifest \<Rightarrow> string option \<Rightarrow> (string \<times> string) list option
     \<Rightarrow> (publish_world, string) eff"
where
  "atomic_publish OS ws m name bundle =
     bind_eff (checked_call OS) (\<lambda>u. case name of
       None \<Rightarrow> publish_content_addressed OS ws bundle m
     | Some n \<Rightarrow> publish_named OS ws bundle m n)"

section \<open>Triples\<close>

text \<open>
  \<open>triple OS S P m Q E\<close>: started in a directory with \<open>P\<close>, every directory \<open>m\<close> leaves on the way
  satisfies \<open>S\<close>, it ends with \<open>Q\<close> on its result or, when it raises, with \<open>E\<close>.
\<close>

definition triple ::
  "(engines_dir \<Rightarrow> bool) \<Rightarrow> (engines_dir \<Rightarrow> bool) \<Rightarrow> (publish_world, 'a) eff
     \<Rightarrow> ('a \<Rightarrow> engines_dir \<Rightarrow> bool) \<Rightarrow> (engines_dir \<Rightarrow> bool) \<Rightarrow> bool"
where
  "triple S P m Q E \<longleftrightarrow> (\<forall>w. P (pw_dir w) \<and> (\<forall>d\<in>set (pw_seen w). S d) \<longrightarrow>
     (\<forall>d\<in>set (pw_seen (snd (m w))). S d) \<and>
     (case fst (m w) of Inr a \<Rightarrow> Q a (pw_dir (snd (m w))) | Inl e \<Rightarrow> E (pw_dir (snd (m w)))))"

definition stable :: "publish_os \<Rightarrow> (engines_dir \<Rightarrow> bool) \<Rightarrow> bool" where
  "stable OS P \<longleftrightarrow> (\<forall>k d. P d \<longrightarrow> P (os_others OS k d))"

lemma stableD: "stable OS P \<Longrightarrow> P d \<Longrightarrow> P (os_others OS k d)"
  by (simp add: stable_def)

lemma triple_bind:
  assumes "triple S P m M E" "\<And>a. triple S (M a) (f a) Q E"
  shows "triple S P (bind_eff m f) Q E"
  unfolding triple_def
proof (intro allI impI)
  fix w :: publish_world assume w: "P (pw_dir w) \<and> (\<forall>d\<in>set (pw_seen w). S d)"
  obtain r w1 where m: "m w = (r, w1)" by (cases "m w")
  have h: "(\<forall>d\<in>set (pw_seen w1). S d) \<and> (case r of Inr a \<Rightarrow> M a (pw_dir w1) | Inl e \<Rightarrow> E (pw_dir w1))"
    using assms(1) w m unfolding triple_def by (metis fst_conv snd_conv)
  show "(\<forall>d\<in>set (pw_seen (snd (bind_eff m f w))). S d) \<and>
     (case fst (bind_eff m f w) of Inr a \<Rightarrow> Q a (pw_dir (snd (bind_eff m f w)))
      | Inl e \<Rightarrow> E (pw_dir (snd (bind_eff m f w))))"
  proof (cases r)
    case (Inl e)
    then show ?thesis using h m by (simp add: eff_simps)
  next
    case (Inr a)
    then have "bind_eff m f w = f a w1" using m by (simp add: eff_simps)
    then show ?thesis using h Inr assms(2) [of a, unfolded triple_def] by (metis sum.simps(6))
  qed
qed

lemma triple_return: "(\<And>d. P d \<Longrightarrow> Q a d) \<Longrightarrow> triple S P (return_eff a) Q E"
  by (simp add: triple_def eff_simps)

lemma triple_raise: "(\<And>d. P d \<Longrightarrow> E d) \<Longrightarrow> triple S P (raise_eff e) Q E"
  by (simp add: triple_def eff_simps)

lemma triple_conseq:
  assumes "triple S P' m Q' E'" "\<And>d. P d \<Longrightarrow> P' d" "\<And>a d. Q' a d \<Longrightarrow> Q a d" "\<And>d. E' d \<Longrightarrow> E d"
  shows "triple S P m Q E"
  unfolding triple_def
proof (intro allI impI)
  fix w :: publish_world assume w: "P (pw_dir w) \<and> (\<forall>d\<in>set (pw_seen w). S d)"
  then have "P' (pw_dir w) \<and> (\<forall>d\<in>set (pw_seen w). S d)" using assms(2) by blast
  then have h: "(\<forall>d\<in>set (pw_seen (snd (m w))). S d) \<and>
     (case fst (m w) of Inr a \<Rightarrow> Q' a (pw_dir (snd (m w))) | Inl e \<Rightarrow> E' (pw_dir (snd (m w))))"
    using assms(1) unfolding triple_def by blast
  show "(\<forall>d\<in>set (pw_seen (snd (m w))). S d) \<and>
     (case fst (m w) of Inr a \<Rightarrow> Q a (pw_dir (snd (m w))) | Inl e \<Rightarrow> E (pw_dir (snd (m w))))"
    using h assms(3,4) by (cases "fst (m w)") simp_all
qed

lemma triple_try:
  assumes "triple S P m Q M" "\<And>e. triple S M (h e) Q E"
  shows "triple S P (try_eff m h) Q E"
  unfolding triple_def
proof (intro allI impI)
  fix w :: publish_world assume w: "P (pw_dir w) \<and> (\<forall>d\<in>set (pw_seen w). S d)"
  obtain r w1 where m: "m w = (r, w1)" by (cases "m w")
  have h: "(\<forall>d\<in>set (pw_seen w1). S d) \<and> (case r of Inr a \<Rightarrow> Q a (pw_dir w1) | Inl e \<Rightarrow> M (pw_dir w1))"
    using assms(1) w m unfolding triple_def by (metis fst_conv snd_conv)
  show "(\<forall>d\<in>set (pw_seen (snd (try_eff m h w))). S d) \<and>
     (case fst (try_eff m h w) of Inr a \<Rightarrow> Q a (pw_dir (snd (try_eff m h w)))
      | Inl e \<Rightarrow> E (pw_dir (snd (try_eff m h w))))"
  proof (cases r)
    case (Inr a)
    then show ?thesis using h m by (simp add: eff_simps)
  next
    case (Inl e)
    then have "try_eff m h w = h e w1" using m by (simp add: eff_simps)
    then show ?thesis using h Inl assms(2) [of e, unfolded triple_def] by (metis sum.simps(5))
  qed
qed

lemma triple_on_error:
  assumes "triple S P m Q M" "triple S M h (\<lambda>u. E) E"
  shows "triple S P (on_error m h) Q E"
  unfolding on_error_def
  by (rule triple_try [OF assms(1)], rule triple_bind [OF assms(2)], rule triple_raise)

lemma triple_read: "(\<And>d. P d \<Longrightarrow> Q (f d) d) \<Longrightarrow> triple S P (read_dir f) Q E"
  by (simp add: triple_def read_dir_def)

lemma triple_call:
  assumes "stable OS P"
    and "\<And>d. P d \<Longrightarrow> S (snd (f d)) \<and> (case fst (f d) of Inr a \<Rightarrow> Q a (snd (f d)) | Inl e \<Rightarrow> E (snd (f d)))"
    and "\<And>d n. P d \<Longrightarrow> S (g n d) \<and> E (g n d)"
  shows "triple S P (os_call OS f g) Q E"
  unfolding triple_def
proof (intro allI impI)
  fix w :: publish_world assume w: "P (pw_dir w) \<and> (\<forall>d\<in>set (pw_seen w). S d)"
  let ?d = "os_others OS (pw_step w) (pw_dir w)"
  have p: "P ?d" using w stableD [OF assms(1)] by blast
  show "(\<forall>d\<in>set (pw_seen (snd (os_call OS f g w))). S d) \<and>
     (case fst (os_call OS f g w) of Inr a \<Rightarrow> Q a (pw_dir (snd (os_call OS f g w)))
      | Inl e \<Rightarrow> E (pw_dir (snd (os_call OS f g w))))"
    using w assms(2) [OF p] assms(3) [OF p]
    by (auto simp: os_call_def Let_def advance_def split: option.splits prod.splits sum.splits)
qed

lemma triple_quiet:
  assumes "stable OS P" "\<And>d. P d \<Longrightarrow> S (f d) \<and> Q () (f d)" "\<And>d. P d \<Longrightarrow> S d \<and> Q () d"
  shows "triple S P (os_quiet OS f) Q E"
  unfolding triple_def
proof (intro allI impI)
  fix w :: publish_world assume w: "P (pw_dir w) \<and> (\<forall>d\<in>set (pw_seen w). S d)"
  let ?d = "os_others OS (pw_step w) (pw_dir w)"
  have p: "P ?d" using w stableD [OF assms(1)] by blast
  show "(\<forall>d\<in>set (pw_seen (snd (os_quiet OS f w))). S d) \<and>
     (case fst (os_quiet OS f w) of Inr a \<Rightarrow> Q a (pw_dir (snd (os_quiet OS f w)))
      | Inl e \<Rightarrow> E (pw_dir (snd (os_quiet OS f w))))"
    using w assms(2) [OF p] assms(3) [OF p] by (auto simp: os_quiet_def Let_def advance_def)
qed

lemma triple_each:
  assumes "\<And>v. v \<in> set vs \<Longrightarrow> triple S P (os_quiet OS (f v)) (\<lambda>u. P) E"
  shows "triple S P (quiet_each OS f vs) (\<lambda>u. P) E"
  using assms by (induction vs) (auto intro: triple_return triple_bind)

section \<open>The named path is atomic\<close>

text \<open>
  What a publisher of \<open>name\<close> relies on: fresh names carry the requested prefix and are used
  nowhere, and the other processes touch neither the name, nor the names this publisher makes
  up, nor the versions of this name (its lock is held).
\<close>

definition own_version :: "string \<Rightarrow> string \<Rightarrow> bool" where
  "own_version name v \<longleftrightarrow> py_startswith v (version_prefix name)"

definition publisher_ok :: "publish_os \<Rightarrow> string \<Rightarrow> string set \<Rightarrow> bool" where
  "publisher_ok OS name mine \<longleftrightarrow>
     (\<forall>p d. py_startswith (os_fresh OS p d) p \<and> os_fresh OS p d \<in> mine \<and>
        node_of d (os_fresh OS p d) = None \<and> version_of d (os_fresh OS p d) = None \<and>
        (\<forall>n. node_of d n \<noteq> Some (VersionLink (os_fresh OS p d)))) \<and>
     name \<notin> mine \<and>
     (\<forall>k d. (\<forall>n. n = name \<or> n \<in> mine \<longrightarrow> node_of (os_others OS k d) n = node_of d n) \<and>
        (\<forall>v. own_version name v \<longrightarrow> version_of (os_others OS k d) v = version_of d v))"

lemma publisher_fresh:
  assumes "publisher_ok OS name mine"
  shows "py_startswith (os_fresh OS p d) p" "os_fresh OS p d \<in> mine" "os_fresh OS p d \<noteq> name"
    "node_of d (os_fresh OS p d) = None" "version_of d (os_fresh OS p d) = None"
    "node_of d n \<noteq> Some (VersionLink (os_fresh OS p d))"
  using assms unfolding publisher_ok_def by blast+

lemma publisher_rely:
  assumes "publisher_ok OS name mine"
  shows "node_of (os_others OS k d) name = node_of d name"
    "n \<in> mine \<Longrightarrow> node_of (os_others OS k d) n = node_of d n"
    "own_version name v \<Longrightarrow> version_of (os_others OS k d) v = version_of d v"
  using assms unfolding publisher_ok_def by blast+

definition as_before :: "string \<Rightarrow> engines_dir \<Rightarrow> engines_dir \<Rightarrow> bool" where
  "as_before name d0 d \<longleftrightarrow> node_of d name = node_of d0 name \<and>
     (\<forall>v. node_of d0 name = Some (VersionLink v) \<longrightarrow> own_version name v \<and> version_of d v = version_of d0 v)"

definition staged :: "string \<Rightarrow> string set \<Rightarrow> engines_dir \<Rightarrow> string \<Rightarrow> package \<Rightarrow> engines_dir \<Rightarrow> bool" where
  "staged name mine d0 s p d \<longleftrightarrow> as_before name d0 d \<and> s \<in> mine \<and> node_of d s = Some (RealDir p)"

definition ready :: "string \<Rightarrow> engines_dir \<Rightarrow> package \<Rightarrow> string \<Rightarrow> engines_dir \<Rightarrow> bool" where
  "ready name d0 new v d \<longleftrightarrow> as_before name d0 d \<and> own_version name v \<and> version_of d v = Some new"

definition linked :: "string \<Rightarrow> string set \<Rightarrow> engines_dir \<Rightarrow> package \<Rightarrow> string \<Rightarrow> string \<Rightarrow> engines_dir \<Rightarrow> bool" where
  "linked name mine d0 new v l d \<longleftrightarrow> ready name d0 new v d \<and> l \<in> mine \<and> node_of d l = Some (VersionLink v)"

definition migrated :: "string \<Rightarrow> string set \<Rightarrow> engines_dir \<Rightarrow> package \<Rightarrow> string \<Rightarrow> string \<Rightarrow> engines_dir \<Rightarrow> bool" where
  "migrated name mine d0 new v l d \<longleftrightarrow> node_of d name = None \<and>
     (\<exists>p w. node_of d0 name = Some (RealDir p) \<and> own_version name w \<and> version_of d w = Some p) \<and>
     own_version name v \<and> version_of d v = Some new \<and> l \<in> mine \<and> node_of d l = Some (VersionLink v)"

definition flipped :: "string \<Rightarrow> package \<Rightarrow> string \<Rightarrow> engines_dir \<Rightarrow> bool" where
  "flipped name new v d \<longleftrightarrow> node_of d name = Some (VersionLink v) \<and> own_version name v \<and> version_of d v = Some new"

text \<open>
  What a reader may find: the old package, the complete new one or - only while a real directory of
  an old release is being migrated - nothing, with the old package kept as a version.
\<close>

definition never_lost :: "string \<Rightarrow> engines_dir \<Rightarrow> package \<Rightarrow> engines_dir \<Rightarrow> bool" where
  "never_lost name d0 new d \<longleftrightarrow>
     resolve_name d name = resolve_name d0 name \<or> resolve_name d name = Some new \<or>
     resolve_name d name = None \<and>
       (\<exists>p w. node_of d0 name = Some (RealDir p) \<and> own_version name w \<and> version_of d w = Some p)"

lemma as_before_safe: "as_before name d0 d \<Longrightarrow> never_lost name d0 new d"
  by (auto simp: as_before_def never_lost_def resolve_name_def split: option.splits dir_node.splits)

lemma phase_safe:
  "staged name mine d0 s p d \<Longrightarrow> never_lost name d0 new d"
  "ready name d0 new v d \<Longrightarrow> never_lost name d0 new d"
  "linked name mine d0 new v l d \<Longrightarrow> never_lost name d0 new d"
  "migrated name mine d0 new v l d \<Longrightarrow> never_lost name d0 new d"
  "flipped name new v d \<Longrightarrow> never_lost name d0 new d"
  by (auto simp: staged_def ready_def linked_def intro: as_before_safe)
    (auto simp: migrated_def flipped_def never_lost_def resolve_name_def)

lemma phase_stable:
  assumes "publisher_ok OS name mine"
  shows "stable OS (as_before name d0)" "stable OS (staged name mine d0 s p)"
    "stable OS (ready name d0 new v)" "stable OS (linked name mine d0 new v l)"
    "stable OS (migrated name mine d0 new v l)" "stable OS (flipped name new v)"
proof -
  note r = publisher_rely [OF assms]
  show b: "stable OS (as_before name d0)" by (auto simp: stable_def as_before_def r)
  then show "stable OS (staged name mine d0 s p)" by (auto simp: stable_def staged_def r)
  show y: "stable OS (ready name d0 new v)" using b by (auto simp: stable_def ready_def r)
  then show "stable OS (linked name mine d0 new v l)" by (auto simp: stable_def linked_def r)
  show "stable OS (migrated name mine d0 new v l)" by (force simp: stable_def migrated_def r)
  show "stable OS (flipped name new v)" by (auto simp: stable_def flipped_def r)
qed

lemma as_before_other [simp]:
  "n \<noteq> name \<Longrightarrow> as_before name d0 (put_node n x d) = as_before name d0 d"
  "n \<noteq> name \<Longrightarrow> as_before name d0 (del_node n d) = as_before name d0 d"
  by (simp_all add: as_before_def)

lemma as_before_version:
  "as_before name d0 d \<Longrightarrow> (\<And>n. node_of d n \<noteq> Some (VersionLink v)) \<Longrightarrow> as_before name d0 (put_version v p d)"
  by (auto simp: as_before_def)

lemma triple_checked:
  assumes "publisher_ok OS name mine"
  shows "triple (never_lost name d0 new) (as_before name d0) (checked_call OS) (\<lambda>u. as_before name d0) (as_before name d0)"
  unfolding checked_call_def
  by (rule triple_call [OF phase_stable(1) [OF assms]]) (simp_all add: as_before_safe)

lemma triple_staging:
  assumes "publisher_ok OS name mine"
  shows "triple (never_lost name d0 new) (as_before name d0) (make_staging OS i)
    (\<lambda>s. staged name mine d0 s empty_package) (as_before name d0)"
  unfolding make_staging_def
proof (rule triple_call [OF phase_stable(1) [OF assms]])
  fix d assume d: "as_before name d0 d"
  let ?s = "os_fresh OS (''.tmp-'' @ i @ ''-'') d"
  have "staged name mine d0 ?s empty_package (put_node ?s (RealDir empty_package) d)"
    using d publisher_fresh [OF assms] by (simp add: staged_def)
  then show "never_lost name d0 new (snd (let s = ?s in (Inr s, put_node s (RealDir empty_package) d))) \<and>
      (case fst (let s = ?s in (Inr s, put_node s (RealDir empty_package) d)) of
        Inr a \<Rightarrow> staged name mine d0 a empty_package (snd (let s = ?s in (Inr s, put_node s (RealDir empty_package) d)))
      | Inl e \<Rightarrow> as_before name d0 (snd (let s = ?s in (Inr s, put_node s (RealDir empty_package) d))))"
    by (simp add: Let_def phase_safe(1))
qed (simp add: as_before_safe)

lemma triple_fill:
  assumes "publisher_ok OS name mine"
  shows "triple (never_lost name d0 new) (staged name mine d0 s p)
    (os_call OS (\<lambda>d. (Inr (), on_package s f d)) (\<lambda>n. on_package s (g n)))
    (\<lambda>u. staged name mine d0 s (f p)) (\<lambda>d. \<exists>p. staged name mine d0 s p d)"
proof (rule triple_call [OF phase_stable(2) [OF assms]])
  have k: "staged name mine d0 s (h p) (on_package s h d)" if "staged name mine d0 s p d" for h d
  proof -
    have "s \<noteq> name" using that assms by (auto simp: staged_def publisher_ok_def)
    then show ?thesis using that by (simp add: staged_def on_package_def)
  qed
  fix d n assume d: "staged name mine d0 s p d"
  show "never_lost name d0 new (snd (Inr () :: py_error + unit, on_package s f d)) \<and>
      (case fst (Inr () :: py_error + unit, on_package s f d) of
        Inr a \<Rightarrow> staged name mine d0 s (f p) (snd (Inr () :: py_error + unit, on_package s f d))
      | Inl e \<Rightarrow> \<exists>p. staged name mine d0 s p (snd (Inr () :: py_error + unit, on_package s f d)))"
    using k [OF d] phase_safe(1) [OF k [OF d]] by auto
  show "never_lost name d0 new (on_package s (g n) d) \<and> (\<exists>p. staged name mine d0 s p (on_package s (g n) d))"
    using k [OF d] phase_safe(1) by blast
qed

lemma triple_populate:
  assumes "publisher_ok OS name mine"
  shows "triple (never_lost name d0 new) (staged name mine d0 s empty_package) (populate OS ws bundle m s)
    (\<lambda>u. staged name mine d0 s (full_package ws bundle m)) (\<lambda>d. \<exists>p. staged name mine d0 s p d)"
proof -
  let ?S = "never_lost name d0 new" and ?E = "\<lambda>d. \<exists>p. staged name mine d0 s p d"
  let ?copied = "empty_package\<lparr>pk_files := shipped_files ws\<rparr>"
  let ?data = "case bundle of None \<Rightarrow> ?copied | Some b \<Rightarrow> ?copied\<lparr>pk_files := dict_update (shipped_files ws) (bundled b)\<rparr>"
  have whole: "?data\<lparr>pk_manifest := Some m\<rparr> = full_package ws bundle m"
    by (simp add: full_package_def empty_package_def split: option.split)
  have copy: "triple ?S (staged name mine d0 s ?copied) (case bundle of
         None \<Rightarrow> return_eff ()
       | Some b \<Rightarrow> os_call OS (\<lambda>d. (Inr (), on_package s (\<lambda>p. p\<lparr>pk_files := dict_update (pk_files p) (bundled b)\<rparr>) d))
           (\<lambda>n. on_package s (\<lambda>p. p\<lparr>pk_files := dict_update (pk_files p) (take n (bundled b))\<rparr>)))
     (\<lambda>u. staged name mine d0 s ?data) ?E"
  proof (cases "bundle")
    case None
    then show ?thesis by (simp add: triple_return)
  next
    case (Some b)
    then show ?thesis
      using triple_fill [OF assms, of d0 new s ?copied "\<lambda>p. p\<lparr>pk_files := dict_update (pk_files p) (bundled b)\<rparr>"
        "\<lambda>n p. p\<lparr>pk_files := dict_update (pk_files p) (take n (bundled b))\<rparr>"] by simp
  qed
  have mani: "triple ?S (staged name mine d0 s ?data)
      (os_call OS (\<lambda>d. (Inr (), on_package s (\<lambda>p. p\<lparr>pk_manifest := Some m\<rparr>) d)) unchanged)
      (\<lambda>u. staged name mine d0 s (full_package ws bundle m)) ?E"
  proof (rule triple_call [OF phase_stable(2) [OF assms]])
    fix d n assume d: "staged name mine d0 s ?data d"
    then have "s \<noteq> name" using assms by (auto simp: staged_def publisher_ok_def)
    then have "staged name mine d0 s (full_package ws bundle m) (on_package s (\<lambda>p. p\<lparr>pk_manifest := Some m\<rparr>) d)"
      using d whole by (simp add: staged_def on_package_def)
    then show "?S (snd (Inr () :: py_error + unit, on_package s (\<lambda>p. p\<lparr>pk_manifest := Some m\<rparr>) d)) \<and>
        (case fst (Inr () :: py_error + unit, on_package s (\<lambda>p. p\<lparr>pk_manifest := Some m\<rparr>) d) of
          Inr a \<Rightarrow> staged name mine d0 s (full_package ws bundle m) (snd (Inr () :: py_error + unit, on_package s (\<lambda>p. p\<lparr>pk_manifest := Some m\<rparr>) d))
        | Inl e \<Rightarrow> ?E (snd (Inr () :: py_error + unit, on_package s (\<lambda>p. p\<lparr>pk_manifest := Some m\<rparr>) d)))"
      using phase_safe(1) by auto
    show "?S d \<and> ?E d" using d phase_safe(1) by blast
  qed
  show ?thesis unfolding populate_def
    by (rule triple_bind [OF triple_fill [OF assms, where p = empty_package and f = "\<lambda>p. p\<lparr>pk_files := shipped_files ws\<rparr>"
          and g = "\<lambda>n p. p\<lparr>pk_files := take n (shipped_files ws)\<rparr>"]])
      (rule triple_bind [OF copy mani])
qed

lemma triple_drop_staging:
  assumes "publisher_ok OS name mine" "s \<in> mine"
  shows "triple (never_lost name d0 new) (as_before name d0) (os_quiet OS (del_node s)) (\<lambda>u. as_before name d0) E"
proof (rule triple_quiet [OF phase_stable(1) [OF assms(1)]])
  have "s \<noteq> name" using assms by (auto simp: publisher_ok_def)
  then show "as_before name d0 d \<Longrightarrow> never_lost name d0 new (del_node s d) \<and> as_before name d0 (del_node s d)" for d
    by (simp add: as_before_safe)
qed (simp add: as_before_safe)

lemma triple_version:
  assumes "publisher_ok OS name mine"
  shows "triple (never_lost name d0 (full_package ws bundle m)) (as_before name d0) (publish_version OS ws bundle m name)
    (\<lambda>v. ready name d0 (full_package ws bundle m) v) (as_before name d0)"
  unfolding publish_version_def
proof (rule triple_bind [OF triple_staging [OF assms]])
  let ?new = "full_package ws bundle m" let ?S = "never_lost name d0 ?new"
  fix s
  have body: "triple ?S (staged name mine d0 s empty_package)
      (bind_eff (populate OS ws bundle m s) (\<lambda>u.
         os_call OS (\<lambda>d. move_to_version s (os_fresh OS (version_prefix name) d) d) unchanged))
      (\<lambda>v. ready name d0 ?new v) (\<lambda>d. as_before name d0 d \<and> s \<in> mine)"
  proof (rule triple_bind)
    show "triple ?S (staged name mine d0 s empty_package) (populate OS ws bundle m s)
        (\<lambda>u. staged name mine d0 s ?new) (\<lambda>d. as_before name d0 d \<and> s \<in> mine)"
      by (rule triple_conseq [OF triple_populate [OF assms]]) (auto simp: staged_def)
  next
    fix u :: unit
    show "triple ?S (staged name mine d0 s ?new)
        (os_call OS (\<lambda>d. move_to_version s (os_fresh OS (version_prefix name) d) d) unchanged)
        (\<lambda>v. ready name d0 ?new v) (\<lambda>d. as_before name d0 d \<and> s \<in> mine)"
    proof (rule triple_call [OF phase_stable(2) [OF assms]])
      fix d n assume d: "staged name mine d0 s ?new d"
      let ?v = "os_fresh OS (version_prefix name) d"
      have "s \<noteq> name" using d assms by (auto simp: staged_def publisher_ok_def)
      then have "as_before name d0 (put_version ?v ?new (del_node s d))"
        using d publisher_fresh(6) [OF assms] by (intro as_before_version) (auto simp: staged_def)
      then have "ready name d0 ?new ?v (put_version ?v ?new (del_node s d))"
        using publisher_fresh(1) [OF assms] by (simp add: ready_def own_version_def)
      then show "?S (snd (move_to_version s ?v d)) \<and> (case fst (move_to_version s ?v d) of
          Inr v \<Rightarrow> ready name d0 ?new v (snd (move_to_version s ?v d))
        | Inl e \<Rightarrow> as_before name d0 (snd (move_to_version s ?v d)) \<and> s \<in> mine)"
        using d phase_safe(2) by (auto simp: move_to_version_def staged_def)
      show "?S d \<and> as_before name d0 d \<and> s \<in> mine" using d by (auto simp: staged_def as_before_safe)
    qed
  qed
  show "triple ?S (staged name mine d0 s empty_package) (on_error
         (bind_eff (populate OS ws bundle m s) (\<lambda>u.
            os_call OS (\<lambda>d. move_to_version s (os_fresh OS (version_prefix name) d) d) unchanged))
         (os_quiet OS (del_node s))) (\<lambda>v. ready name d0 ?new v) (as_before name d0)"
  proof (rule triple_on_error [OF body])
    show "triple ?S (\<lambda>d. as_before name d0 d \<and> s \<in> mine) (os_quiet OS (del_node s)) (\<lambda>u. as_before name d0) (as_before name d0)"
    proof (cases "s \<in> mine")
      case True
      show ?thesis by (rule triple_conseq [OF triple_drop_staging [OF assms True]]) auto
    qed (simp add: triple_def)
  qed
qed

lemma triple_link:
  assumes "publisher_ok OS name mine"
  shows "triple (never_lost name d0 new) (ready name d0 new v) (make_link OS v)
    (\<lambda>l. linked name mine d0 new v l) (never_lost name d0 new)"
  unfolding make_link_def
proof (rule triple_call [OF phase_stable(3) [OF assms]])
  fix d assume d: "ready name d0 new v d"
  let ?l = "os_fresh OS ''.link-'' d"
  have "linked name mine d0 new v ?l (put_node ?l (VersionLink v) d)"
    using d publisher_fresh [OF assms] by (simp add: linked_def ready_def)
  then show "never_lost name d0 new (snd (let l = ?l in (Inr l, put_node l (VersionLink v) d))) \<and>
      (case fst (let l = ?l in (Inr l, put_node l (VersionLink v) d)) of
        Inr l \<Rightarrow> linked name mine d0 new v l (snd (let l = ?l in (Inr l, put_node l (VersionLink v) d)))
      | Inl e \<Rightarrow> never_lost name d0 new (snd (let l = ?l in (Inr l, put_node l (VersionLink v) d))))"
    by (simp add: Let_def phase_safe(3))
qed (simp add: phase_safe(2))

lemma triple_flip:
  assumes "publisher_ok OS name mine"
  shows "triple (never_lost name d0 new) (linked name mine d0 new v l) (flip_name OS name l)
    (\<lambda>u. flipped name new v) (never_lost name d0 new)"
  unfolding flip_name_def
proof (rule triple_on_error [where M = "\<lambda>d. linked name mine d0 new v l d \<or> migrated name mine d0 new v l d"])
  let ?S = "never_lost name d0 new"
  let ?M = "\<lambda>d. linked name mine d0 new v l d \<or> migrated name mine d0 new v l d"
  have mine_name: "linked name mine d0 new v l d \<or> migrated name mine d0 new v l d \<Longrightarrow> l \<noteq> name" for d
    using assms by (auto simp: linked_def migrated_def publisher_ok_def)
  have flip: "triple ?S P (os_call OS (flip_link l name) unchanged) (\<lambda>u. flipped name new v) ?M"
    if P: "stable OS P" "\<And>d. P d \<Longrightarrow> ?M d \<and> \<not> is_real_dir name d" for P
  proof (rule triple_call [OF P(1)])
    fix d n assume "P d"
    then have m: "?M d" "\<not> is_real_dir name d" using P(2) by auto
    have l: "node_of d l = Some (VersionLink v)" "own_version name v" "version_of d v = Some new" "l \<noteq> name"
      using m(1) mine_name [of d] by (auto simp: linked_def migrated_def ready_def)
    then have f: "flip_link l name d = (Inr (), put_node name (VersionLink v) (del_node l d))"
      using m(2) by (auto simp: flip_link_def is_real_dir_def split: option.splits dir_node.splits)
    have "flipped name new v (put_node name (VersionLink v) (del_node l d))"
      using l by (simp add: flipped_def)
    then show "?S (snd (flip_link l name d)) \<and> (case fst (flip_link l name d) of
        Inr u \<Rightarrow> flipped name new v (snd (flip_link l name d)) | Inl e \<Rightarrow> ?M (snd (flip_link l name d)))"
      using f phase_safe(5) by simp
    show "?S d \<and> ?M d" using m(1) phase_safe(3,4) by blast
  qed
  have migrate: "triple ?S (\<lambda>d. linked name mine d0 new v l d \<and> is_real_dir name d) (migrate_legacy OS name)
      (\<lambda>u. migrated name mine d0 new v l) ?M"
    unfolding migrate_legacy_def
  proof (rule triple_bind [where M = "\<lambda>a. migrated name mine d0 new v l"])
    show "triple ?S (\<lambda>d. linked name mine d0 new v l d \<and> is_real_dir name d)
        (os_call OS (\<lambda>d. move_to_version name (os_fresh OS (version_prefix name @ ''legacy-'') d) d) unchanged)
        (\<lambda>a. migrated name mine d0 new v l) ?M"
    proof (rule triple_call)
      show "stable OS (\<lambda>d. linked name mine d0 new v l d \<and> is_real_dir name d)"
        using phase_stable(4) [OF assms] publisher_rely(1) [OF assms]
        by (simp add: stable_def is_real_dir_def)
      fix d n assume d: "linked name mine d0 new v l d \<and> is_real_dir name d"
      let ?w = "os_fresh OS (version_prefix name @ ''legacy-'') d"
      obtain p where p: "node_of d name = Some (RealDir p)"
        using d by (auto simp: is_real_dir_def split: option.splits dir_node.splits)
      have w: "own_version name ?w" "version_of d ?w = None"
        using publisher_fresh(1) [OF assms, of "version_prefix name @ ''legacy-''" d] publisher_fresh(5) [OF assms]
        by (auto simp: own_version_def py_startswith_iff)
      have "node_of d0 name = Some (RealDir p)" using d p by (simp add: linked_def ready_def as_before_def)
      moreover have "v \<noteq> ?w" using d w(2) by (auto simp: linked_def ready_def)
      ultimately have "migrated name mine d0 new v l (put_version ?w p (del_node name d))"
        using d w(1) mine_name [of d] by (auto simp: migrated_def linked_def ready_def)
      then show "?S (snd (move_to_version name ?w d)) \<and> (case fst (move_to_version name ?w d) of
          Inr a \<Rightarrow> migrated name mine d0 new v l (snd (move_to_version name ?w d))
        | Inl e \<Rightarrow> ?M (snd (move_to_version name ?w d)))"
        using p phase_safe(4) by (simp add: move_to_version_def)
      show "?S d \<and> ?M d" using d phase_safe(3) by blast
    qed
  qed (simp add: triple_return)
  show "triple ?S (linked name mine d0 new v l)
     (bind_eff (read_dir (is_real_dir name)) (\<lambda>legacy.
        bind_eff (if legacy then migrate_legacy OS name else return_eff ()) (\<lambda>u. os_call OS (flip_link l name) unchanged)))
     (\<lambda>u. flipped name new v) ?M"
  proof (rule triple_bind [where M = "\<lambda>legacy d. linked name mine d0 new v l d \<and> legacy = is_real_dir name d"])
    show "triple ?S (linked name mine d0 new v l) (read_dir (is_real_dir name))
        (\<lambda>legacy d. linked name mine d0 new v l d \<and> legacy = is_real_dir name d) ?M"
      by (rule triple_read) simp
  next
    fix legacy
    show "triple ?S (\<lambda>d. linked name mine d0 new v l d \<and> legacy = is_real_dir name d)
        (bind_eff (if legacy then migrate_legacy OS name else return_eff ()) (\<lambda>u. os_call OS (flip_link l name) unchanged))
        (\<lambda>u. flipped name new v) ?M"
    proof (cases legacy)
      case True
      have "stable OS (migrated name mine d0 new v l)" by (rule phase_stable [OF assms])
      moreover have "migrated name mine d0 new v l d \<Longrightarrow> ?M d \<and> \<not> is_real_dir name d" for d
        by (simp add: migrated_def is_real_dir_def)
      ultimately show ?thesis using True triple_bind [OF migrate flip] by simp
    next
      case False
      have "stable OS (\<lambda>d. linked name mine d0 new v l d \<and> \<not> is_real_dir name d)"
        using phase_stable(4) [OF assms] publisher_rely(1) [OF assms] by (simp add: stable_def is_real_dir_def)
      then have "triple ?S (\<lambda>d. linked name mine d0 new v l d \<and> \<not> is_real_dir name d)
          (os_call OS (flip_link l name) unchanged) (\<lambda>u. flipped name new v) ?M"
        by (rule flip) simp
      then have "triple ?S (\<lambda>d. linked name mine d0 new v l d \<and> \<not> is_real_dir name d)
          (bind_eff (return_eff ()) (\<lambda>u. os_call OS (flip_link l name) unchanged)) (\<lambda>u. flipped name new v) ?M"
        by (intro triple_bind [OF triple_return])
      then show ?thesis using False by simp
    qed
  qed
  show "triple ?S ?M (os_call OS (\<lambda>d. (Inr (), del_node l d)) unchanged) (\<lambda>u. ?S) ?S"
  proof (rule triple_call)
    show "stable OS ?M" using phase_stable(4,5) [OF assms] unfolding stable_def by blast
    fix d n assume m: "?M d"
    then have "never_lost name d0 new (del_node l d)"
      using mine_name [of d] by (auto simp: linked_def ready_def as_before_safe)
        (auto simp: migrated_def never_lost_def resolve_name_def)
    then show "?S (snd (Inr () :: py_error + unit, del_node l d)) \<and> (case fst (Inr () :: py_error + unit, del_node l d) of
        Inr u \<Rightarrow> ?S (snd (Inr () :: py_error + unit, del_node l d)) | Inl e \<Rightarrow> ?S (snd (Inr () :: py_error + unit, del_node l d)))"
      by simp
    show "?S d \<and> ?S d" using m phase_safe(3,4) by blast
  qed
qed

lemma triple_gc:
  assumes "publisher_ok OS name mine"
  shows "triple (never_lost name d0 new) (flipped name new v) (gc_versions OS name v) (\<lambda>u. flipped name new v) (never_lost name d0 new)"
  unfolding gc_versions_def
proof (rule triple_bind [where M = "\<lambda>vs d. flipped name new v d \<and> v \<notin> set vs"])
  show "triple (never_lost name d0 new) (flipped name new v)
      (os_call OS (\<lambda>d. (Inr (superseded name v d), d)) unchanged)
      (\<lambda>vs d. flipped name new v d \<and> v \<notin> set vs) (never_lost name d0 new)"
    by (rule triple_call [OF phase_stable(6) [OF assms]]) (auto simp: phase_safe(5) superseded_def)
next
  fix vs
  show "triple (never_lost name d0 new) (\<lambda>d. flipped name new v d \<and> v \<notin> set vs) (quiet_each OS del_version vs)
      (\<lambda>u. flipped name new v) (never_lost name d0 new)"
  proof (cases "v \<in> set vs")
    case False
    have "triple (never_lost name d0 new) (flipped name new v) (quiet_each OS del_version vs)
        (\<lambda>u. flipped name new v) (never_lost name d0 new)"
    proof (rule triple_each)
      fix w assume "w \<in> set vs"
      then have "w \<noteq> v" using False by auto
      then have "flipped name new v d \<Longrightarrow> flipped name new v (del_version w d)" for d
        by (simp add: flipped_def)
      then show "triple (never_lost name d0 new) (flipped name new v) (os_quiet OS (del_version w))
          (\<lambda>u. flipped name new v) (never_lost name d0 new)"
        by (intro triple_quiet [OF phase_stable(6) [OF assms]]) (auto intro: phase_safe(5))
    qed
    then show ?thesis using False by simp
  qed (simp add: triple_def)
qed

lemma triple_named:
  assumes "publisher_ok OS name mine"
  shows "triple (never_lost name d0 (full_package ws bundle m)) (as_before name d0) (publish_named OS ws bundle m name)
    (\<lambda>n d. n = name \<and> resolve_name d name = Some (full_package ws bundle m))
    (never_lost name d0 (full_package ws bundle m))"
proof -
  let ?new = "full_package ws bundle m"
  let ?S = "never_lost name d0 ?new" and ?Q = "\<lambda>n d. n = name \<and> resolve_name d name = Some ?new"
  have gc: "triple ?S (flipped name ?new v) (bind_eff (gc_versions OS name v) (\<lambda>u. return_eff name)) ?Q ?S" for v
    by (rule triple_bind [OF triple_gc [OF assms(1)]], rule triple_return) (simp add: flipped_def resolve_name_def)
  have flip: "triple ?S (linked name mine d0 ?new v l)
      (bind_eff (flip_name OS name l) (\<lambda>u. bind_eff (gc_versions OS name v) (\<lambda>u. return_eff name))) ?Q ?S" for v l
    by (rule triple_bind [OF triple_flip [OF assms(1)] gc])
  have link: "triple ?S (ready name d0 ?new v) (bind_eff (make_link OS v) (\<lambda>l.
      bind_eff (flip_name OS name l) (\<lambda>u. bind_eff (gc_versions OS name v) (\<lambda>u. return_eff name)))) ?Q ?S" for v
    by (rule triple_bind [OF triple_link [OF assms(1)] flip])
  have "triple ?S (as_before name d0) (publish_version OS ws bundle m name) (ready name d0 ?new) ?S"
    by (rule triple_conseq [OF triple_version [OF assms(1)]]) (auto intro: as_before_safe)
  note version = triple_bind [OF this link]
  have "triple ?S (as_before name d0) (checked_call OS) (\<lambda>u. as_before name d0) ?S"
    by (rule triple_conseq [OF triple_checked [OF assms(1)]]) (auto intro: as_before_safe)
  from triple_bind [OF this version] show ?thesis
    unfolding publish_named_def .
qed

text \<open>A quiet operating system: nothing fails, nobody else acts, made-up names are the longest.\<close>

definition longest_name :: "engines_dir \<Rightarrow> nat" where
  "longest_name d = sum_list (map (\<lambda>(n, x). length n + (case x of VersionLink v \<Rightarrow> length v | RealDir p \<Rightarrow> 0)) (ed_nodes d))
     + sum_list (map (\<lambda>(v, p). length v) (ed_versions d))"

definition quiet_os :: publish_os where
  "quiet_os = \<lparr>os_fault = (\<lambda>k. None), os_others = (\<lambda>k d. d),
     os_fresh = (\<lambda>p d. p @ replicate (1 + longest_name d) CHR ''x'')\<rparr>"

definition made_up :: "string set" where
  "made_up = {n. n \<noteq> [] \<and> last n = CHR ''x''}"

lemma sum_list_member: "(x :: nat) \<in> set xs \<Longrightarrow> x \<le> sum_list xs"
  by (induction xs) auto

lemma longest_node:
  assumes "map_of xs n = Some x"
  shows "length n + (case x of VersionLink v \<Rightarrow> length v | RealDir p \<Rightarrow> 0)
    \<le> sum_list (map (\<lambda>(n, x). length n + (case x of VersionLink v \<Rightarrow> length v | RealDir p \<Rightarrow> 0)) xs)"
  by (rule sum_list_member) (use map_of_SomeD [OF assms] in force)

lemma longest_version: "map_of xs v = Some p \<Longrightarrow> length v \<le> sum_list (map (\<lambda>(v, p). length v) xs)"
  by (rule sum_list_member) (auto dest: map_of_SomeD)

lemma quiet_fresh:
  "node_of d (os_fresh quiet_os p d) = None" "version_of d (os_fresh quiet_os p d) = None"
  "node_of d n \<noteq> Some (VersionLink (os_fresh quiet_os p d))"
proof -
  have l: "longest_name d < length (os_fresh quiet_os p d)" by (simp add: quiet_os_def)
  show "node_of d (os_fresh quiet_os p d) = None"
    using l longest_node [of "ed_nodes d" "os_fresh quiet_os p d"]
    by (cases "node_of d (os_fresh quiet_os p d)") (force simp: node_of_def longest_name_def)+
  show "version_of d (os_fresh quiet_os p d) = None"
    using l longest_version [of "ed_versions d" "os_fresh quiet_os p d"]
    by (cases "version_of d (os_fresh quiet_os p d)") (force simp: version_of_def longest_name_def)+
  show "node_of d n \<noteq> Some (VersionLink (os_fresh quiet_os p d))"
    using l longest_node [of "ed_nodes d" n "VersionLink (os_fresh quiet_os p d)"]
    by (auto simp: node_of_def longest_name_def)
qed

lemma quiet_os_ok: "name \<noteq> [] \<Longrightarrow> last name \<noteq> CHR ''x'' \<Longrightarrow> publisher_ok quiet_os name made_up"
  unfolding publisher_ok_def
  using quiet_fresh by (auto simp: quiet_os_def made_up_def py_startswith_append)

definition sample_manifest :: engine_manifest where
  "sample_manifest = \<lparr>mf_engine_id = ''0a1b'', mf_queries = [], mf_storage_mode = ''flat'', mf_scale_factor = None,
     mf_source_run_id = None, mf_expected_tables = [], mf_parquet_dir = None, mf_shm_capable = False,
     mf_source_db = None, mf_threads = None\<rparr>"

definition sample_files :: "(string \<times> string) list" where
  "sample_files = [(''db'', ''ELF''), (''build/q1.so'', ''ELF''), (''build/obj/q1.o'', ''OBJ'')]"

definition sample_dir :: engines_dir where
  "sample_dir = \<lparr>ed_nodes = [(''tpch'', VersionLink ''tpch@1''), (''ds'', VersionLink ''ds@1'')],
     ed_versions = [(''tpch@1'', empty_package), (''ds@1'', empty_package)]\<rparr>"

definition sample_world :: publish_world where
  "sample_world = \<lparr>pw_dir = sample_dir, pw_step = 0, pw_seen = []\<rparr>"



section \<open>Other engines\<close>

text \<open>What a publisher of \<open>name\<close> leaves alone.\<close>

definition spares :: "string \<Rightarrow> string set \<Rightarrow> engines_dir \<Rightarrow> engines_dir \<Rightarrow> bool" where
  "spares name mine d0 d \<longleftrightarrow>
     (\<forall>n. n \<noteq> name \<and> n \<notin> mine \<longrightarrow> node_of d n = node_of d0 n) \<and>
     (\<forall>v. \<not> own_version name v \<longrightarrow> version_of d v = version_of d0 v)"

definition sparing :: "string \<Rightarrow> string set \<Rightarrow> engines_dir \<Rightarrow> (publish_world, 'a) eff \<Rightarrow> ('a \<Rightarrow> bool) \<Rightarrow> bool" where
  "sparing name mine d0 m Q \<longleftrightarrow>
     triple (spares name mine d0) (spares name mine d0) m (\<lambda>a d. spares name mine d0 d \<and> Q a) (spares name mine d0)"

definition alone :: "publish_os \<Rightarrow> bool" where
  "alone OS \<longleftrightarrow> (\<forall>k d. os_others OS k d = d)"

lemma sparing_bind:
  "sparing name mine d0 m Q \<Longrightarrow> (\<And>a. Q a \<Longrightarrow> sparing name mine d0 (f a) R) \<Longrightarrow> sparing name mine d0 (bind_eff m f) R"
  unfolding sparing_def
proof (rule triple_bind, assumption)
  fix a assume h: "\<And>a. Q a \<Longrightarrow> triple (spares name mine d0) (spares name mine d0) (f a)
      (\<lambda>a d. spares name mine d0 d \<and> R a) (spares name mine d0)"
  show "triple (spares name mine d0) (\<lambda>d. spares name mine d0 d \<and> Q a) (f a)
      (\<lambda>a d. spares name mine d0 d \<and> R a) (spares name mine d0)"
  proof (cases "Q a")
    case True
    show ?thesis by (rule triple_conseq [OF h [OF True]]) auto
  qed (simp add: triple_def)
qed

lemma sparing_on_error:
  "sparing name mine d0 m Q \<Longrightarrow> sparing name mine d0 h (\<lambda>u. True) \<Longrightarrow> sparing name mine d0 (on_error m h) Q"
  unfolding sparing_def by (rule triple_on_error) auto

lemma sparing_return: "Q a \<Longrightarrow> sparing name mine d0 (return_eff a) Q"
  unfolding sparing_def by (rule triple_return) simp

lemma sparing_read: "sparing name mine d0 (read_dir f) (\<lambda>a. True)"
  unfolding sparing_def by (rule triple_read) simp

lemma sparing_call:
  assumes "alone OS" "\<And>d. spares name mine d0 d \<Longrightarrow> spares name mine d0 (snd (f d))"
    "\<And>d n. spares name mine d0 d \<Longrightarrow> spares name mine d0 (g n d)"
    "\<And>d a. fst (f d) = Inr a \<Longrightarrow> Q a"
  shows "sparing name mine d0 (os_call OS f g) Q"
  unfolding sparing_def
  by (rule triple_call) (use assms in \<open>auto simp: stable_def alone_def split: sum.splits\<close>)

lemma sparing_quiet:
  assumes "alone OS" "\<And>d. spares name mine d0 d \<Longrightarrow> spares name mine d0 (f d)"
  shows "sparing name mine d0 (os_quiet OS f) (\<lambda>u. True)"
  unfolding sparing_def by (rule triple_quiet) (use assms in \<open>auto simp: stable_def alone_def\<close>)

lemma sparing_each:
  assumes "alone OS" "\<And>v d. v \<in> set vs \<Longrightarrow> spares name mine d0 d \<Longrightarrow> spares name mine d0 (f v d)"
  shows "sparing name mine d0 (quiet_each OS f vs) (\<lambda>u. True)"
  using assms by (induction vs) (auto intro!: sparing_return sparing_bind [OF sparing_quiet])

lemma sparing_weaken: "sparing name mine d0 m Q \<Longrightarrow> (\<And>a. Q a \<Longrightarrow> R a) \<Longrightarrow> sparing name mine d0 m R"
  unfolding sparing_def by (erule triple_conseq) auto

lemma spares_own:
  "n = name \<or> n \<in> mine \<Longrightarrow> spares name mine d0 d \<Longrightarrow> spares name mine d0 (put_node n x d)"
  "n = name \<or> n \<in> mine \<Longrightarrow> spares name mine d0 d \<Longrightarrow> spares name mine d0 (del_node n d)"
  "own_version name v \<Longrightarrow> spares name mine d0 d \<Longrightarrow> spares name mine d0 (put_version v p d)"
  "own_version name v \<Longrightarrow> spares name mine d0 d \<Longrightarrow> spares name mine d0 (del_version v d)"
  "n = name \<or> n \<in> mine \<Longrightarrow> spares name mine d0 d \<Longrightarrow> spares name mine d0 (on_package n h d)"
  by (auto simp: spares_def on_package_def split: option.splits dir_node.splits)

lemma sparing_staging:
  "alone OS \<Longrightarrow> publisher_ok OS name mine \<Longrightarrow> sparing name mine d0 (make_staging OS i) (\<lambda>s. s \<in> mine)"
  unfolding make_staging_def
  by (rule sparing_call) (auto simp: Let_def spares_own(1) publisher_fresh(2))

lemma sparing_populate:
  assumes a: "alone OS" and s: "s \<in> mine"
  shows "sparing name mine d0 (populate OS ws bundle m s) (\<lambda>u. True)"
proof -
  have f: "sparing name mine d0 (os_call OS (\<lambda>d. (Inr (), on_package s h d)) (\<lambda>n. on_package s (k n))) (\<lambda>u. True)" for h k
    by (rule sparing_call [OF a]) (use s in \<open>auto intro!: spares_own(5)\<close>)
  have b: "sparing name mine d0 (os_call OS (\<lambda>d. (Inr (), on_package s h d)) unchanged) (\<lambda>u. True)" for h
    by (rule sparing_call [OF a]) (use s in \<open>auto intro!: spares_own(5)\<close>)
  show ?thesis unfolding populate_def
    by (rule sparing_bind [OF f], rule sparing_bind [where Q = "\<lambda>u. True"])
      (auto intro!: sparing_return f b split: option.split)
qed

lemma move_spares:
  "s = name \<or> s \<in> mine \<Longrightarrow> own_version name v \<Longrightarrow> spares name mine d0 d \<Longrightarrow>
     spares name mine d0 (snd (move_to_version s v d))"
  by (auto simp: move_to_version_def intro!: spares_own(2,3) split: option.split dir_node.split)

lemma flip_spares: "l \<in> mine \<Longrightarrow> spares name mine d0 d \<Longrightarrow> spares name mine d0 (snd (flip_link l name d))"
  by (auto simp: flip_link_def intro!: spares_own(1,2) split: option.split dir_node.split)

lemma fresh_version: "publisher_ok OS name mine \<Longrightarrow> own_version name (os_fresh OS (version_prefix name @ x) d)"
  using publisher_fresh(1) [of OS name mine "version_prefix name @ x" d]
  by (auto simp: own_version_def py_startswith_iff)

lemma sparing_named:
  assumes a: "alone OS" and p: "publisher_ok OS name mine"
  shows "sparing name mine d0 (publish_named OS ws bundle m name) (\<lambda>n. True)"
proof -
  have c: "sparing name mine d0 (checked_call OS) (\<lambda>u. True)"
    unfolding checked_call_def by (rule sparing_call [OF a]) auto
  have v: "sparing name mine d0 (publish_version OS ws bundle m name) (\<lambda>v. True)"
    unfolding publish_version_def
  proof (rule sparing_bind [OF sparing_staging [OF a p]], rule sparing_on_error)
    fix s assume s: "s \<in> mine"
    show "sparing name mine d0 (bind_eff (populate OS ws bundle m s) (\<lambda>u.
        os_call OS (\<lambda>d. move_to_version s (os_fresh OS (version_prefix name) d) d) unchanged)) (\<lambda>v. True)"
      by (rule sparing_bind [OF sparing_populate [OF a s]], rule sparing_call [OF a])
        (use s fresh_version [OF p, of "[]"] in \<open>auto intro!: move_spares\<close>)
    show "sparing name mine d0 (os_quiet OS (del_node s)) (\<lambda>u. True)"
      by (rule sparing_quiet [OF a]) (use s in \<open>auto intro!: spares_own(2)\<close>)
  qed
  have l: "sparing name mine d0 (make_link OS v) (\<lambda>l. l \<in> mine)" for v
    unfolding make_link_def
    by (rule sparing_call [OF a]) (auto simp: Let_def spares_own(1) publisher_fresh(2) [OF p])
  have g: "sparing name mine d0 (migrate_legacy OS name) (\<lambda>u. True)"
    unfolding migrate_legacy_def
    by (rule sparing_bind [OF sparing_call [OF a, where Q = "\<lambda>v. True"]])
      (auto intro!: move_spares fresh_version [OF p] sparing_return)
  have f: "sparing name mine d0 (flip_name OS name l) (\<lambda>u. True)" if l: "l \<in> mine" for l
    unfolding flip_name_def
  proof (rule sparing_on_error)
    show "sparing name mine d0 (bind_eff (read_dir (is_real_dir name)) (\<lambda>legacy.
        bind_eff (if legacy then migrate_legacy OS name else return_eff ()) (\<lambda>u. os_call OS (flip_link l name) unchanged))) (\<lambda>u. True)"
      by (rule sparing_bind [OF sparing_read], rule sparing_bind [where Q = "\<lambda>u. True"])
        (use l g in \<open>auto intro!: sparing_return sparing_call [OF a] flip_spares\<close>)
    show "sparing name mine d0 (os_call OS (\<lambda>d. (Inr (), del_node l d)) unchanged) (\<lambda>u. True)"
      by (rule sparing_call [OF a]) (use l in \<open>auto intro!: spares_own(2)\<close>)
  qed
  have sup: "sparing name mine d0 (os_call OS (\<lambda>d. (Inr (superseded name v d), d)) unchanged) (\<lambda>vs. list_all (own_version name) vs)" for v
    by (rule sparing_call [OF a]) (auto simp: superseded_def own_version_def list_all_iff)
  have k: "sparing name mine d0 (gc_versions OS name v) (\<lambda>u. True)" for v
    unfolding gc_versions_def
    by (rule sparing_bind [OF sup], rule sparing_each [OF a]) (auto simp: list_all_iff intro!: spares_own(4))
  show ?thesis unfolding publish_named_def
    by (rule sparing_bind [OF c], rule sparing_bind [OF v], rule sparing_bind [OF l], rule sparing_bind [OF f],
        assumption, rule sparing_bind [OF k], rule sparing_return) simp
qed

lemma own_version_unique:
  assumes "CHR ''@'' \<notin> set n" "CHR ''@'' \<notin> set name" "own_version n v" "own_version name v"
  shows "n = name"
proof -
  obtain s where "v = n @ CHR ''@'' # s"
    using assms(3) by (auto simp: own_version_def version_prefix_def py_startswith_iff)
  moreover obtain t where "v = name @ CHR ''@'' # t"
    using assms(4) by (auto simp: own_version_def version_prefix_def py_startswith_iff)
  ultimately show ?thesis using split_first [of "CHR ''@''" n name s t] assms(1,2) by simp
qed



section \<open>Without faults a publish returns\<close>

definition faultless :: "publish_os \<Rightarrow> bool" where
  "faultless OS \<longleftrightarrow> (\<forall>k. os_fault OS k = None)"

lemma quiet_each_returns: "fst (quiet_each OS f vs w) = Inr ()"
  by (induction vs arbitrary: w) (simp_all add: eff_simps os_quiet_def Let_def)

lemma call_faultless:
  "alone OS \<Longrightarrow> faultless OS \<Longrightarrow> os_call OS f g w = (fst (f (pw_dir w)), advance (snd (f (pw_dir w))) w)"
  by (simp add: os_call_def alone_def faultless_def split: prod.split)

lemma gc_returns:
  assumes "alone OS" "faultless OS"
  shows "fst (bind_eff (gc_versions OS n v) (\<lambda>u. return_eff x) w) = Inr x"
proof -
  have "fst (gc_versions OS n v w) = Inr ()"
    by (simp add: gc_versions_def eff_simps call_faultless [OF assms] quiet_each_returns)
  then show ?thesis by (cases "gc_versions OS n v w") (simp add: eff_simps)
qed

lemma flip_faultless:
  assumes "alone OS" "faultless OS" "l \<noteq> name" "node_of (pw_dir w) l = Some (VersionLink v)"
  shows "fst (flip_name OS name l w) = Inr ()"
  using assms(3,4)
  by (cases "node_of (pw_dir w) name")
    (auto simp: call_faultless [OF assms(1,2)] flip_name_def on_error_def eff_simps read_dir_def is_real_dir_def migrate_legacy_def
      move_to_version_def flip_link_def advance_def split: dir_node.splits)

lemma version_faultless:
  assumes "alone OS" "faultless OS" "publisher_ok OS name mine"
  shows "\<exists>v w'. publish_version OS ws bundle m name w = (Inr v, w')"
  by (auto simp: call_faultless [OF assms(1,2)] publish_version_def on_error_def eff_simps make_staging_def populate_def Let_def advance_def
      on_package_def move_to_version_def split: option.split)

lemma named_faultless:
  assumes "alone OS" "faultless OS" "publisher_ok OS name mine"
  shows "fst (publish_named OS ws bundle m name w) = Inr name"
proof -
  obtain v w1 where v: "publish_version OS ws bundle m name (snd (checked_call OS w)) = (Inr v, w1)"
    using version_faultless [OF assms] by blast
  define l where "l = os_fresh OS ''.link-'' (pw_dir w1)"
  define w2 where "w2 = advance (put_node l (VersionLink v) (pw_dir w1)) w1"
  have link: "make_link OS v w1 = (Inr l, w2)"
    by (simp add: call_faultless [OF assms(1,2)] make_link_def Let_def l_def w2_def)
  have "l \<noteq> name" unfolding l_def by (rule publisher_fresh(3) [OF assms(3)])
  then have flip: "fst (flip_name OS name l w2) = Inr ()"
    by (intro flip_faultless [OF assms(1,2)]) (simp_all add: w2_def advance_def)
  then obtain w3 where w3: "flip_name OS name l w2 = (Inr (), w3)" by (metis prod.collapse)
  have c: "checked_call OS w = (Inr (), snd (checked_call OS w))"
    by (simp add: call_faultless [OF assms(1,2)] checked_call_def)
  have "publish_named OS ws bundle m name w = bind_eff (gc_versions OS name v) (\<lambda>u. return_eff name) w3"
    unfolding publish_named_def
    by (subst bind_eff_def, subst c, simp, subst bind_eff_def, simp add: v, subst bind_eff_def, simp add: link,
        subst bind_eff_def, simp add: w3)
  then show ?thesis using gc_returns [OF assms(1,2)] by metis
qed

lemma atomic_faultless:
  assumes "alone OS" "faultless OS" "publisher_ok OS name mine"
  shows "\<exists>w'. atomic_publish OS ws m (Some name) bundle w = (Inr name, w')"
proof -
  have "fst (atomic_publish OS ws m (Some name) bundle w) = Inr name"
    using named_faultless [OF assms] by (simp add: call_faultless [OF assms(1,2)] atomic_publish_def checked_call_def eff_simps)
  then show ?thesis by (metis prod.collapse)
qed

lemma quiet_os_plain: "alone quiet_os" "faultless quiet_os"
  by (simp_all add: alone_def faultless_def quiet_os_def)

section \<open>What the separator does not give\<close>

text \<open>
  With an at sign in a name the prefixes are not unambiguous: publishing \<open>a\<close> collects the live
  version of \<open>a@b\<close>.
\<close>

lemma at_sign_collected:
  "resolve_name \<lparr>ed_nodes = [(''a@b'', VersionLink ''a@b@1'')], ed_versions = [(''a@b@1'', empty_package)]\<rparr> ''a@b''
     = Some empty_package \<and>
   resolve_name (pw_dir (snd (publish_named quiet_os sample_files None sample_manifest ''a''
     \<lparr>pw_dir = \<lparr>ed_nodes = [(''a@b'', VersionLink ''a@b@1'')], ed_versions = [(''a@b@1'', empty_package)]\<rparr>,
      pw_step = 0, pw_seen = []\<rparr>))) ''a@b'' = None"
  by code_simp

text \<open>A failing flip after the migration of an old real directory leaves the name missing.\<close>

lemma failed_flip_leaves_missing:
  "fst (publish_named (quiet_os\<lparr>os_fault := (\<lambda>k. if k = 7 then Some (OSError ''Permission denied'', 0) else None)\<rparr>)
      sample_files None sample_manifest ''tpch''
      \<lparr>pw_dir = \<lparr>ed_nodes = [(''tpch'', RealDir empty_package)], ed_versions = []\<rparr>, pw_step = 0, pw_seen = []\<rparr>)
     = Inl (OSError ''Permission denied'') \<and>
   resolve_name (pw_dir (snd (publish_named (quiet_os\<lparr>os_fault := (\<lambda>k. if k = 7 then Some (OSError ''Permission denied'', 0) else None)\<rparr>)
      sample_files None sample_manifest ''tpch''
      \<lparr>pw_dir = \<lparr>ed_nodes = [(''tpch'', RealDir empty_package)], ed_versions = []\<rparr>, pw_step = 0, pw_seen = []\<rparr>))) ''tpch''
     = None"
  by code_simp

text \<open>The unnamed path keeps whatever is there under the id, whatever its manifest says.\<close>

lemma content_dedup:
  assumes "resolve_name (pw_dir w) (mf_engine_id m) = Some p"
  shows "publish_content_addressed OS ws bundle m w = (Inr (mf_engine_id m), w)"
  using assms by (simp add: publish_content_addressed_def Let_def read_dir_def eff_simps)

end
