(* ===== verification/Engine_Template.thy ===== *)
theory Engine_Template
  imports Query_Template Engine_Registration
begin

text \<open>
  Deriving router templates at publish time (\<open>workloads/engine_publish.py\<close>): a workload's
  \<open>[NAME]\<close> template becomes a template with anonymous \<open>?\<close> markers and typed placeholders, which is
  shipped only when it has the structural key of its own instantiations and binds their values
  back. The regular expressions are scanners over ASCII text.
\<close>

section \<open>Embedded parameters\<close>

text \<open>\<open>_BRACKET.split\<close>: the text before the first hole, then each name with the text behind it.\<close>

function bracket_split :: "string \<Rightarrow> string \<times> (string \<times> string) list" where
  "bracket_split [] = ([], [])"
| "bracket_split (c # s) =
     (case (if c = CHR ''['' then hole_at s else None) of
        Some n \<Rightarrow> (let (t, ps) = bracket_split (drop (Suc (length n)) s) in ([], (n, t) # ps))
      | None \<Rightarrow> (let (t, ps) = bracket_split s in (c # t, ps)))"
  by pat_completeness auto
termination
  by (relation "measure length") auto

definition parse_embedded :: "string \<Rightarrow> (string list \<times> string list) option" where
  "parse_embedded body = (case bracket_split body of
     (c, ps) \<Rightarrow> if ps = [] then None else Some (map fst ps, c # map snd ps))"

record embedded =
  em_start :: nat
  em_close :: nat
  em_names :: "string list"
  em_consts :: "string list"

text \<open>A whole-literal parameter \<open>'[NAME]'\<close> is not embedded.\<close>

definition embedded_of :: "span \<Rightarrow> embedded option" where
  "embedded_of sp = (case sp of (start, close_i, body) \<Rightarrow> (case parse_embedded body of
     None \<Rightarrow> None
   | Some (names, consts) \<Rightarrow>
       if length names = 1 \<and> consts ! 0 = [] \<and> consts ! 1 = [] then None
       else Some \<lparr>em_start = start, em_close = close_i, em_names = names, em_consts = consts\<rparr>))"

definition embedded_literals :: "string \<Rightarrow> embedded list" where
  "embedded_literals bracket_sql = List.map_filter embedded_of (scan_string_literals bracket_sql)"

text \<open>Prefix, suffix and group of every embedded parameter; a later literal overrides.\<close>

type_synonym embedded_info = "(string \<times> string \<times> string \<times> int) list"

definition literal_info :: "int \<Rightarrow> embedded \<Rightarrow> embedded_info" where
  "literal_info g l = map (\<lambda>i. (em_names l ! i, em_consts l ! i, em_consts l ! Suc i, g)) [0..<length (em_names l)]"

definition info_step :: "embedded_info \<times> int \<Rightarrow> embedded \<Rightarrow> embedded_info \<times> int" where
  "info_step st l =
     (let multi = 1 < length (em_names l); g = (if multi then snd st else -1)
      in (dict_update (fst st) (literal_info g l),
          if multi then snd st + 1 else snd st))"

definition embedded_info :: "embedded list \<Rightarrow> embedded_info" where
  "embedded_info ls = fst (foldl info_step ([], 0) ls)"

fun collapse_from :: "string \<Rightarrow> nat \<Rightarrow> embedded list \<Rightarrow> string" where
  "collapse_from sql pos [] = drop pos sql"
| "collapse_from sql pos (l # ls) = py_slice sql pos (em_start l) @ ''?'' @ collapse_from sql (em_close l + 1) ls"

definition collapse_embedded :: "string \<Rightarrow> embedded list \<Rightarrow> string" where
  "collapse_embedded sql ls = collapse_from sql 0 ls"

section \<open>Markers\<close>

definition is_regex_word :: "char \<Rightarrow> bool" where
  "is_regex_word c \<longleftrightarrow> is_word_char c \<or> is_digit_char c"

definition quote_here :: "string \<Rightarrow> nat" where
  "quote_here s = (case s of c # t \<Rightarrow> if c = CHR 0x27 then 1 else 0 | [] \<Rightarrow> 0)"

text \<open>The length of \<open>'?\[NAME\]'?\<close> at the head of the text.\<close>

definition marker_core :: "string \<Rightarrow> nat option" where
  "marker_core s = (let q = quote_here s in (case drop q s of
     c # r \<Rightarrow> (if c = CHR ''['' then (case hole_at r of
         Some n \<Rightarrow> Some (q + length n + 2 + quote_here (drop (Suc (length n)) r))
       | None \<Rightarrow> None) else None)
   | [] \<Rightarrow> None))"

definition word_boundary :: "char option \<Rightarrow> string \<Rightarrow> bool" where
  "word_boundary prev s =
     ((case prev of Some c \<Rightarrow> is_regex_word c | None \<Rightarrow> False) \<noteq>
      (case s of c # t \<Rightarrow> is_regex_word c | [] \<Rightarrow> False))"

text \<open>A leading type keyword, in any case, as a whole word, with the blanks behind it.\<close>

definition type_word :: "string \<Rightarrow> string \<Rightarrow> nat option" where
  "type_word w s =
     (let r = drop (length w) s in
      if py_lower (take (length w) s) = w \<and> word_boundary (Some (last w)) r
      then Some (length w + length (takeWhile is_space_char r)) else None)"

definition typed_marker :: "char option \<Rightarrow> string \<Rightarrow> nat option" where
  "typed_marker prev s =
     (if word_boundary prev s then
        first_some (map (\<lambda>w. case type_word w s of
            Some k \<Rightarrow> map_option (\<lambda>m. k + m) (marker_core (drop k s)) | None \<Rightarrow> None)
          [''date'', ''timestamp'', ''time''])
      else None)"

definition marker_at :: "char option \<Rightarrow> string \<Rightarrow> nat option" where
  "marker_at prev s = (case typed_marker prev s of Some k \<Rightarrow> Some k | None \<Rightarrow> marker_core s)"

text \<open>\<open>_MARKER.sub("?", s)\<close>; a match is never empty.\<close>

function sub_markers :: "char option \<Rightarrow> string \<Rightarrow> string" where
  "sub_markers prev [] = []"
| "sub_markers prev (c # s) = (case marker_at prev (c # s) of
     Some k \<Rightarrow> CHR ''?'' # sub_markers (Some ((c # s) ! (k - 1))) (drop (k - 1) s)
   | None \<Rightarrow> c # sub_markers (Some c) s)"
  by pat_completeness auto
termination
  by (relation "measure (\<lambda>(p, s). length s)") auto

text \<open>\<open>\?\s*::\s*(\w+)\<close> at a question mark already read: the word and the length behind the mark.\<close>

definition cast_at :: "string \<Rightarrow> (string \<times> nat) option" where
  "cast_at s =
     (let b1 = length (takeWhile is_space_char s); r = drop b1 s in
      if take 2 r = ''::'' then
        (let r2 = drop 2 r; b2 = length (takeWhile is_space_char r2);
             w = takeWhile is_regex_word (drop b2 r2)
         in if w = [] then None else Some (w, b1 + 2 + b2 + length w))
      else None)"

function sub_casts :: "string \<Rightarrow> string" where
  "sub_casts [] = []"
| "sub_casts (c # s) = (case (if c = CHR ''?'' then cast_at s else None) of
     Some (w, k) \<Rightarrow> ''CAST(? AS '' @ w @ '')'' @ sub_casts (drop k s)
   | None \<Rightarrow> c # sub_casts s)"
  by pat_completeness auto
termination
  by (relation "measure length") auto

text \<open>A rewriting applied outside string literals, which are copied.\<close>

fun outside_literals :: "(string \<Rightarrow> string) \<Rightarrow> string \<Rightarrow> nat \<Rightarrow> span list \<Rightarrow> string" where
  "outside_literals f sql pos [] = f (drop pos sql)"
| "outside_literals f sql pos ((start, close_i, b) # sps) =
     f (py_slice sql pos start) @ py_slice sql start (close_i + 1) @ outside_literals f sql (close_i + 1) sps"

definition rewrite_postfix_casts :: "string \<Rightarrow> string" where
  "rewrite_postfix_casts s =
     (if CHR ''?'' \<notin> set s \<or> \<not> py_contains ''::'' s then s
      else outside_literals sub_casts s 0 (scan_string_literals s))"

definition to_anon :: "string \<Rightarrow> embedded list \<Rightarrow> string" where
  "to_anon bracket_sql ls = rewrite_postfix_casts (sub_markers None (collapse_embedded bracket_sql ls))"

section \<open>The self-check\<close>

definition no_list_spacing :: "string \<Rightarrow> string" where
  "no_list_spacing s = outside_literals (filter (\<lambda>c. \<not> is_space_char c)) s 0 (scan_string_literals s)"

definition strip_char :: "char \<Rightarrow> string \<Rightarrow> string" where
  "strip_char c s = py_rstrip_char c (py_lstrip_chars [c] s)"

definition value_matches :: "py_fmt \<Rightarrow> pyval \<Rightarrow> pyval \<Rightarrow> bool" where
  "value_matches F got v = (case got of
     PTuple vs \<Rightarrow> no_list_spacing (render_in_list F vs) = no_list_spacing (render_value F v)
   | _ \<Rightarrow> (let g = strip_char (CHR 0x27) (py_str (frepr F) (drepr F) got)
           in g = render_value F v \<or> g = py_str (frepr F) (drepr F) v))"

definition binds_match :: "py_fmt \<Rightarrow> bindings \<Rightarrow> (string \<times> pyval) list \<Rightarrow> bool" where
  "binds_match F bound asg = list_all (\<lambda>(n, v). case map_of bound n of
     Some got \<Rightarrow> value_matches F got v | None \<Rightarrow> False) asg"

definition sample_checks ::
  "sqlglot \<Rightarrow> py_fmt \<Rightarrow> string \<Rightarrow> string \<Rightarrow> placeholder_spec list \<Rightarrow> string \<Rightarrow> (string \<times> pyval) list \<Rightarrow> bool" where
  "sample_checks L F key marker_sql specs bracket_sql asg =
     (let concrete = substitute F bracket_sql asg in
      normalize_sql L concrete = Some key \<and>
      (case bind_template L F marker_sql concrete specs of
         None \<Rightarrow> False | Some bound \<Rightarrow> binds_match F bound asg))"

definition validate_template ::
  "sqlglot \<Rightarrow> py_fmt \<Rightarrow> string \<Rightarrow> placeholder_spec list \<Rightarrow> string \<Rightarrow> (string \<times> pyval) list list \<Rightarrow> bool" where
  "validate_template L F marker_sql specs bracket_sql asgs = (case normalize_sql L marker_sql of
     None \<Rightarrow> False | Some key \<Rightarrow> list_all (sample_checks L F key marker_sql specs bracket_sql) asgs)"

section \<open>Deriving\<close>

definition spec_of :: "embedded_info \<Rightarrow> (string \<times> pyval) list \<Rightarrow> string \<Rightarrow> placeholder_spec" where
  "spec_of info sample n =
     (let v = (case map_of sample n of Some v \<Rightarrow> v | None \<Rightarrow> PNone);
          (p, s, g) = (case map_of info n of Some i \<Rightarrow> i | None \<Rightarrow> ([], [], -1))
      in \<lparr>ph_name = n, ph_type = infer_duckdb_type v, ph_prefix = p, ph_suffix = s, ph_group = g\<rparr>)"

definition keep_placeholders :: "string list \<Rightarrow> (string \<times> pyval) list \<Rightarrow> (string \<times> pyval) list" where
  "keep_placeholders names asg = filter (\<lambda>(k, v). k \<in> set names) asg"

definition derive_template ::
  "sqlglot \<Rightarrow> py_fmt \<Rightarrow> string \<Rightarrow> (string \<times> pyval) list list
     \<Rightarrow> py_error + (string \<times> placeholder_spec list) option"
where
  "derive_template L F bracket_sql asgs =
     (let names = find_placeholders bracket_sql in
      if names = [] then Inr None
      else (case map (keep_placeholders names) asgs of
          [] \<Rightarrow> Inl IndexError
        | sample # rest \<Rightarrow>
            (let ls = embedded_literals bracket_sql;
                 anon = to_anon bracket_sql ls;
                 specs = map (spec_of (embedded_info ls) sample) (holes bracket_sql)
             in if validate_template L F anon specs bracket_sql (sample # rest)
                then Inr (Some (anon, specs)) else Inr None)))"

definition template_for ::
  "sqlglot \<Rightarrow> py_fmt \<Rightarrow> (string \<times> (string \<times> pyval) list list) list \<Rightarrow> string \<times> string
     \<Rightarrow> py_error + query_template option"
where
  "template_for L F asgs_by_qid qt = (case qt of (qid, bracket_sql) \<Rightarrow>
     if find_placeholders bracket_sql = [] then
       Inr (if normalize_sql L bracket_sql \<noteq> None
            then Some \<lparr>qt_query_id = qid, qt_sql_template = bracket_sql, qt_placeholders = []\<rparr> else None)
     else (case map_of asgs_by_qid qid of
         None \<Rightarrow> Inr None
       | Some [] \<Rightarrow> Inr None
       | Some asgs \<Rightarrow> ebind (derive_template L F bracket_sql asgs) (\<lambda>d. Inr (case d of
             None \<Rightarrow> None
           | Some (marker_sql, specs) \<Rightarrow>
               Some \<lparr>qt_query_id = qid, qt_sql_template = marker_sql, qt_placeholders = specs\<rparr>))))"

definition build_query_templates ::
  "sqlglot \<Rightarrow> py_fmt \<Rightarrow> (string \<times> string) list \<Rightarrow> (string \<times> (string \<times> pyval) list list) list
     \<Rightarrow> py_error + query_template list"
where
  "build_query_templates L F templates_by_qid asgs_by_qid =
     ebind (traverse_e (template_for L F asgs_by_qid) templates_by_qid) (\<lambda>qs. Inr (List.map_filter (\<lambda>q. q) qs))"

text \<open>The key forms under which a workload may keep a query.\<close>

definition lookup_template :: "(string \<times> string) list \<Rightarrow> string \<Rightarrow> string option" where
  "lookup_template sqls qid = first_some (map (map_of sqls) [qid, ''Q'' @ qid, ''q'' @ qid, ''query'' @ qid])"

text \<open>A few draws from the workload's generator; a failing draw ends the sampling.\<close>

fun draw_samples ::
  "(string \<Rightarrow> ('w, (string \<times> pyval) list) eff) \<Rightarrow> string \<Rightarrow> nat \<Rightarrow> 'w \<Rightarrow> (string \<times> pyval) list list" where
  "draw_samples gen q 0 w = []"
| "draw_samples gen q (Suc n) w = (case gen q w of
     (Inl e, w') \<Rightarrow> []
   | (Inr phs, w') \<Rightarrow> (if phs \<noteq> [] then [phs] else []) @ draw_samples gen q n w')"

definition sample_assignments ::
  "(string \<Rightarrow> ('w, (string \<times> pyval) list) eff) \<Rightarrow> 'w \<Rightarrow> string \<Rightarrow> nat \<Rightarrow> (string \<times> pyval) list list" where
  "sample_assignments gen seed qid n = draw_samples gen (''Q'' @ qid) n seed"

text \<open>The queries of a workload that have a template, with their samples.\<close>

definition known_queries :: "(string \<times> string) list \<Rightarrow> string list \<Rightarrow> (string \<times> string) list" where
  "known_queries sqls qids = foldl (\<lambda>d qid. case lookup_template sqls qid of
     Some t \<Rightarrow> if t = [] then d else AList.update qid t d | None \<Rightarrow> d) [] qids"

definition workload_templates ::
  "sqlglot \<Rightarrow> py_fmt \<Rightarrow> (string \<times> string) list \<Rightarrow> (string \<Rightarrow> ('w, (string \<times> pyval) list) eff) \<Rightarrow> 'w
     \<Rightarrow> nat \<Rightarrow> string list \<Rightarrow> py_error + query_template list"
where
  "workload_templates L F sqls gen seed n qids =
     (let known = known_queries sqls qids
      in build_query_templates L F known (map (\<lambda>(q, t). (q, sample_assignments gen seed q n)) known))"

section \<open>Embedded parameters are recovered\<close>

lemma hole_at_name: "is_placeholder_name n \<Longrightarrow> hole_at (n @ CHR '']'' # s) = Some n"
proof -
  assume n: "is_placeholder_name n"
  then have "takeWhile is_name_char (n @ CHR '']'' # s) = n"
    by (subst takeWhile_append2) (auto simp: is_placeholder_name_def list_all_iff is_name_char_def py_char_simps)
  with n show ?thesis by (simp add: hole_at_def)
qed

lemma hole_at_other:
  assumes "bracket_free n" "\<not> is_placeholder_name n"
  shows "hole_at (n @ CHR '']'' # s) = None"
proof -
  let ?t = "takeWhile is_name_char (n @ CHR '']'' # s)"
  have br: "\<not> is_name_char (CHR '']'')" by (simp add: is_name_char_def py_char_simps)
  show ?thesis
  proof (cases "list_all is_name_char n")
    case True
    then have "?t = n" using br by (subst takeWhile_append2) (auto simp: list_all_iff)
    then show ?thesis using assms(2) by (simp add: hole_at_def)
  next
    case False
    then obtain x where x: "x \<in> set n" "\<not> is_name_char x" by (auto simp: list_all_iff)
    then have t: "?t = takeWhile is_name_char n" by (rule takeWhile_append1)
    have d: "dropWhile is_name_char (n @ CHR '']'' # s) = dropWhile is_name_char n @ CHR '']'' # s"
      using x by (rule dropWhile_append1)
    have "drop (length ?t) (n @ CHR '']'' # s) = dropWhile is_name_char n @ CHR '']'' # s"
      using d by (simp only: dropWhile_eq_drop)
    moreover obtain y ys where y: "dropWhile is_name_char n = y # ys" "y \<in> set n"
      using x by (metis dropWhile_eq_Nil_conv list.exhaust list.set_intros(1) set_dropWhileD)
    moreover have "y \<noteq> CHR '']''" using y(2) assms(1) by (auto simp: bracket_free_def)
    ultimately show ?thesis by (simp add: hole_at_def Let_def)
  qed
qed

lemma bracket_split_text:
  "CHR ''['' \<notin> set u \<Longrightarrow> bracket_split (u @ s) = (u @ fst (bracket_split s), snd (bracket_split s))"
  by (induction u) (auto simp: split_beta)

lemma bracket_split_hole:
  "is_placeholder_name n \<Longrightarrow>
     bracket_split (hole n @ s) = ([], (n, fst (bracket_split s)) # snd (bracket_split s))"
  by (simp add: hole_def hole_at_name split_beta)

lemma bracket_split_other:
  assumes "bracket_free n" "\<not> is_placeholder_name n"
  shows "bracket_split (hole n @ s) = (hole n @ fst (bracket_split s), snd (bracket_split s))"
proof -
  have "CHR ''['' \<notin> set (n @ [CHR '']''])" using assms(1) by (simp add: bracket_free_def)
  then have "bracket_split ((n @ [CHR '']'']) @ s) =
      ((n @ [CHR '']'']) @ fst (bracket_split s), snd (bracket_split s))" by (rule bracket_split_text)
  then show ?thesis using hole_at_other [OF assms] by (simp add: hole_def split_beta)
qed

lemma embed_cores_prefix: "embed_cores ((a @ t) # cs) xs = a @ embed_cores (t # cs) xs"
  by (cases xs) simp_all

text \<open>Filling a literal puts the values between its constants.\<close>

lemma fill_embeds:
  assumes "brackets_ok s" and "\<And>n v. \<sigma> n = Some v \<Longrightarrow> is_placeholder_name n"
  shows "bracket_split s = (c, ps) \<Longrightarrow> \<forall>p\<in>set ps. \<sigma> (fst p) \<noteq> None \<Longrightarrow>
    fill \<sigma> s = embed_cores (c # map snd ps) (map (\<lambda>p. the (\<sigma> (fst p))) ps)"
  using assms(1)
proof (induction s arbitrary: c ps rule: brackets_induct)
  case (Char a s)
  obtain t qs where b: "bracket_split s = (t, qs)" by (cases "bracket_split s")
  with Char show ?case using embed_cores_prefix [of "[a]" t] by simp
next
  case (Hole n s)
  obtain t qs where b: "bracket_split s = (t, qs)" by (cases "bracket_split s")
  show ?case
  proof (cases "is_placeholder_name n")
    case True
    with Hole b show ?thesis by (auto simp: fill_hole bracket_split_hole)
  next
    case False
    then have "\<sigma> n = None" using assms(2) by fastforce
    then show ?thesis using Hole b False embed_cores_prefix [of "hole n" t]
      by (simp add: fill_hole bracket_split_other)
  qed
qed simp

text \<open>Each embedded parameter is recorded with the constants around it.\<close>

lemma literal_info_keys: "map fst (literal_info g l) = em_names l"
  by (simp add: literal_info_def comp_def map_nth)

lemma info_step_other:
  "n \<notin> set (em_names l) \<Longrightarrow> map_of (fst (info_step st l)) n = map_of (fst st) n"
proof -
  assume "n \<notin> set (em_names l)"
  then have "n \<notin> fst ` set (rev (literal_info g l))" for g
    by (metis literal_info_keys list.set_map set_rev)
  then have "map_of (rev (literal_info g l)) n = None" for g by (simp add: map_of_eq_None_iff)
  then show ?thesis by (simp add: info_step_def Let_def dict_update_get map_add_def)
qed

lemma info_step_own:
  assumes "distinct (em_names l)" "i < length (em_names l)"
  shows "\<exists>g. map_of (fst (info_step st l)) (em_names l ! i) = Some (em_consts l ! i, em_consts l ! Suc i, g)"
proof -
  have "map_of (rev (literal_info g l)) (em_names l ! i) = Some (em_consts l ! i, em_consts l ! Suc i, g)" for g
  proof (rule map_of_is_SomeI)
    show "distinct (map fst (rev (literal_info g l)))"
      using assms(1) by (metis literal_info_keys distinct_rev rev_map)
    show "(em_names l ! i, em_consts l ! i, em_consts l ! Suc i, g) \<in> set (rev (literal_info g l))"
      using assms(2) by (auto simp: literal_info_def)
  qed
  then show ?thesis by (auto simp: info_step_def Let_def dict_update_get map_add_def)
qed

lemma info_other:
  "n \<notin> set (concat (map em_names ls)) \<Longrightarrow> map_of (fst (foldl info_step st ls)) n = map_of (fst st) n"
  by (induction ls arbitrary: st) (simp_all add: info_step_other)

lemma embedded_info_get:
  assumes "distinct (concat (map em_names ls))" "l \<in> set ls" "i < length (em_names l)"
  shows "\<exists>g. map_of (embedded_info ls) (em_names l ! i) = Some (em_consts l ! i, em_consts l ! Suc i, g)"
proof -
  obtain xs ys where ls: "ls = xs @ l # ys" using assms(2) by (metis split_list)
  let ?st = "foldl info_step ([], 0) xs"
  have "set (em_names l) \<inter> set (concat (map em_names ys)) = {}" "distinct (em_names l)"
    using assms(1) ls by simp_all
  then have "em_names l ! i \<notin> set (concat (map em_names ys))" "distinct (em_names l)"
    using nth_mem [OF assms(3)] by blast+
  then show ?thesis using info_other [of "em_names l ! i" ys "info_step ?st l"]
      info_step_own [of l i ?st] assms(3)
    by (simp add: embedded_info_def ls)
qed

lemma embedded_of_shape:
  assumes "embedded_of (a, b, lit) = Some l"
  shows "\<exists>c ps. bracket_split lit = (c, ps) \<and> ps \<noteq> [] \<and> em_names l = map fst ps \<and> em_consts l = c # map snd ps \<and>
    \<not> (length ps = 1 \<and> c = [] \<and> snd (hd ps) = [])"
  using assms
  by (cases "bracket_split lit") (auto simp: embedded_of_def parse_embedded_def length_Suc_conv split: if_splits)


definition q13_sql :: string where
  "q13_sql = ''o_comment not like '' @ [CHR 0x27] @ ''%[WORD1]%[WORD2]%'' @ [CHR 0x27]"


section \<open>Publish and runtime agree\<close>

text \<open>
  The sampled values given back: each name is bound, to a tuple whose text as an \<open>IN\<close> list is the
  sample's up to blanks outside literals, or to a value whose text without outer quotes is the sample's.
\<close>

definition given_back :: "py_fmt \<Rightarrow> bindings \<Rightarrow> (string \<times> pyval) list \<Rightarrow> bool" where
  "given_back F bound sample \<longleftrightarrow> (\<forall>(n, v)\<in>set sample. \<exists>got. map_of bound n = Some got \<and>
     (case got of
        PTuple vs \<Rightarrow> no_list_spacing (render_in_list F vs) = no_list_spacing (render_value F v)
      | _ \<Rightarrow> strip_char (CHR 0x27) (py_str (frepr F) (drepr F) got)
               \<in> {render_value F v, py_str (frepr F) (drepr F) v}))"

lemma value_matches_text:
  "value_matches F got v \<Longrightarrow> (case got of
     PTuple vs \<Rightarrow> no_list_spacing (render_in_list F vs) = no_list_spacing (render_value F v)
   | _ \<Rightarrow> strip_char (CHR 0x27) (py_str (frepr F) (drepr F) got)
            \<in> {render_value F v, py_str (frepr F) (drepr F) v})"
  unfolding value_matches_def Let_def by (simp split: pyval.splits)

lemma binds_match_given_back:
  assumes "binds_match F bound sample"
  shows "given_back F bound sample"
  unfolding given_back_def
proof (rule ballI, rule case_prodI2)
  fix p n v assume "p \<in> set sample" "p = (n, v)"
  with assms have "case map_of bound n of Some got \<Rightarrow> value_matches F got v | None \<Rightarrow> False"
    by (auto simp: binds_match_def list_all_iff)
  then obtain got where "map_of bound n = Some got" "value_matches F got v" by (cases "map_of bound n") auto
  with value_matches_text show "\<exists>got. map_of bound n = Some got \<and> (case got of
      PTuple vs \<Rightarrow> no_list_spacing (render_in_list F vs) = no_list_spacing (render_value F v)
    | _ \<Rightarrow> strip_char (CHR 0x27) (py_str (frepr F) (drepr F) got)
             \<in> {render_value F v, py_str (frepr F) (drepr F) v})" by blast
qed

lemma derived_sample:
  assumes "derive_template L F bracket_sql asgs = Inr (Some (marker_sql, specs))" "asg \<in> set asgs"
    and "sample = keep_placeholders (find_placeholders bracket_sql) asg"
  obtains key bound where "normalize_sql L marker_sql = Some key"
    "normalize_sql L (substitute F bracket_sql sample) = Some key"
    "bind_template L F marker_sql (substitute F bracket_sql sample) specs = Some bound" "given_back F bound sample"
proof -
  have "validate_template L F marker_sql specs bracket_sql (map (keep_placeholders (find_placeholders bracket_sql)) asgs)"
    using assms(1) by (auto simp: derive_template_def Let_def split: if_splits list.splits)
  then obtain key where key: "normalize_sql L marker_sql = Some key"
    "sample_checks L F key marker_sql specs bracket_sql sample"
    using assms(2,3) by (auto simp: validate_template_def list_all_iff split: option.splits)
  then show thesis
    using that binds_match_given_back by (auto simp: sample_checks_def Let_def split: option.splits)
qed

text \<open>
  C16. A derived template is one the router can use: once its binding is registered and as long as
  its template is not quarantined (registering does not lift a quarantine), every sampled
  instantiation has the binding's structural key, the registry finds the binding under it, and the
  router's binder gives the sampled values back, in their text, under their names.
\<close>

theorem derived_template_routes:
  assumes "derive_template L F bracket_sql asgs = Inr (Some (marker_sql, specs))" and "asg \<in> set asgs"
    and "make_binding E q w = (Inr b, w')" "sql_lang E = L" "rq_template q = marker_sql" "rq_placeholders q = specs"
    and "sample = keep_placeholders (find_placeholders bracket_sql) asg"
  shows "\<exists>key bound. normalize_sql L (substitute F bracket_sql sample) = Some key \<and>
     reg_match (enroll b r) key = (if template_id b \<in> quarantined r then None else Some b) \<and>
     bind_template L F marker_sql (substitute F bracket_sql sample) (placeholders b) = Some bound \<and>
     (\<forall>(n, v)\<in>set sample. \<exists>got. map_of bound n = Some got \<and>
       (case got of
          PTuple vs \<Rightarrow> no_list_spacing (render_in_list F vs) = no_list_spacing (render_value F v)
        | _ \<Rightarrow> strip_char (CHR 0x27) (py_str (frepr F) (drepr F) got)
                 \<in> {render_value F v, py_str (frepr F) (drepr F) v}))"
proof -
  obtain key bound where k: "normalize_sql L marker_sql = Some key"
    "normalize_sql L (substitute F bracket_sql sample) = Some key"
    "bind_template L F marker_sql (substitute F bracket_sql sample) specs = Some bound" "given_back F bound sample"
    by (rule derived_sample [OF assms(1,2,7)])
  have b: "normalized_sql b = key" "placeholders b = specs"
    using make_binding_Inr [OF assms(3)] k(1) assms(4-6) by simp_all
  have "reg_match (enroll b r) key = (if template_id b \<in> quarantined r then None else Some b)"
    using b(1) by (auto simp: reg_match_def update_conv)
  then show ?thesis using k(2-4) b(2) unfolding given_back_def by blast
qed

definition literal_sqlglot :: sqlglot where
  "literal_sqlglot = tiny_sqlglot\<lparr>parse_one := (\<lambda>s. Some (if take 1 s = '':'' then Node ''Placeholder'' [(''this'', AStr (drop 1 s))]
      else Node ''Literal'' [(''this'', AStr s)])), tokenize := (\<lambda>s. Some [])\<rparr>"

definition literal_catalog_env :: "unit catalog_env" where
  "literal_catalog_env = demo_catalog_env\<lparr>sql_lang := literal_sqlglot, null_text := (\<lambda>t. Some ''NULL'')\<rparr>"

definition literal_request :: bind_request where
  "literal_request = demo_request\<lparr>rq_template := ''?'', rq_placeholders := [plain_placeholder ''A'' ''INTEGER'']\<rparr>"

theorem derived_template_routes_witness:
  "\<exists>b key. normalize_sql literal_sqlglot (substitute plain_fmt ''[A]'' [(''A'', PStr ''5'')]) = Some key \<and>
     reg_match (enroll b empty_registry) key = Some b \<and> engine b = Some 3"
proof -
  have d: "derive_template literal_sqlglot plain_fmt ''[A]'' [[(''A'', PStr ''5''), (''STREAM_ID'', PInt 0)]] =
      Inr (Some (''?'', [plain_placeholder ''A'' ''INTEGER'']))" by code_simp
  have "\<not> isl (fst (make_binding literal_catalog_env literal_request ()))" by code_simp
  then obtain b where b: "make_binding literal_catalog_env literal_request () = (Inr b, ())"
    by (cases "make_binding literal_catalog_env literal_request ()"; cases "fst (make_binding literal_catalog_env literal_request ())") auto
  have k: "keep_placeholders (find_placeholders ''[A]'') [(''A'', PStr ''5''), (''STREAM_ID'', PInt 0)] = [(''A'', PStr ''5'')]"
    by code_simp
  have n: "template_id b \<notin> quarantined empty_registry" by (simp add: empty_registry_def)
  from derived_template_routes [OF d _ b _ _ _ refl, where r = empty_registry] n have "\<exists>key. normalize_sql literal_sqlglot (substitute plain_fmt ''[A]'' [(''A'', PStr ''5'')]) = Some key \<and>
      reg_match (enroll b empty_registry) key = Some b"
    by (auto simp: k Let_def literal_catalog_env_def literal_request_def)
  moreover have "engine b = Some 3"
    using make_binding_Inr(8) [OF b] by (simp add: literal_request_def demo_request_def)
  ultimately show ?thesis by blast
qed

text \<open>The markers of a date, an affixed literal and a postfix cast collapse to anonymous ones.\<close>

lemma to_anon_example:
  "to_anon (''d >= date '' @ quote_hole ''DATE'' @ '' and '' @ q13_sql @ '' and x < '' @ quote_hole ''D'' @ ''::interval'')
     (embedded_literals (''d >= date '' @ quote_hole ''DATE'' @ '' and '' @ q13_sql @ '' and x < '' @ quote_hole ''D'' @ ''::interval''))
   = ''d >= ? and o_comment not like ? and x < CAST(? AS interval)''"
  by code_simp

end
