(* ===== verification/Build_Id.thy ===== *)
theory Build_Id
  imports Py_Effects Sql_Text
begin

text \<open>
  The GNU build-id of an executable (\<open>cpp_runner/hotpatch/elf_build_id.py\<close>): the identity the
  publish gate compares. A file is its bytes, a character per byte; \<open>struct.unpack_from\<close> raises
  when it would read past the end, which is the error \<open>StructError\<close>.
\<close>

section \<open>Reading integers\<close>

definition uint_of :: "bool \<Rightarrow> string \<Rightarrow> nat" where
  "uint_of little bs = foldr (\<lambda>c acc. of_char c + 256 * acc) (if little then bs else rev bs) 0"

definition unpack_uint :: "bool \<Rightarrow> nat \<Rightarrow> string \<Rightarrow> nat \<Rightarrow> py_error + nat" where
  "unpack_uint little n data off =
     (if off + n \<le> length data then Inr (uint_of little (py_slice data off (off + n)))
      else Inl (StructError ''unpack_from requires a larger buffer''))"

definition byte_at :: "string \<Rightarrow> nat \<Rightarrow> nat" where
  "byte_at data i = of_char (data ! i)"

definition align4 :: "nat \<Rightarrow> nat" where
  "align4 n = (n + 3) div 4 * 4"

definition hex_digits :: string where
  "hex_digits = ''0123456789abcdef''"

definition hex_of :: "string \<Rightarrow> string" where
  "hex_of bs = concat (map (\<lambda>c. [hex_digits ! (of_char c div 16), hex_digits ! (of_char c mod 16)]) bs)"

definition zero_byte :: char where
  "zero_byte = CHR 0x00"

section \<open>The notes of a segment\<close>

function scan_notes :: "bool \<Rightarrow> string \<Rightarrow> nat \<Rightarrow> nat \<Rightarrow> py_error + string option" where
  "scan_notes little data stop pos =
     (if stop < pos + 12 then Inr None
      else ebind (unpack_uint little 4 data pos) (\<lambda>namesz.
           ebind (unpack_uint little 4 data (pos + 4)) (\<lambda>descsz.
           ebind (unpack_uint little 4 data (pos + 8)) (\<lambda>ty.
             let name_at = pos + 12;
                 desc_at = name_at + align4 namesz;
                 desc = py_slice data desc_at (desc_at + descsz)
             in if ty = 3 \<and> py_rstrip_char zero_byte (py_slice data name_at (name_at + namesz)) = ''GNU'' \<and> desc \<noteq> []
                then Inr (Some (hex_of desc))
                else scan_notes little data stop (desc_at + align4 descsz)))))"
  by pat_completeness auto
termination
  by (relation "measure (\<lambda>(little, data, stop, pos). stop - pos)") auto

declare scan_notes.simps [simp del]

section \<open>The program headers\<close>

fun scan_headers :: "bool \<Rightarrow> string \<Rightarrow> nat \<Rightarrow> nat \<Rightarrow> nat list \<Rightarrow> py_error + string option" where
  "scan_headers little data phoff entsize [] = Inr None"
| "scan_headers little data phoff entsize (i # is) =
     (let off = phoff + i * entsize in
      if length data < off + 56 then Inr None
      else ebind (unpack_uint little 4 data off) (\<lambda>ty.
        if ty \<noteq> 4 then scan_headers little data phoff entsize is
        else ebind (unpack_uint little 8 data (off + 8)) (\<lambda>start.
             ebind (unpack_uint little 8 data (off + 32)) (\<lambda>n.
             ebind (scan_notes little data (min (start + n) (length data)) start) (\<lambda>r. case r of
                 Some b \<Rightarrow> Inr (Some b)
               | None \<Rightarrow> scan_headers little data phoff entsize is)))))"

definition elf_magic :: string where
  "elf_magic = CHR 0x7F # ''ELF''"

text \<open>\<open>contents\<close> is the outcome of reading the file.\<close>

definition read_build_id :: "py_error + string \<Rightarrow> py_error + string option" where
  "read_build_id contents = (case contents of
     Inl e \<Rightarrow> (case e of OSError m \<Rightarrow> Inr None | _ \<Rightarrow> Inl e)
   | Inr data \<Rightarrow>
       if length data < 64 \<or> take 4 data \<noteq> elf_magic then Inr None
       else if byte_at data 4 \<noteq> 2 then Inr None
       else
         (let little = (byte_at data 5 = 1) in
          ebind (unpack_uint little 8 data 32) (\<lambda>phoff.
          ebind (unpack_uint little 2 data 54) (\<lambda>entsize.
          ebind (unpack_uint little 2 data 56) (\<lambda>phnum.
            scan_headers little data phoff entsize [0..<phnum])))))"

section \<open>No read leaves the file\<close>

lemma unpack_in_bounds: "off + n \<le> length data \<Longrightarrow> \<exists>v. unpack_uint little n data off = Inr v"
  by (simp add: unpack_uint_def)

definition build_id_text :: "string option \<Rightarrow> bool" where
  "build_id_text r = (case r of None \<Rightarrow> True
     | Some b \<Rightarrow> b \<noteq> [] \<and> even (length b) \<and> list_all (\<lambda>c. c \<in> set hex_digits) b)"

lemma hex_digit_in: "n < 16 \<Longrightarrow> hex_digits ! n \<in> set hex_digits"
  by (rule nth_mem) (simp add: hex_digits_def)

lemma hex_of_text: "bs \<noteq> [] \<Longrightarrow> build_id_text (Some (hex_of bs))"
proof -
  have "list_all (\<lambda>c. c \<in> set hex_digits) (hex_of bs) \<and> length (hex_of bs) = 2 * length bs"
  proof (induction bs)
    case (Cons c bs)
    have "(of_char c :: nat) div 16 < 16" using nat_of_char_less_256 [of c] by linarith
    then show ?case using Cons by (simp add: hex_of_def hex_digit_in)
  qed (simp add: hex_of_def)
  then show "bs \<noteq> [] \<Longrightarrow> ?thesis" unfolding build_id_text_def by fastforce
qed

lemma scan_notes_total:
  "stop \<le> length data \<Longrightarrow> \<exists>r. scan_notes little data stop pos = Inr r \<and> build_id_text r"
proof (induction little data stop pos rule: scan_notes.induct)
  case (1 little data stop pos)
  show ?case
  proof (cases "stop < pos + 12")
    case False
    then have b: "pos + 4 \<le> length data" "pos + 4 + 4 \<le> length data" "pos + 8 + 4 \<le> length data"
      using 1(2) by auto
    obtain a b c where u: "unpack_uint little 4 data pos = Inr a"
      "unpack_uint little 4 data (pos + 4) = Inr b" "unpack_uint little 4 data (pos + 8) = Inr c"
      using b unpack_in_bounds by metis
    then show ?thesis
      using 1(1) [OF False refl refl refl, of c a b] 1(2) False hex_of_text
      by (subst scan_notes.simps) (auto simp: Let_def ebind_def)
  qed (subst scan_notes.simps, simp add: build_id_text_def)
qed

lemma scan_headers_total: "\<exists>r. scan_headers little data phoff entsize is = Inr r \<and> build_id_text r"
proof (induction "is")
  case (Cons i "is")
  show ?case
  proof (cases "length data < phoff + i * entsize + 56")
    case False
    let ?off = "phoff + i * entsize"
    obtain a b c where u: "unpack_uint little 4 data ?off = Inr a"
      "unpack_uint little 8 data (?off + 8) = Inr b" "unpack_uint little 8 data (?off + 32) = Inr c"
      using False unpack_in_bounds [of ?off 4 data] unpack_in_bounds [of "?off + 8" 8 data]
        unpack_in_bounds [of "?off + 32" 8 data] by fastforce
    obtain r where "scan_notes little data (min (b + c) (length data)) b = Inr r" "build_id_text r"
      using scan_notes_total [of "min (b + c) (length data)" data little b] by auto
    then show ?thesis using Cons False u by (cases r) (auto simp: Let_def)
  qed (simp add: Let_def build_id_text_def)
qed (simp add: build_id_text_def)

text \<open>
  Reading a build-id is safe on any bytes: whatever the file holds - truncated, no ELF file,
  sizes and offsets that point anywhere - no field is read past its end and the scan ends, with no
  id or with a non-empty text of lower-case hex digit pairs.
\<close>

theorem build_id_total: "\<exists>r. read_build_id (Inr data) = Inr r \<and> build_id_text r"
proof (cases "length data < 64 \<or> take 4 data \<noteq> elf_magic \<or> byte_at data 4 \<noteq> 2")
  case False
  then have l: "32 + 8 \<le> length data" "54 + 2 \<le> length data" "56 + 2 \<le> length data" by auto
  obtain a b c where u: "unpack_uint little 8 data 32 = Inr a" "unpack_uint little 2 data 54 = Inr b"
    "unpack_uint little 2 data 56 = Inr c" if "little = (byte_at data 5 = 1)" for little
    using unpack_in_bounds l by metis
  then show ?thesis using False scan_headers_total by (auto simp: read_build_id_def Let_def)
qed (auto simp: read_build_id_def build_id_text_def)

section \<open>The note that was written is the id that is read\<close>

text \<open>The layout a linker writes, as the inverse of the reader: a file of one note segment.\<close>

fun bytes_le :: "nat \<Rightarrow> nat \<Rightarrow> string" where
  "bytes_le 0 v = []"
| "bytes_le (Suc n) v = char_of v # bytes_le n (v div 256)"

definition pack_uint :: "bool \<Rightarrow> nat \<Rightarrow> nat \<Rightarrow> string" where
  "pack_uint little n v = (if little then bytes_le n v else rev (bytes_le n v))"

definition padded :: "string \<Rightarrow> string" where
  "padded s = s @ replicate (align4 (length s) - length s) zero_byte"

type_synonym elf_note = "nat \<times> string \<times> string"

definition note_bytes :: "bool \<Rightarrow> elf_note \<Rightarrow> string" where
  "note_bytes little n = (case n of (ty, nm, desc) \<Rightarrow>
     pack_uint little 4 (length nm) @ pack_uint little 4 (length desc) @ pack_uint little 4 ty @ padded nm @ padded desc)"

definition is_build_id :: "elf_note \<Rightarrow> bool" where
  "is_build_id n = (case n of (ty, nm, desc) \<Rightarrow> ty = 3 \<and> py_rstrip_char zero_byte nm = ''GNU'' \<and> desc \<noteq> [])"

definition note_fits :: "elf_note \<Rightarrow> bool" where
  "note_fits n = (case n of (ty, nm, desc) \<Rightarrow> ty < 2 ^ 32 \<and> length nm < 2 ^ 32 \<and> length desc < 2 ^ 32)"

definition elf_header :: "bool \<Rightarrow> string" where
  "elf_header little = elf_magic @ [char_of (2 :: nat), char_of (if little then 1 else 2 :: nat)] @ replicate 26 zero_byte
     @ pack_uint little 8 64 @ replicate 14 zero_byte @ pack_uint little 2 56 @ pack_uint little 2 1 @ replicate 6 zero_byte"

definition note_segment :: "bool \<Rightarrow> nat \<Rightarrow> string" where
  "note_segment little n = pack_uint little 4 4 @ replicate 4 zero_byte @ pack_uint little 8 120
     @ replicate 16 zero_byte @ pack_uint little 8 n @ replicate 16 zero_byte"

definition elf_image :: "bool \<Rightarrow> elf_note list \<Rightarrow> string" where
  "elf_image little notes = (let ns = concat (map (note_bytes little) notes)
     in elf_header little @ note_segment little (length ns) @ ns)"

lemma length_bytes_le [simp]: "length (bytes_le n v) = n"
  by (induction n arbitrary: v) simp_all

lemma length_pack [simp]: "length (pack_uint little n v) = n"
  by (simp add: pack_uint_def)

lemma uint_of_pack: "v < 256 ^ n \<Longrightarrow> uint_of little (pack_uint little n v) = v"
proof -
  have "v < 256 ^ n \<Longrightarrow> foldr (\<lambda>c acc. of_char c + 256 * acc) (bytes_le n v) 0 = v"
  proof (induction n arbitrary: v)
    case (Suc n)
    then have "v div 256 < 256 ^ n" by (simp add: less_mult_imp_div_less mult.commute)
    then show ?case using Suc.IH by simp
  qed simp
  then show "v < 256 ^ n \<Longrightarrow> ?thesis" by (cases little) (simp_all add: uint_of_def pack_uint_def)
qed

lemma unpack_pack:
  "length pre = off \<Longrightarrow> v < 256 ^ n \<Longrightarrow> unpack_uint little n (pre @ pack_uint little n v @ post) off = Inr v"
  by (auto simp: unpack_uint_def py_slice_def uint_of_pack)

lemma align4_ge: "n \<le> align4 n"
  unfolding align4_def by linarith

lemma length_padded: "length (padded s) = align4 (length s)"
  using align4_ge [of "length s"] by (simp add: padded_def)

lemma length_note: "length (note_bytes little (ty, nm, desc)) = 12 + align4 (length nm) + align4 (length desc)"
  by (simp add: note_bytes_def length_padded)

lemma slice_here: "length pre = off \<Longrightarrow> py_slice (pre @ s @ post) off (off + length s) = s"
  by (auto simp: py_slice_def)

lemma scan_note:
  assumes d: "data = pre @ note_bytes little n @ post" and "length pre + length (note_bytes little n) \<le> stop" "note_fits n"
  shows "scan_notes little data stop (length pre) =
    (if is_build_id n then Inr (Some (hex_of (snd (snd n))))
     else scan_notes little data stop (length pre + length (note_bytes little n)))"
proof -
  obtain ty nm desc where n: "n = (ty, nm, desc)" by (cases n)
  let ?a = "pack_uint little 4 (length nm)" and ?b = "pack_uint little 4 (length desc)" and ?c = "pack_uint little 4 ty"
  let ?pn = "replicate (align4 (length nm) - length nm) zero_byte" and ?pd = "replicate (align4 (length desc) - length desc) zero_byte"
  have fits: "ty < 256 ^ 4" "length nm < 256 ^ 4" "length desc < 256 ^ 4" using assms(3) n by (simp_all add: note_fits_def)
  have "unpack_uint little 4 (pre @ ?a @ (?b @ ?c @ padded nm @ padded desc @ post)) (length pre) = Inr (length nm)"
    by (rule unpack_pack) (use fits in simp_all)
  moreover have "unpack_uint little 4 ((pre @ ?a) @ ?b @ (?c @ padded nm @ padded desc @ post)) (length pre + 4) = Inr (length desc)"
    by (rule unpack_pack) (use fits in simp_all)
  moreover have "unpack_uint little 4 ((pre @ ?a @ ?b) @ ?c @ (padded nm @ padded desc @ post)) (length pre + 8) = Inr ty"
    by (rule unpack_pack) (use fits in simp_all)
  moreover have "py_slice ((pre @ ?a @ ?b @ ?c) @ nm @ (?pn @ padded desc @ post)) (length pre + 12) (length pre + 12 + length nm) = nm"
    by (rule slice_here) simp
  moreover have "py_slice ((pre @ ?a @ ?b @ ?c @ padded nm) @ desc @ (?pd @ post))
      (length pre + 12 + align4 (length nm)) (length pre + 12 + align4 (length nm) + length desc) = desc"
    by (rule slice_here) (simp add: length_padded)
  ultimately have r: "unpack_uint little 4 data (length pre) = Inr (length nm)"
    "unpack_uint little 4 data (length pre + 4) = Inr (length desc)" "unpack_uint little 4 data (length pre + 8) = Inr ty"
    "py_slice data (length pre + 12) (length pre + 12 + length nm) = nm"
    "py_slice data (length pre + 12 + align4 (length nm)) (length pre + 12 + align4 (length nm) + length desc) = desc"
    by (simp_all add: d n note_bytes_def padded_def)
  have "\<not> stop < length pre + 12" using assms(2) n by (simp add: length_note)
  then show ?thesis
    using r n by (subst scan_notes.simps) (simp add: Let_def is_build_id_def length_note add.assoc)
qed

lemma scan_all_notes:
  assumes "list_all note_fits ns"
  shows "data = pre @ concat (map (note_bytes little) ns) \<Longrightarrow>
    scan_notes little data (length data) (length pre) = Inr (map_option (\<lambda>n. hex_of (snd (snd n))) (find is_build_id ns))"
  using assms
proof (induction ns arbitrary: pre)
  case Nil
  then show ?case by (subst scan_notes.simps) simp
next
  case (Cons n ns)
  then have "scan_notes little data (length data) (length pre) =
    (if is_build_id n then Inr (Some (hex_of (snd (snd n))))
     else scan_notes little data (length data) (length pre + length (note_bytes little n)))"
    by (intro scan_note [of data pre little n "concat (map (note_bytes little) ns)"]) simp_all
  moreover have "scan_notes little data (length data) (length (pre @ note_bytes little n)) =
      Inr (map_option (\<lambda>n. hex_of (snd (snd n))) (find is_build_id ns))"
    using Cons.prems by (intro Cons.IH) simp_all
  ultimately show ?case by simp
qed

text \<open>The reader gets to the segment of an image.\<close>

lemma read_image:
  assumes "length (elf_image little notes) < 2 ^ 64"
  shows "read_build_id (Inr (elf_image little notes)) =
    scan_notes little (elf_image little notes) (length (elf_image little notes)) 120"
    and "\<exists>pre. length pre = 120 \<and> elf_image little notes = pre @ concat (map (note_bytes little) notes)"
proof -
  let ?ns = "concat (map (note_bytes little) notes)" let ?d = "elf_image little notes"
  let ?m = "elf_magic @ [char_of (2 :: nat), char_of (if little then 1 else 2 :: nat)] @ replicate 26 zero_byte"
  let ?s = "note_segment little (length ?ns)"
  have h: "length (elf_header little) = 64" by (simp add: elf_header_def elf_magic_def)
  have g: "length ?s = 56" by (simp add: note_segment_def)
  have l: "length ?d = 120 + length ?ns" by (simp add: elf_image_def Let_def h g)
  have "unpack_uint little 8 (?m @ pack_uint little 8 64 @ (replicate 14 zero_byte @ pack_uint little 2 56 @ pack_uint little 2 1
      @ replicate 6 zero_byte @ ?s @ ?ns)) 32 = Inr 64"
    by (rule unpack_pack) (simp_all add: elf_magic_def)
  moreover have "unpack_uint little 2 ((?m @ pack_uint little 8 64 @ replicate 14 zero_byte) @ pack_uint little 2 56 @ (pack_uint little 2 1
      @ replicate 6 zero_byte @ ?s @ ?ns)) 54 = Inr 56"
    by (rule unpack_pack) (simp_all add: elf_magic_def)
  moreover have "unpack_uint little 2 ((?m @ pack_uint little 8 64 @ replicate 14 zero_byte @ pack_uint little 2 56) @ pack_uint little 2 1
      @ (replicate 6 zero_byte @ ?s @ ?ns)) 56 = Inr 1"
    by (rule unpack_pack) (simp_all add: elf_magic_def)
  ultimately have head: "unpack_uint little 8 ?d 32 = Inr 64" "unpack_uint little 2 ?d 54 = Inr 56" "unpack_uint little 2 ?d 56 = Inr 1"
    by (simp_all add: elf_image_def Let_def elf_header_def)
  have "unpack_uint little 4 (elf_header little @ pack_uint little 4 4 @ (replicate 4 zero_byte @ pack_uint little 8 120
      @ replicate 16 zero_byte @ pack_uint little 8 (length ?ns) @ replicate 16 zero_byte @ ?ns)) 64 = Inr 4"
    by (rule unpack_pack) (simp_all add: h)
  moreover have "unpack_uint little 8 ((elf_header little @ pack_uint little 4 4 @ replicate 4 zero_byte) @ pack_uint little 8 120
      @ (replicate 16 zero_byte @ pack_uint little 8 (length ?ns) @ replicate 16 zero_byte @ ?ns)) 72 = Inr 120"
    by (rule unpack_pack) (simp_all add: h)
  moreover have "unpack_uint little 8 ((elf_header little @ pack_uint little 4 4 @ replicate 4 zero_byte @ pack_uint little 8 120
      @ replicate 16 zero_byte) @ pack_uint little 8 (length ?ns) @ (replicate 16 zero_byte @ ?ns)) 96 = Inr (length ?ns)"
    by (rule unpack_pack) (use assms l in \<open>simp_all add: h\<close>)
  ultimately have seg: "unpack_uint little 4 ?d 64 = Inr 4" "unpack_uint little 8 ?d 72 = Inr 120" "unpack_uint little 8 ?d 96 = Inr (length ?ns)"
    by (simp_all add: elf_image_def Let_def note_segment_def)
  obtain r where r: "scan_notes little ?d (length ?d) 120 = Inr r"
    using scan_notes_total [of "length ?d" ?d little 120] by auto
  then have "scan_headers little ?d 64 56 [0] = Inr r"
    using seg l by (cases r) (simp_all add: Let_def)
  moreover have "take 4 ?d = elf_magic" "byte_at ?d 4 = 2" and little: "(byte_at ?d 5 = 1) = little"
    by (simp_all add: elf_image_def Let_def elf_header_def elf_magic_def byte_at_def)
  moreover have "[0..<1] = [0 :: nat]" by simp
  ultimately show "read_build_id (Inr ?d) = scan_notes little ?d (length ?d) 120"
    using head l r unfolding read_build_id_def sum.case Let_def little by (simp del: scan_headers.simps)
  show "\<exists>pre. length pre = 120 \<and> ?d = pre @ ?ns"
    by (rule exI [of _ "elf_header little @ ?s"]) (simp add: elf_image_def Let_def h g)
qed

text \<open>
  C31. The id that is read is the one that was written: in a 64-bit ELF file of either byte order with
  one note segment, the reader skips every other note and finds the descriptor of the first GNU
  build-id note, in hex; a segment without one has no id.
\<close>

theorem build_id_roundtrip:
  assumes "list_all note_fits notes" "length (elf_image little notes) < 2 ^ 64"
  shows "read_build_id (Inr (elf_image little notes)) =
    Inr (map_option (\<lambda>n. hex_of (snd (snd n))) (find is_build_id notes))"
proof -
  obtain pre where p: "length pre = 120" "elf_image little notes = pre @ concat (map (note_bytes little) notes)"
    using read_image(2) [OF assms(2)] by blast
  show ?thesis using scan_all_notes [OF assms(1) p(2)] p(1) read_image(1) [OF assms(2)] by simp
qed

theorem build_id_roundtrip_witness:
  "read_build_id (Inr (elf_image True [(1, ''CORE'' @ [zero_byte], ''x''), (3, ''GNU'' @ [zero_byte], ''AB'')])) = Inr (Some ''4142'')"
proof -
  let ?ns = "[(1, ''CORE'' @ [zero_byte], ''x''), (3, ''GNU'' @ [zero_byte], ''AB'')]"
  have "list_all note_fits ?ns" by (simp add: note_fits_def)
  moreover have "length (elf_image True ?ns) < 2 ^ 64"
    by (simp add: elf_image_def Let_def elf_header_def elf_magic_def note_segment_def length_note align4_def)
  ultimately have "read_build_id (Inr (elf_image True ?ns)) = Inr (map_option (\<lambda>n. hex_of (snd (snd n))) (find is_build_id ?ns))"
    by (rule build_id_roundtrip)
  also have "map_option (\<lambda>n. hex_of (snd (snd n))) (find is_build_id ?ns) = Some ''4142''" by code_simp
  finally show ?thesis .
qed

end
