(* ===== verification/Publish_Gate.thy ===== *)
theory Publish_Gate
  imports Engine_Store Engine_Template Build_Id Engine_Discovery
begin

text \<open>
  The publish gate (\<open>workloads/validation_receipt.py\<close>) and the publishing entry points
  (\<open>publish_engine\<close>, \<open>publish_from_provider\<close> of \<open>workloads/engine_publish.py\<close>). A workspace is its
  files, a path relative to it with the bytes; it does not change while it is published. Log lines
  are not modelled.
\<close>

section \<open>Receipts\<close>

type_synonym assignment = "(string \<times> pyval) list"

record validated_query =
  vq_query_id :: string
  vq_bindings :: "assignment list"

record validation_receipt =
  rc_snapshot_id :: "string option"
  rc_build_ids :: "(string \<times> string) list"
  rc_queries :: "validated_query list"
  rc_policy :: string
  rc_planes :: "string list"
  rc_dataset :: string
  rc_scale_factors :: "pyfloat list"
  rc_mode :: string
  rc_live :: bool
  rc_verdict :: string

definition plane_parquet :: string where
  "plane_parquet = ''parquet''"

definition plane_shm :: string where
  "plane_shm = ''shm''"

definition verdict_pass :: string where
  "verdict_pass = ''pass''"

definition covers_plane :: "validation_receipt \<Rightarrow> string \<Rightarrow> bool" where
  "covers_plane r plane \<longleftrightarrow> plane \<in> set (rc_planes r)"

text \<open>What a caller may pass as a receipt: one, or an object of another type.\<close>

datatype proof_arg = Receipt validation_receipt | NotAReceipt string

section \<open>The build-ids of a workspace\<close>

definition is_plugin :: "string \<Rightarrow> bool" where
  "is_plugin p \<longleftrightarrow> py_startswith p ''build/'' \<and> CHR ''/'' \<notin> set (drop 6 p) \<and> py_endswith p ''.so''"

definition artifact_paths :: "(string \<times> string) list \<Rightarrow> string list" where
  "artifact_paths files =
     (if ''db'' \<in> set (map fst files) then [''db''] else []) @ sort (filter is_plugin (map fst files))"

text \<open>Reading an id never raises (\<open>build_id_total\<close>).\<close>

definition artifact_id :: "(string \<times> string) list \<Rightarrow> string \<Rightarrow> string option" where
  "artifact_id files p = (case map_of files p of
     None \<Rightarrow> None
   | Some c \<Rightarrow> (case read_build_id (Inr c) of Inr (Some b) \<Rightarrow> if b \<noteq> [] then Some b else None | _ \<Rightarrow> None))"

definition engine_build_ids :: "(string \<times> string) list \<Rightarrow> (string \<times> string) list" where
  "engine_build_ids files =
     List.map_filter (\<lambda>p. map_option (Pair p) (artifact_id files p)) (artifact_paths files)"

section \<open>The gate\<close>

definition sf_equal :: "pyfloat \<Rightarrow> pyfloat \<Rightarrow> bool" where
  "sf_equal a b = (case (a, b) of (Num (Fin x), Num (Fin y)) \<Rightarrow> \<bar>x - y\<bar> < 1 / 10 ^ 9 | _ \<Rightarrow> False)"

definition same_dict :: "(string \<times> string) list \<Rightarrow> (string \<times> string) list \<Rightarrow> bool" where
  "same_dict a b \<longleftrightarrow> list_all (\<lambda>k. map_of a k = map_of b k) (map fst a @ map fst b)"

definition verify_receipt_for_publish ::
  "proof_arg \<Rightarrow> (string \<times> string) list \<Rightarrow> string list \<Rightarrow> pyfloat option \<Rightarrow> py_error + validation_receipt"
where
  "verify_receipt_for_publish arg ws qids sf = (case arg of
     NotAReceipt t \<Rightarrow> Inl (ReceiptRejected (''publish requires a ValidationReceipt, got '' @ t))
   | Receipt r \<Rightarrow>
       if \<not> rc_live r then Inl (ReceiptRejected ''receipt is not from a live run'')
       else if rc_verdict r \<noteq> verdict_pass then Inl (ReceiptRejected ''validation verdict is not pass'')
       else if engine_build_ids ws = [] then
         Inl (ReceiptRejected ''no build-id could be read from the engine on disk'')
       else if \<not> same_dict (rc_build_ids r) (engine_build_ids ws) then
         Inl (ReceiptRejected ''the engine on disk does not match the validated build-ids'')
       else if filter (\<lambda>q. q \<notin> set (map vq_query_id (rc_queries r))) qids \<noteq> [] then
         Inl (ReceiptRejected ''the receipt does not cover published queries'')
       else (case sf of
           None \<Rightarrow> Inr r
         | Some s \<Rightarrow>
             if \<not> list_ex (sf_equal s) (rc_scale_factors r) then
               Inl (ReceiptRejected ''publish scale factor was not validated'')
             else Inr r))"

section \<open>Publishing\<close>

record publish_options =
  po_parquet_dir :: "string option"
  po_scale_factor :: "pyfloat option"
  po_source_run_id :: "string option"
  po_storage_mode :: string
  po_expected_tables :: "(string \<times> column_spec list) list option"
  po_engines_dir :: "string option"
  po_name :: "string option"
  po_shm_capable :: bool
  po_bundle :: "(string \<times> string) list option"
  po_source_db :: "string option"
  po_threads :: "int option"

text \<open>The files directly in the workspace, whose sources name the engine.\<close>

definition root_listing :: "(string \<times> string) list \<Rightarrow> (string \<times> (py_error + string)) list" where
  "root_listing ws = map (\<lambda>(p, c). (p, Inr c)) (filter (\<lambda>(p, c). CHR ''/'' \<notin> set p) ws)"

definition serves_parquet :: "publish_options \<Rightarrow> bool" where
  "serves_parquet po \<longleftrightarrow> po_parquet_dir po \<noteq> None \<or> po_bundle po \<noteq> None"

definition manifest_dir :: "publish_options \<Rightarrow> string option" where
  "manifest_dir po = (if po_bundle po \<noteq> None then Some ''data'' else po_parquet_dir po)"

definition publish_manifest ::
  "(string \<Rightarrow> string) \<Rightarrow> (string \<times> string) list \<Rightarrow> query_template list \<Rightarrow> validation_receipt \<Rightarrow> publish_options
     \<Rightarrow> engine_manifest"
where
  "publish_manifest digest ws templates r po = build_manifest digest (root_listing ws) templates
     \<lparr>mo_storage_mode = po_storage_mode po, mo_scale_factor = po_scale_factor po,
      mo_source_run_id = po_source_run_id po,
      mo_expected_tables = Some (case po_expected_tables po of None \<Rightarrow> [] | Some ts \<Rightarrow> ts),
      mo_parquet_dir = manifest_dir po, mo_shm_capable = po_shm_capable po \<and> covers_plane r plane_shm,
      mo_source_db = po_source_db po, mo_threads = po_threads po\<rparr>"

definition publish_engine ::
  "publish_os \<Rightarrow> (string \<rightharpoonup> string) \<Rightarrow> (string \<Rightarrow> string) \<Rightarrow> (string \<times> string) list \<Rightarrow> query_template list
     \<Rightarrow> proof_arg \<Rightarrow> publish_options \<Rightarrow> (publish_world, string option) eff"
where
  "publish_engine OS getenv digest ws templates arg po =
     (case resolve_engines_dir (po_engines_dir po) getenv of
        None \<Rightarrow> return_eff None
      | Some target \<Rightarrow>
          if templates = [] then return_eff None
          else (case verify_receipt_for_publish arg ws (map qt_query_id templates) (po_scale_factor po) of
              Inl e \<Rightarrow> raise_eff e
            | Inr r \<Rightarrow>
                if serves_parquet po \<and> \<not> covers_plane r plane_parquet then
                  raise_eff (ReceiptRejected ''the receipt did not validate the parquet plane'')
                else bind_eff
                  (atomic_publish OS ws (publish_manifest digest ws templates r po) (po_name po) (po_bundle po))
                  (\<lambda>dest. return_eff (Some dest))))"

text \<open>The workload gives the templates; \<open>gen\<close> is its generator, started at \<open>seed\<close> for each query.\<close>

definition publish_from_provider ::
  "publish_os \<Rightarrow> (string \<rightharpoonup> string) \<Rightarrow> (string \<Rightarrow> string) \<Rightarrow> sqlglot \<Rightarrow> py_fmt \<Rightarrow> (string \<times> string) list
     \<Rightarrow> (string \<times> string) list \<Rightarrow> (string \<Rightarrow> ('g, assignment) eff) \<Rightarrow> 'g \<Rightarrow> nat \<Rightarrow> string list
     \<Rightarrow> proof_arg \<Rightarrow> publish_options \<Rightarrow> (publish_world, string option) eff"
where
  "publish_from_provider OS getenv digest L F ws sqls gen seed num_samples qids arg po =
     (case workload_templates L F sqls gen seed num_samples qids of
        Inl e \<Rightarrow> raise_eff e
      | Inr templates \<Rightarrow> publish_engine OS getenv digest ws templates arg po)"

section \<open>What a package carries\<close>

lemma map_of_filtered: "map_of (List.map_filter (\<lambda>p. map_option (Pair p) (f p)) ps) k = (if k \<in> set ps then f k else None)"
proof (induction ps)
  case (Cons p ps)
  then show ?case by (cases "f p") (auto simp: List.map_filter_simps)
qed (simp add: List.map_filter_simps)

lemma build_ids_get:
  "map_of (engine_build_ids files) p = (if p = ''db'' \<or> is_plugin p then artifact_id files p else None)"
proof -
  have "artifact_id files p = None" if "p \<notin> set (map fst files)"
    using that map_of_eq_None_iff [of files p] by (simp add: artifact_id_def)
  then show ?thesis by (auto simp: engine_build_ids_def map_of_filtered artifact_paths_def)
qed

lemma same_dict_iff: "same_dict a b \<longleftrightarrow> map_of a = map_of b"
proof
  assume h: "same_dict a b"
  show "map_of a = map_of b"
  proof
    fix k
    show "map_of a k = map_of b k"
      using h map_of_eq_None_iff [of a k] map_of_eq_None_iff [of b k]
      by (cases "k \<in> set (map fst a @ map fst b)") (auto simp: same_dict_def list_all_iff simp del: map_of_eq_None_iff)
  qed
qed (simp add: same_dict_def list_all_iff)

lemma map_of_key_filter: "map_of (filter (\<lambda>(p, c). P p) xs) k = (if P k then map_of xs k else None)"
  by (induction xs) auto

lemma plugin_shipped:
  assumes "p = ''db'' \<or> is_plugin p"
  shows "\<not> list_ex (\<lambda>x. x \<in> set publish_ignore) (py_split_char (CHR ''/'') p)"
proof (cases "p = ''db''")
  case True
  then show ?thesis by (simp add: publish_ignore_def)
next
  case False
  with assms obtain n where n: "p = ''build/'' @ n" "CHR ''/'' \<notin> set n" "py_endswith p ''.so''"
    by (auto simp: is_plugin_def py_startswith_iff)
  have "py_split_char (CHR ''/'') p = [''build'', n]" using n(1) py_split_char_none [OF n(2)] by simp
  moreover have "n \<notin> set publish_ignore" using n(1,3) by (auto simp: publish_ignore_def py_endswith_def)
  ultimately show ?thesis by (simp add: publish_ignore_def)
qed

lemma packaged_artifact:
  assumes "p = ''db'' \<or> is_plugin p"
  shows "map_of (pk_files (full_package ws bundle m)) p = map_of ws p"
proof -
  have "map_of (shipped_files ws) p = map_of ws p"
    using plugin_shipped [OF assms] by (simp add: shipped_files_def map_of_key_filter)
  moreover have "p \<notin> set (map fst (bundled b))" for b
    using assms by (auto simp: bundled_def is_plugin_def py_startswith_def)
  then have "map_of (rev (bundled b)) p = None" for b
    by (simp add: map_of_eq_None_iff)
  ultimately show ?thesis
    by (simp add: full_package_def dict_update_get map_add_def split: option.split)
qed

text \<open>A package carries the build-ids of the workspace it was made from.\<close>

lemma packaged_build_ids: "map_of (engine_build_ids (pk_files (full_package ws bundle m))) = map_of (engine_build_ids ws)"
  by (rule ext) (simp add: build_ids_get artifact_id_def packaged_artifact)

section \<open>Only what was proven is published\<close>

text \<open>What a receipt says of the workspace and the queries that are being published.\<close>

definition proven :: "validation_receipt \<Rightarrow> (string \<times> string) list \<Rightarrow> string list \<Rightarrow> pyfloat option \<Rightarrow> bool" where
  "proven r ws qids sf \<longleftrightarrow> rc_live r \<and> rc_verdict r = verdict_pass \<and> engine_build_ids ws \<noteq> [] \<and>
     map_of (rc_build_ids r) = map_of (engine_build_ids ws) \<and>
     set qids \<subseteq> vq_query_id ` set (rc_queries r) \<and>
     (\<forall>s. sf = Some s \<longrightarrow> (\<exists>s'\<in>set (rc_scale_factors r). sf_equal s s'))"

lemma verify_receipt_iff: "verify_receipt_for_publish arg ws qids sf = Inr r \<longleftrightarrow> arg = Receipt r \<and> proven r ws qids sf"
  by (auto simp: verify_receipt_for_publish_def proven_def same_dict_iff filter_empty_conv list_ex_iff
      split: proof_arg.split option.split)

lemma verify_receipt_refuses: "verify_receipt_for_publish arg ws qids sf = Inl e \<Longrightarrow> \<exists>t. e = ReceiptRejected t"
  by (auto simp: verify_receipt_for_publish_def split: proof_arg.splits option.splits if_splits)

lemma publish_engine_effect:
  assumes "publish_engine OS getenv digest ws templates arg po w = (r, w')"
    and "w' \<noteq> w \<or> (\<exists>dest. r = Inr (Some dest))"
  obtains rc where "arg = Receipt rc" "proven rc ws (map qt_query_id templates) (po_scale_factor po)"
    "serves_parquet po \<longrightarrow> covers_plane rc plane_parquet"
    "bind_eff (atomic_publish OS ws (publish_manifest digest ws templates rc po) (po_name po) (po_bundle po))
       (\<lambda>dest. return_eff (Some dest)) w = (r, w')"
proof -
  obtain rc where "verify_receipt_for_publish arg ws (map qt_query_id templates) (po_scale_factor po) = Inr rc"
    "serves_parquet po \<longrightarrow> covers_plane rc plane_parquet"
    "bind_eff (atomic_publish OS ws (publish_manifest digest ws templates rc po) (po_name po) (po_bundle po))
       (\<lambda>dest. return_eff (Some dest)) w = (r, w')"
    using assms by (auto simp: publish_engine_def return_eff_def raise_eff_def split: option.splits if_splits sum.splits)
  then show thesis using verify_receipt_iff that by metis
qed

text \<open>
  C6. Nothing unproven is published: if publishing makes a single system call or returns a package,
  then the argument is a receipt of a live, passed run, the build-ids on disk are its build-ids and
  there is one, every published query and the scale factor are among what it validated, and the
  parquet plane was validated if it is served. In every other case the engines directory is untouched.
\<close>

theorem publish_only_proven:
  assumes "publish_engine OS getenv digest ws templates arg po w = (r, w')"
    and "w' \<noteq> w \<or> (\<exists>dest. r = Inr (Some dest))"
  shows "\<exists>rc. arg = Receipt rc \<and> rc_live rc \<and> rc_verdict rc = verdict_pass \<and> engine_build_ids ws \<noteq> [] \<and>
    map_of (rc_build_ids rc) = map_of (engine_build_ids ws) \<and>
    (\<forall>t\<in>set templates. qt_query_id t \<in> vq_query_id ` set (rc_queries rc)) \<and>
    (\<forall>s. po_scale_factor po = Some s \<longrightarrow> (\<exists>s'\<in>set (rc_scale_factors rc). sf_equal s s')) \<and>
    (po_parquet_dir po \<noteq> None \<or> po_bundle po \<noteq> None \<longrightarrow> plane_parquet \<in> set (rc_planes rc))"
  using assms
proof (rule publish_engine_effect)
  fix rc assume "arg = Receipt rc" "proven rc ws (map qt_query_id templates) (po_scale_factor po)"
    "serves_parquet po \<longrightarrow> covers_plane rc plane_parquet"
  then show ?thesis by (auto simp: proven_def serves_parquet_def covers_plane_def)
qed

definition sample_binary :: string where
  "sample_binary = elf_image True [(3, ''GNU'' @ [zero_byte], ''AB'')]"

definition sample_workspace :: "(string \<times> string) list" where
  "sample_workspace = [(''db'', sample_binary), (''q1.cpp'', ''int main'')]"

definition sample_template :: query_template where
  "sample_template = \<lparr>qt_query_id = ''1'', qt_sql_template = ''SELECT 1'', qt_placeholders = []\<rparr>"

definition sample_receipt :: validation_receipt where
  "sample_receipt = \<lparr>rc_snapshot_id = None, rc_build_ids = [(''db'', ''4142'')],
     rc_queries = [\<lparr>vq_query_id = ''1'', vq_bindings = [[]]\<rparr>], rc_policy = ''sampled'', rc_planes = [''shm''],
     rc_dataset = ''tpch'', rc_scale_factors = [], rc_mode = ''optimizer'', rc_live = True, rc_verdict = ''pass''\<rparr>"

definition sample_options :: publish_options where
  "sample_options = \<lparr>po_parquet_dir = None, po_scale_factor = None, po_source_run_id = None, po_storage_mode = ''flat'',
     po_expected_tables = None, po_engines_dir = Some ''engines'', po_name = Some ''tpch'', po_shm_capable = True,
     po_bundle = None, po_source_db = None, po_threads = None\<rparr>"

definition sample_publish :: "(py_error + string option) \<times> publish_world" where
  "sample_publish = publish_engine quiet_os Map.empty (\<lambda>s. ''0a'') sample_workspace [sample_template]
     (Receipt sample_receipt) sample_options sample_world"

lemma sample_binary_id: "read_build_id (Inr sample_binary) = Inr (Some ''4142'')"
proof -
  let ?ns = "[(3, ''GNU'' @ [zero_byte], ''AB'')]"
  have "length sample_binary < 2 ^ 64"
    by (simp add: sample_binary_def elf_image_def Let_def elf_header_def elf_magic_def note_segment_def length_note align4_def)
  note i = read_image [OF this [unfolded sample_binary_def]]
  then obtain pre where p: "length pre = 120" "elf_image True ?ns = pre @ concat (map (note_bytes True) ?ns)" by blast
  have "list_all note_fits ?ns" by (simp add: note_fits_def)
  then have "read_build_id (Inr sample_binary) = Inr (map_option (\<lambda>n. hex_of (snd (snd n))) (find is_build_id ?ns))"
    using scan_all_notes [OF _ p(2)] p(1) i(1) by (simp add: sample_binary_def)
  also have "map_option (\<lambda>n. hex_of (snd (snd n))) (find is_build_id ?ns) = Some ''4142''" by code_simp
  finally show ?thesis .
qed

lemma sample_build_ids: "engine_build_ids sample_workspace = [(''db'', ''4142'')]"
  by (simp add: engine_build_ids_def artifact_paths_def sample_workspace_def is_plugin_def py_startswith_def
      List.map_filter_simps artifact_id_def sample_binary_id)

lemma sample_publish_ok: "fst sample_publish = Inr (Some ''tpch'')"
proof -
  have "verify_receipt_for_publish (Receipt sample_receipt) sample_workspace [''1''] None = Inr sample_receipt"
    by (simp add: verify_receipt_for_publish_def sample_build_ids sample_receipt_def verdict_pass_def same_dict_def)
  moreover obtain w' where "atomic_publish quiet_os sample_workspace
      (publish_manifest (\<lambda>s. ''0a'') sample_workspace [sample_template] sample_receipt sample_options) (Some ''tpch'') None sample_world
    = (Inr ''tpch'', w')"
    using atomic_faultless [OF quiet_os_plain quiet_os_ok [of "''tpch''"]] by fastforce
  ultimately show ?thesis
    by (simp add: sample_publish_def publish_engine_def sample_options_def resolve_engines_dir_def sample_template_def
        serves_parquet_def eff_simps)
qed

theorem publish_only_proven_witness:
  "\<exists>rc. Receipt sample_receipt = Receipt rc \<and> map_of (rc_build_ids rc) = map_of (engine_build_ids sample_workspace) \<and>
     ''1'' \<in> vq_query_id ` set (rc_queries rc)"
proof -
  have "publish_engine quiet_os Map.empty (\<lambda>s. ''0a'') sample_workspace [sample_template] (Receipt sample_receipt)
      sample_options sample_world = (fst sample_publish, snd sample_publish)" by (simp add: sample_publish_def)
  from publish_only_proven [OF this] show ?thesis
    by (auto simp: sample_publish_ok sample_template_def)
qed

lemma triple_atomic:
  assumes "publisher_ok OS name mine"
  shows "triple (never_lost name d0 (full_package ws bundle m)) (as_before name d0) (atomic_publish OS ws m (Some name) bundle)
    (\<lambda>n d. n = name \<and> resolve_name d name = Some (full_package ws bundle m))
    (never_lost name d0 (full_package ws bundle m))"
proof -
  have "triple (never_lost name d0 (full_package ws bundle m)) (as_before name d0) (checked_call OS)
      (\<lambda>u. as_before name d0) (never_lost name d0 (full_package ws bundle m))"
    by (rule triple_conseq [OF triple_checked [OF assms]]) (auto intro: as_before_safe)
  from triple_bind [OF this triple_named [OF assms]] show ?thesis
    by (simp add: atomic_publish_def)
qed

text \<open>A named publish that returns has put the complete package under the name.\<close>

lemma published_package:
  assumes "publisher_ok OS name mine" "po_name po = Some name"
    and "\<forall>v. node_of (pw_dir w) name = Some (VersionLink v) \<longrightarrow> own_version name v" "pw_seen w = []"
    and "publish_engine OS getenv digest ws templates arg po w = (Inr (Some dest), w')"
  obtains rc where "arg = Receipt rc" "proven rc ws (map qt_query_id templates) (po_scale_factor po)"
    "serves_parquet po \<longrightarrow> covers_plane rc plane_parquet"
    "resolve_name (pw_dir w') name = Some (full_package ws (po_bundle po) (publish_manifest digest ws templates rc po))"
proof -
  obtain rc where rc: "arg = Receipt rc" "proven rc ws (map qt_query_id templates) (po_scale_factor po)"
    "serves_parquet po \<longrightarrow> covers_plane rc plane_parquet"
    "bind_eff (atomic_publish OS ws (publish_manifest digest ws templates rc po) (po_name po) (po_bundle po))
       (\<lambda>dest. return_eff (Some dest)) w = (Inr (Some dest), w')"
    by (rule publish_engine_effect [OF assms(5)]) auto
  let ?m = "publish_manifest digest ws templates rc po" let ?p = "full_package ws (po_bundle po) ?m"
  have a: "atomic_publish OS ws ?m (Some name) (po_bundle po) w = (Inr dest, w')"
    using rc(4) assms(2) by (auto simp: eff_simps split: prod.splits sum.splits)
  have "as_before name (pw_dir w) (pw_dir w)" using assms(3) by (simp add: as_before_def)
  with triple_atomic [OF assms(1), of "pw_dir w" ws "po_bundle po" ?m] assms(4)
  have "resolve_name (pw_dir w') name = Some ?p"
    unfolding triple_def by (auto simp: a dest: spec [of _ w])
  then show thesis using rc that by blast
qed

lemma manifest_covered:
  assumes "proven rc ws (map qt_query_id templates) (po_scale_factor po)" "serves_parquet po \<longrightarrow> covers_plane rc plane_parquet"
    and "m = publish_manifest digest ws templates rc po"
  shows "mf_queries m = templates" "mf_shm_capable m \<Longrightarrow> plane_shm \<in> set (rc_planes rc)"
    "mf_parquet_dir m \<noteq> None \<Longrightarrow> plane_parquet \<in> set (rc_planes rc)"
    "q \<in> set templates \<Longrightarrow> qt_query_id q \<in> vq_query_id ` set (rc_queries rc)"
    "mf_scale_factor m = Some s \<Longrightarrow> \<exists>s'\<in>set (rc_scale_factors rc). sf_equal s s'"
  using assms by (auto simp: proven_def publish_manifest_def build_manifest_def manifest_dir_def serves_parquet_def
        covers_plane_def split: if_splits)

text \<open>
  C4. The published package is the validated build: a named publish that returns has put under the
  name a package whose artifacts have exactly the build-ids of the receipt and whose manifest routes
  only validated queries, claims the shared-memory plane or a snapshot only if the receipt covers
  that plane, and names a scale factor only if it was validated.
\<close>

theorem published_package_validated:
  assumes "publisher_ok OS name mine" "po_name po = Some name"
    and "\<forall>v. node_of (pw_dir w) name = Some (VersionLink v) \<longrightarrow> own_version name v" "pw_seen w = []"
    and "publish_engine OS getenv digest ws templates arg po w = (Inr (Some dest), w')"
  shows "\<exists>rc p m. arg = Receipt rc \<and> resolve_name (pw_dir w') name = Some p \<and> pk_manifest p = Some m \<and>
    map_of (engine_build_ids (pk_files p)) = map_of (rc_build_ids rc) \<and>
    (\<forall>q\<in>set (mf_queries m). qt_query_id q \<in> vq_query_id ` set (rc_queries rc)) \<and>
    (mf_shm_capable m \<longrightarrow> plane_shm \<in> set (rc_planes rc)) \<and>
    (mf_parquet_dir m \<noteq> None \<longrightarrow> plane_parquet \<in> set (rc_planes rc)) \<and>
    (\<forall>s. mf_scale_factor m = Some s \<longrightarrow> (\<exists>s'\<in>set (rc_scale_factors rc). sf_equal s s'))"
proof -
  obtain rc where rc: "arg = Receipt rc" "proven rc ws (map qt_query_id templates) (po_scale_factor po)"
    "serves_parquet po \<longrightarrow> covers_plane rc plane_parquet"
    "resolve_name (pw_dir w') name = Some (full_package ws (po_bundle po) (publish_manifest digest ws templates rc po))"
    by (rule published_package [OF assms])
  let ?m = "publish_manifest digest ws templates rc po" let ?p = "full_package ws (po_bundle po) ?m"
  note c = manifest_covered [OF rc(2,3) refl [of ?m]]
  have "map_of (engine_build_ids (pk_files ?p)) = map_of (rc_build_ids rc)"
    using rc(2) by (simp add: packaged_build_ids proven_def)
  moreover have "pk_manifest ?p = Some ?m" by (simp add: full_package_def)
  moreover have "\<forall>q\<in>set (mf_queries ?m). qt_query_id q \<in> vq_query_id ` set (rc_queries rc)" using c(1,4) by simp
  ultimately show ?thesis
    using rc(1,4) c(2,3,5) by (intro exI [of _ rc] exI [of _ ?p] exI [of _ ?m]) simp
qed

theorem published_package_validated_witness:
  "\<exists>p m. resolve_name (pw_dir (snd sample_publish)) ''tpch'' = Some p \<and> pk_manifest p = Some m \<and>
     map_of (engine_build_ids (pk_files p)) ''db'' = Some ''4142'' \<and> mf_parquet_dir m = None"
proof -
  have "publish_engine quiet_os Map.empty (\<lambda>s. ''0a'') sample_workspace [sample_template] (Receipt sample_receipt)
      sample_options sample_world = (Inr (Some ''tpch''), snd sample_publish)"
    using sample_publish_ok by (simp add: sample_publish_def prod_eq_iff)
  from published_package_validated [OF quiet_os_ok [of "''tpch''"] _ _ _ this] show ?thesis
    by (auto simp: sample_options_def sample_world_def sample_dir_def node_of_def own_version_def py_startswith_def
        version_prefix_def sample_receipt_def plane_parquet_def)
qed

section \<open>The unnamed path does not look at the build\<close>

text \<open>
  The id of an unnamed engine is a hash of its sources, not of its binaries: whatever package
  is there under the id stays, and the publish of another build succeeds.
\<close>

lemma unnamed_keeps_old:
  assumes "alone OS" "os_fault OS (pw_step w) = None" "po_name po = None"
    and "resolve_engines_dir (po_engines_dir po) getenv = Some target" "templates \<noteq> []"
    and "proven rc ws (map qt_query_id templates) (po_scale_factor po)" "serves_parquet po \<longrightarrow> covers_plane rc plane_parquet"
    and "resolve_name (pw_dir w) (mf_engine_id (publish_manifest digest ws templates rc po)) = Some old"
  shows "\<exists>w'. publish_engine OS getenv digest ws templates (Receipt rc) po w =
      (Inr (Some (mf_engine_id (publish_manifest digest ws templates rc po))), w') \<and>
    resolve_name (pw_dir w') (mf_engine_id (publish_manifest digest ws templates rc po)) = Some old"
proof -
  let ?m = "publish_manifest digest ws templates rc po"
  have "verify_receipt_for_publish (Receipt rc) ws (map qt_query_id templates) (po_scale_factor po) = Inr rc"
    using assms(6) by (simp add: verify_receipt_iff)
  moreover have "atomic_publish OS ws ?m None (po_bundle po) w = (Inr (mf_engine_id ?m), advance (pw_dir w) w)"
    using assms(1,2,8)
    by (simp add: atomic_publish_def checked_call_def os_call_def alone_def eff_simps Let_def
        publish_content_addressed_def read_dir_def advance_def)
  ultimately show ?thesis
    using assms(3-5,7,8) by (simp add: publish_engine_def eff_simps advance_def)
qed

end
