(* ===== verification/Database_Optimizer.thy ===== *)
theory Database_Optimizer
  imports Publish_Gate Query_Router Reference_Backend
begin

text \<open>
  Binding a built engine to a database (\<open>optimize.py\<close>) and the moves of tables in and out of DuckDB
  (\<open>duckdb_compat/db_io.py\<close>). The state is the machine with everything outside (DuckDB, the files)
  and the engines directory. What the code imports is a record of calls: the in-memory
  connection, \<open>fetchall\<close> on the result just executed, temporary directories, the workload.
\<close>

section \<open>The outside\<close>

record 'g workload =
  wl_value :: string
  wl_sqls :: "(string \<times> string) list"
  wl_gen :: "string \<Rightarrow> ('g, assignment) eff"
  wl_seed :: 'g

record ('w, 'g) optimizer_env =
  op_session :: "'w duck_session"
  op_names :: "('w, string list) eff"
  op_columns :: "('w, (string \<times> string) list) eff"
  op_close :: "'w \<Rightarrow> 'w"
  op_mkdtemp :: "('w, string) eff"
  op_rmtree :: "string \<Rightarrow> 'w \<Rightarrow> 'w"
  op_files :: "string \<Rightarrow> 'w machine \<Rightarrow> (string \<times> string) list"
  op_resolve :: "string \<Rightarrow> string"
  op_host :: "'w engine_host"
  op_lang :: sqlglot
  op_benchmark :: "string \<Rightarrow> py_error + string"
  op_provider :: "string \<Rightarrow> string \<Rightarrow> string list \<Rightarrow> py_error + 'g workload"

definition on_source :: "('w, 'a) eff \<Rightarrow> ('w machine, 'a) eff" where
  "on_source f m = (case f (rest_of_world m) of (r, x) \<Rightarrow> (r, m\<lparr>rest_of_world := x\<rparr>))"

section \<open>Tables in and out of DuckDB\<close>

definition quote_char :: char where
  "quote_char = CHR 0x27"

definition sql_str :: "string \<Rightarrow> string" where
  "sql_str v = [quote_char] @ py_replace_char quote_char [quote_char, quote_char] v @ [quote_char]"

definition double_quoted :: "string \<Rightarrow> string" where
  "double_quoted t = [CHR 0x22] @ t @ [CHR 0x22]"

definition list_tables_sql :: string where
  "list_tables_sql = ''SELECT table_name FROM information_schema.tables WHERE table_schema = ? AND table_type = ''
     @ sql_str ''BASE TABLE'' @ '' ORDER BY table_name''"

definition list_tables :: "('w, 'g) optimizer_env \<Rightarrow> string \<Rightarrow> ('w, string list) eff" where
  "list_tables E schema =
     bind_eff (ds_execute (op_session E) list_tables_sql (SeqParams [PStr schema])) (\<lambda>u. op_names E)"

definition attached_tables_sql :: string where
  "attached_tables_sql = ''SELECT table_name FROM information_schema.tables WHERE table_catalog = ? AND table_schema = ''
     @ sql_str ''main'' @ '' AND table_type = '' @ sql_str ''BASE TABLE'' @ '' ORDER BY table_name''"

definition copy_table_sql :: "string \<Rightarrow> string \<Rightarrow> string" where
  "copy_table_sql alias t = ''CREATE TABLE main.'' @ double_quoted t @ '' AS SELECT * FROM '' @ alias @ ''.main.'' @ double_quoted t"

fun run_each :: "('w, 'g) optimizer_env \<Rightarrow> string list \<Rightarrow> ('w, unit) eff" where
  "run_each E [] = return_eff ()"
| "run_each E (s # ss) = bind_eff (ds_execute (op_session E) s NoParams) (\<lambda>u. run_each E ss)"

text \<open>The path exists: attach read-only, copy every base table, detach whatever happens.\<close>

definition attach_and_copy :: "('w, 'g) optimizer_env \<Rightarrow> string \<Rightarrow> string \<Rightarrow> ('w, string list) eff" where
  "attach_and_copy E path alias =
     bind_eff (ds_execute (op_session E) (''ATTACH '' @ sql_str path @ '' AS '' @ alias @ '' (READ_ONLY)'') NoParams) (\<lambda>u.
     finally_eff
       (bind_eff (ds_execute (op_session E) attached_tables_sql (SeqParams [PStr alias])) (\<lambda>u.
        bind_eff (op_names E) (\<lambda>ts.
        bind_eff (run_each E (map (copy_table_sql alias) ts)) (\<lambda>u. return_eff ts))))
       (ds_execute (op_session E) (''DETACH '' @ alias) NoParams))"

definition load_database_into_memory :: "('w, 'g) optimizer_env \<Rightarrow> string \<Rightarrow> ('w machine, string list) eff" where
  "load_database_into_memory E path m =
     (if \<not> exists_path path m then (Inl (OSError (''DuckDB database not found: '' @ path)), m)
      else on_source (attach_and_copy E path ''_synno_src'') m)"

definition export_sql :: "string \<Rightarrow> string \<Rightarrow> string" where
  "export_sql out t = ''COPY (SELECT * FROM '' @ double_quoted t @ '') TO '' @ sql_str (out @ ''/'' @ t @ ''.parquet'')
     @ '' (FORMAT PARQUET)''"

definition export_tables_to_parquet :: "('w, 'g) optimizer_env \<Rightarrow> string list \<Rightarrow> string \<Rightarrow> ('w machine, unit) eff" where
  "export_tables_to_parquet E ts out m = on_source (run_each E (map (export_sql out) ts)) (make_dir out m)"

section \<open>The cross-check\<close>

text \<open>What is run for a query: its template and the sampled bindings, one empty one for a constant.\<close>

type_synonym check_item = "string \<times> string \<times> assignment list"

definition unsupported :: "string \<Rightarrow> py_error" where
  "unsupported reason = SynnoUnsupportedQuery [reason]"

definition plan_query :: "'g workload \<Rightarrow> string \<Rightarrow> string \<Rightarrow> py_error + check_item" where
  "plan_query W dataset qid = (case lookup_template (wl_sqls W) qid of
     None \<Rightarrow> Inl (unsupported (''no query template for '' @ qid @ '' in the '' @ dataset @ '' workload''))
   | Some bracket_sql \<Rightarrow>
       if bracket_sql = [] then Inl (unsupported (''no query template for '' @ qid @ '' in the '' @ dataset @ '' workload''))
       else
         (let samples = sample_assignments (wl_gen W) (wl_seed W) qid 2 in
          if samples = [] \<and> snd (bracket_split bracket_sql) \<noteq> [] then
            Inl (unsupported (''could not sample any parameter bindings for query '' @ qid))
          else Inr (qid, bracket_sql, if samples = [] then [[]] else samples)))"

definition order_keys_of :: "sqlglot \<Rightarrow> string \<Rightarrow> arrow \<Rightarrow> nat list option" where
  "order_keys_of L sql reference =
     (if has_order_by L sql then order_by_key_indices L sql (column_names reference) else None)"

definition compare_outputs :: "sqlglot \<Rightarrow> string \<Rightarrow> string \<Rightarrow> arrow \<Rightarrow> arrow \<Rightarrow> py_error + unit" where
  "compare_outputs L qid concrete table reference =
     ebind (results_equal default_tol (has_order_by L concrete) (order_keys_of L concrete reference) None None table reference)
       (\<lambda>same. if same then Inr ()
        else ebind (results_diff default_tol 8 (has_order_by L concrete) (order_keys_of L concrete reference) None None table reference)
          (\<lambda>d. Inl (RuntimeError (''engine output for query '' @ qid @ '' does not match the source database''))))"

type_synonym 'w checked_state = "process_engine \<times> 'w machine"

definition check_binding ::
  "('w, 'g) optimizer_env \<Rightarrow> string \<Rightarrow> string \<Rightarrow> assignment \<Rightarrow> ('w checked_state, unit) eff" where
  "check_binding E qid bracket_sql b s =
     (let concrete = substitute (value_fmt (op_host E)) bracket_sql b in
      case on_source (execute_arrow (op_session E) concrete NoParams) (snd s) of
        (Inl e, m) \<Rightarrow> (Inl e, fst s, m)
      | (Inr reference, m) \<Rightarrow> (case run_engine (op_host E) qid b (fst s) m of
            (Inl e, s') \<Rightarrow> (Inl e, s')
          | (Inr (table, ms), s') \<Rightarrow> (compare_outputs (op_lang E) qid concrete table reference, s')))"

fun each_eff :: "('a \<Rightarrow> ('s, unit) eff) \<Rightarrow> 'a list \<Rightarrow> ('s, unit) eff" where
  "each_eff f [] = return_eff ()"
| "each_eff f (x # xs) = bind_eff (f x) (\<lambda>u. each_eff f xs)"

definition cross_check_items :: "('w, 'g) optimizer_env \<Rightarrow> check_item list \<Rightarrow> ('w checked_state, unit) eff" where
  "cross_check_items E items = each_eff (\<lambda>(qid, bracket_sql, bs). each_eff (check_binding E qid bracket_sql) bs) items"

definition last_part :: "string \<Rightarrow> string" where
  "last_part path = List.last (py_split_char (CHR ''/'') path)"

text \<open>The engine of a plane; the shared-memory one is given the tables before its check begins.\<close>

definition source_tables :: "('w, 'g) optimizer_env \<Rightarrow> string list \<Rightarrow> ('w, (string \<times> arrow) list) eff" where
  "source_tables E ts = traverse_eff (\<lambda>t.
     bind_eff (execute_arrow (op_session E) (''SELECT * FROM '' @ double_quoted t) NoParams) (\<lambda>a. return_eff (t, a))) ts"

definition start_plane ::
  "('w, 'g) optimizer_env \<Rightarrow> string \<Rightarrow> string option \<Rightarrow> string list \<Rightarrow> string \<Rightarrow> ('w machine, process_engine) eff" where
  "start_plane E ws bundle ts plane m =
     (let eid = ''optimize-validate-'' @ last_part ws in
      if plane = plane_parquet then (case bundle of
          None \<Rightarrow> (Inl (AssertionError ''parquet plane validation needs an exported snapshot''), m)
        | Some d \<Rightarrow> (Inr (new_process_engine eid ws d []), m))
      else (case on_source (source_tables E ts) m of
          (Inl e, m') \<Rightarrow> (Inl e, m')
        | (Inr snapshot, m') \<Rightarrow> (case ingest (op_host E) snapshot (new_hot_engine eid ws None []) m' of
              (Inl e, en, m2) \<Rightarrow> (Inl e, m2)
            | (Inr u, en, m2) \<Rightarrow> (Inr en, m2))))"

definition check_plane ::
  "('w, 'g) optimizer_env \<Rightarrow> string \<Rightarrow> string option \<Rightarrow> string list \<Rightarrow> check_item list \<Rightarrow> string \<Rightarrow> ('w machine, unit) eff" where
  "check_plane E ws bundle ts items plane m = (case start_plane E ws bundle ts plane m of
     (Inl e, m') \<Rightarrow> (Inl e, m')
   | (Inr en, m') \<Rightarrow> (case cross_check_items E items (en, m') of
         (r, s) \<Rightarrow> (r, snd (close_engine s))))"

definition crosscheck_receipt ::
  "('w, 'g) optimizer_env \<Rightarrow> string \<Rightarrow> check_item list \<Rightarrow> string list \<Rightarrow> string \<Rightarrow> pyfloat option \<Rightarrow> 'w machine
     \<Rightarrow> validation_receipt"
where
  "crosscheck_receipt E ws items planes dataset sf m =
     \<lparr>rc_snapshot_id = None, rc_build_ids = engine_build_ids (op_files E ws m),
      rc_queries = map (\<lambda>(qid, bracket_sql, bs). \<lparr>vq_query_id = qid, vq_bindings = bs\<rparr>) items,
      rc_policy = ''engine output cross-checked against the source DuckDB for sampled bindings per query'',
      rc_planes = planes, rc_dataset = dataset,
      rc_scale_factors = (case sf of None \<Rightarrow> [] | Some x \<Rightarrow> [x]), rc_mode = ''optimizer-crosscheck'',
      rc_live = True, rc_verdict = verdict_pass\<rparr>"

definition validate_engine_against_source ::
  "('w, 'g) optimizer_env \<Rightarrow> string \<Rightarrow> 'g workload \<Rightarrow> string list \<Rightarrow> string list \<Rightarrow> string option \<Rightarrow> string list
     \<Rightarrow> string \<Rightarrow> pyfloat option \<Rightarrow> ('w machine, validation_receipt) eff"
where
  "validate_engine_against_source E ws W qids planes bundle ts dataset sf m =
     (case traverse_e (plan_query W dataset) qids of
        Inl e \<Rightarrow> (Inl e, m)
      | Inr items \<Rightarrow> (case each_eff (check_plane E ws bundle ts items) planes m of
            (Inl e, m') \<Rightarrow> (Inl e, m')
          | (Inr u, m') \<Rightarrow> (Inr (crosscheck_receipt E ws items planes dataset sf m'), m')))"

section \<open>Optimizing a database\<close>

record optimize_args =
  oa_database :: string
  oa_query_ids :: "string list"
  oa_workspace :: string
  oa_benchmark :: string
  oa_engines_dir :: "string option"
  oa_name :: "string option"
  oa_data_plane :: string
  oa_scale_factor :: "pyfloat option"
  oa_threads :: "int option"
  oa_force :: bool

definition data_planes :: "string list" where
  "data_planes = [''auto'', ''parquet'', ''shm'']"

text \<open>\<open>Path.stem\<close>: the last part without its suffix.\<close>

definition path_stem :: "string \<Rightarrow> string" where
  "path_stem path = (let n = last_part path; ext = takeWhile (\<lambda>c. c \<noteq> CHR ''.'') (rev n); k = length n - length ext - 1
     in if CHR ''.'' \<in> set n \<and> 0 < k \<and> ext \<noteq> [] then take k n else n)"

definition engine_name :: "optimize_args \<Rightarrow> string" where
  "engine_name a = (case oa_name a of
     Some n \<Rightarrow> if n \<noteq> [] then n else ''synno-'' @ path_stem (oa_database a)
   | None \<Rightarrow> ''synno-'' @ path_stem (oa_database a))"

text \<open>An engine of this name that was built for another database; an unreadable manifest is none.\<close>

definition foreign_engine :: "string \<Rightarrow> string \<Rightarrow> engines_dir \<Rightarrow> bool" where
  "foreign_engine name source d = (case resolve_name d name of
     None \<Rightarrow> False
   | Some p \<Rightarrow> (case pk_manifest p of
       None \<Rightarrow> False
     | Some m \<Rightarrow> (case mf_source_db m of None \<Rightarrow> False | Some db \<Rightarrow> db \<noteq> [] \<and> db \<noteq> source)))"

definition neutral_sql :: "string \<Rightarrow> string" where
  "neutral_sql bracket_sql = (case bracket_split bracket_sql of (c, ps) \<Rightarrow> c @ concat (map (\<lambda>(n, t). ''1'' @ t) ps))"

definition referenced_tables :: "sqlglot \<Rightarrow> 'g workload \<Rightarrow> string list \<Rightarrow> string list" where
  "referenced_tables L W qids = sort (remdups (concat (map (\<lambda>qid. case lookup_template (wl_sqls W) qid of
     None \<Rightarrow> [] | Some b \<Rightarrow> if b = [] then [] else map py_lower (tables_in L (neutral_sql b))) qids)))"

definition present_tables :: "string list \<Rightarrow> (string \<times> string) list" where
  "present_tables loaded = fold (\<lambda>t d. AList.update (py_lower t) t d) loaded []"

definition columns_sql :: string where
  "columns_sql = ''SELECT column_name, data_type FROM information_schema.columns WHERE lower(table_name) = ? ORDER BY ordinal_position''"

fun read_columns ::
  "('w, 'g) optimizer_env \<Rightarrow> (string \<times> string) list \<Rightarrow> string list \<Rightarrow> (string \<times> column_spec list) list
     \<Rightarrow> ('w, (string \<times> column_spec list) list) eff"
where
  "read_columns E present [] d = return_eff d"
| "read_columns E present (t # ts) d =
     bind_eff (ds_execute (op_session E) columns_sql (SeqParams [PStr t])) (\<lambda>u.
     bind_eff (op_columns E) (\<lambda>cs. case map_of present t of
         None \<Rightarrow> raise_eff (KeyError t)
       | Some name \<Rightarrow> read_columns E present ts
           (AList.update name (map (\<lambda>(n, ty). \<lparr>col_name = n, col_type = ty\<rparr>) cs) d)))"

text \<open>Up to the choice of planes: load, resolve the workload, and the schema of the tables it reads.\<close>

definition prepare ::
  "('w, 'g) optimizer_env \<Rightarrow> optimize_args \<Rightarrow> string \<Rightarrow> ('w machine, 'g workload \<times> (string \<times> column_spec list) list) eff"
where
  "prepare E a bench =
     bind_eff (load_database_into_memory E (oa_database a)) (\<lambda>loaded m.
       case op_provider E bench (oa_database a) (oa_query_ids a) of
         Inl e \<Rightarrow> (Inl e, m)
       | Inr W \<Rightarrow>
           (let present = present_tables loaded; referenced = referenced_tables (op_lang E) W (oa_query_ids a);
                missing = filter (\<lambda>t. t \<notin> set (map fst present)) referenced in
            if referenced = [] then
              (Inl (unsupported ''the selected queries reference no base tables, so there is nothing to optimize''), m)
            else if missing \<noteq> [] then
              (Inl (SynnoUnsupportedQuery (map (\<lambda>t. ''table '' @ t @ '' is referenced by the selected queries but is not in the database'') missing)), m)
            else bind_eff (on_source (read_columns E present referenced [])) (\<lambda>expected. return_eff (W, expected)) m))"

definition selected_planes :: "string \<Rightarrow> string list" where
  "selected_planes plane =
     (if plane \<in> {''parquet'', ''auto''} then [plane_parquet] else []) @ (if plane \<in> {''shm'', ''auto''} then [plane_shm] else [])"

type_synonym 'w optimizer_state = "'w machine \<times> publish_world"

definition on_machine :: "('w machine, 'a) eff \<Rightarrow> ('w optimizer_state, 'a) eff" where
  "on_machine f s = (case f (fst s) of (r, m) \<Rightarrow> (r, m, snd s))"

definition publish_args ::
  "optimize_args \<Rightarrow> string \<Rightarrow> string \<Rightarrow> (string \<times> string) list option \<Rightarrow> (string \<times> column_spec list) list \<Rightarrow> publish_options"
where
  "publish_args a target source files expected =
     \<lparr>po_parquet_dir = None, po_scale_factor = oa_scale_factor a, po_source_run_id = None, po_storage_mode = ''flat'',
      po_expected_tables = Some expected, po_engines_dir = Some target, po_name = Some (engine_name a),
      po_shm_capable = oa_data_plane a \<in> {''shm'', ''auto''}, po_bundle = files, po_source_db = Some source,
      po_threads = oa_threads a\<rparr>"

text \<open>The rest of the \<open>try\<close>, once the snapshot directory (if any) is there.\<close>

definition check_and_publish ::
  "('w, 'g) optimizer_env \<Rightarrow> publish_os \<Rightarrow> (string \<rightharpoonup> string) \<Rightarrow> (string \<Rightarrow> string) \<Rightarrow> optimize_args \<Rightarrow> string
     \<Rightarrow> 'g workload \<Rightarrow> (string \<times> column_spec list) list \<Rightarrow> string option \<Rightarrow> ('w optimizer_state, string) eff"
where
  "check_and_publish E OS getenv digest a target W expected bundle =
     bind_eff (case bundle of None \<Rightarrow> return_eff () | Some d \<Rightarrow> on_machine (export_tables_to_parquet E (map fst expected) d)) (\<lambda>u.
     bind_eff (on_machine (validate_engine_against_source E (oa_workspace a) W (oa_query_ids a)
         (selected_planes (oa_data_plane a)) bundle (map fst expected) (wl_value W) (oa_scale_factor a))) (\<lambda>r s.
       case publish_from_provider OS getenv digest (op_lang E) (value_fmt (op_host E)) (op_files E (oa_workspace a) (fst s))
           (wl_sqls W) (wl_gen W) (wl_seed W) 3 (oa_query_ids a) (Receipt r)
           (publish_args a target (op_resolve E (oa_database a))
             (map_option (\<lambda>d. op_files E d (fst s)) bundle) expected) (snd s) of
         (Inl e, p) \<Rightarrow> (Inl e, fst s, p)
       | (Inr None, p) \<Rightarrow> (Inl (RuntimeError ''publish produced no engine (no routable templates derived)''), fst s, p)
       | (Inr (Some dest), p) \<Rightarrow> (Inr dest, fst s, p)))"

definition after_world :: "('w \<Rightarrow> 'w) \<Rightarrow> 'w optimizer_state \<Rightarrow> 'w optimizer_state" where
  "after_world f s = ((fst s)\<lparr>rest_of_world := f (rest_of_world (fst s))\<rparr>, snd s)"

text \<open>The \<open>try ... finally\<close>: the connection is closed, then the snapshot directory removed.\<close>

definition optimize_body ::
  "('w, 'g) optimizer_env \<Rightarrow> publish_os \<Rightarrow> (string \<rightharpoonup> string) \<Rightarrow> (string \<Rightarrow> string) \<Rightarrow> optimize_args \<Rightarrow> string \<Rightarrow> string
     \<Rightarrow> ('w optimizer_state, string) eff"
where
  "optimize_body E OS getenv digest a target bench s0 =
     (case on_machine (prepare E a bench) s0 of
        (Inl e, s) \<Rightarrow> (Inl e, after_world (op_close E) s)
      | (Inr (W, expected), s) \<Rightarrow>
          if oa_data_plane a \<in> {''parquet'', ''auto''} then
            (case on_machine (on_source (op_mkdtemp E)) s of
               (Inl e, s1) \<Rightarrow> (Inl e, after_world (op_close E) s1)
             | (Inr d, s1) \<Rightarrow> (case check_and_publish E OS getenv digest a target W expected (Some d) s1 of
                   (r, s2) \<Rightarrow> (r, after_world (op_rmtree E d) (after_world (op_close E) s2))))
          else (case check_and_publish E OS getenv digest a target W expected None s of
              (r, s2) \<Rightarrow> (r, after_world (op_close E) s2)))"

definition optimize_database ::
  "('w, 'g) optimizer_env \<Rightarrow> publish_os \<Rightarrow> (string \<rightharpoonup> string) \<Rightarrow> (string \<Rightarrow> string) \<Rightarrow> optimize_args
     \<Rightarrow> ('w optimizer_state, string) eff"
where
  "optimize_database E OS getenv digest a s =
     (if oa_data_plane a \<notin> set data_planes then (Inl (ValueError ''data_plane must be one of auto, parquet, shm''), s)
      else if \<not> exists_path (oa_workspace a @ ''/db'') (fst s) then
        (Inl (OSError (''engine workspace '' @ oa_workspace a @ '' has no compiled db binary'')), s)
      else (case resolve_engines_dir (oa_engines_dir a) getenv of
          None \<Rightarrow> (Inl (ValueError ''no engines directory''), s)
        | Some target \<Rightarrow>
            if \<not> oa_force a \<and> foreign_engine (engine_name a) (op_resolve E (oa_database a)) (pw_dir (snd s)) then
              (Inl (unsupported (''an engine named '' @ engine_name a @ '' already exists, built for a different database'')), s)
            else (case op_benchmark E (oa_benchmark a) of
                Inl e \<Rightarrow> (Inl e, s)
              | Inr bench \<Rightarrow> optimize_body E OS getenv digest a target bench s)))"

section \<open>What the cross-check proves\<close>

lemma each_eff_keeps:
  assumes "\<And>x s r s'. I s \<Longrightarrow> f x s = (r, s') \<Longrightarrow> I s'" "I s" "each_eff f xs s = (r, s')"
  shows "I s'"
  using assms(2,3)
proof (induction xs arbitrary: s)
  case (Cons x xs)
  obtain r1 s1 where s1: "f x s = (r1, s1)" by (cases "f x s")
  then have "I s1" using assms(1) Cons.prems(1) by blast
  with Cons s1 show ?case by (auto simp: eff_simps split: sum.splits)
qed (simp add: eff_simps)

text \<open>
  The engine agrees with the source on one statement: from state \<open>s\<close> of the run DuckDB answers the
  query's own template with these parameters, then the engine answers the query with the same ones,
  which leaves \<open>s'\<close>, and the two tables compare equal.
\<close>

definition agreed_on ::
  "('w, 'g) optimizer_env \<Rightarrow> string \<Rightarrow> string \<Rightarrow> assignment \<Rightarrow> 'w checked_state \<Rightarrow> 'w checked_state \<Rightarrow> bool" where
  "agreed_on E qid bracket_sql b s s' \<longleftrightarrow> (\<exists>m1 reference table ms.
     on_source (execute_arrow (op_session E) (substitute (value_fmt (op_host E)) bracket_sql b) NoParams) (snd s) = (Inr reference, m1) \<and>
     run_engine (op_host E) qid b (fst s) m1 = (Inr (table, ms), s') \<and>
     (let concrete = substitute (value_fmt (op_host E)) bracket_sql b in
      results_equal default_tol (has_order_by (op_lang E) concrete) (order_keys_of (op_lang E) concrete reference)
        None None table reference = Inr True))"

text \<open>One after the other: a list of queries with their template and parameters.\<close>

fun agreed_run ::
  "('w, 'g) optimizer_env \<Rightarrow> (string \<times> string \<times> assignment) list \<Rightarrow> 'w checked_state \<Rightarrow> 'w checked_state \<Rightarrow> bool" where
  "agreed_run E [] s s' = (s' = s)"
| "agreed_run E ((qid, bracket_sql, b) # work) s s' =
     (\<exists>s1. agreed_on E qid bracket_sql b s s1 \<and> agreed_run E work s1 s')"

definition plane_agreed ::
  "('w, 'g) optimizer_env \<Rightarrow> string \<Rightarrow> string option \<Rightarrow> string list \<Rightarrow> (string \<times> string \<times> assignment) list \<Rightarrow> string
     \<Rightarrow> 'w machine \<Rightarrow> 'w machine \<Rightarrow> bool"
where
  "plane_agreed E ws bundle ts work plane m m' \<longleftrightarrow> (\<exists>en m1 s.
     start_plane E ws bundle ts plane m = (Inr en, m1) \<and> pe_hot en = (plane \<noteq> plane_parquet) \<and> pe_workspace en = ws \<and>
     agreed_run E work (en, m1) s \<and> m' = snd (close_engine s))"

fun planes_agreed ::
  "('w, 'g) optimizer_env \<Rightarrow> string \<Rightarrow> string option \<Rightarrow> string list \<Rightarrow> (string \<times> string \<times> assignment) list \<Rightarrow> string list
     \<Rightarrow> 'w machine \<Rightarrow> 'w machine \<Rightarrow> bool"
where
  "planes_agreed E ws bundle ts work [] m m' = (m' = m)"
| "planes_agreed E ws bundle ts work (p # ps) m m' =
     (\<exists>m1. plane_agreed E ws bundle ts work p m m1 \<and> planes_agreed E ws bundle ts work ps m1 m')"

text \<open>A query can be checked: it has a template, and samples unless the template has no hole.\<close>

definition samplable :: "'g workload \<Rightarrow> string \<Rightarrow> bool" where
  "samplable W qid \<longleftrightarrow> (\<exists>t. lookup_template (wl_sqls W) qid = Some t \<and> t \<noteq> [] \<and>
     (sample_assignments (wl_gen W) (wl_seed W) qid 2 = [] \<longrightarrow> find_placeholders t = []))"

text \<open>What has to be run: each query's own template with each of its sampled bindings.\<close>

definition check_bindings :: "'g workload \<Rightarrow> string \<Rightarrow> assignment list" where
  "check_bindings W qid = (let bs = sample_assignments (wl_gen W) (wl_seed W) qid 2 in if bs = [] then [[]] else bs)"

definition check_work :: "'g workload \<Rightarrow> string list \<Rightarrow> (string \<times> string \<times> assignment) list" where
  "check_work W qids =
     concat (map (\<lambda>qid. map (\<lambda>b. (qid, the (lookup_template (wl_sqls W) qid), b)) (check_bindings W qid)) qids)"

lemma check_binding_ok:
  assumes "check_binding E qid bracket_sql b s = (Inr u, s')"
  shows "agreed_on E qid bracket_sql b s s'"
proof -
  let ?c = "substitute (value_fmt (op_host E)) bracket_sql b"
  obtain reference m1 where a: "on_source (execute_arrow (op_session E) ?c NoParams) (snd s) = (Inr reference, m1)"
    using assms by (auto simp: check_binding_def Let_def split: prod.splits sum.splits)
  obtain table ms where r: "run_engine (op_host E) qid b (fst s) m1 = (Inr (table, ms), s')"
    "compare_outputs (op_lang E) qid ?c table reference = Inr u"
    using assms a by (auto simp: check_binding_def Let_def split: prod.splits sum.splits)
  have "results_equal default_tol (has_order_by (op_lang E) ?c) (order_keys_of (op_lang E) ?c reference) None None table reference = Inr True"
    using r(2) by (auto simp: compare_outputs_def ebind_Inr_iff split: if_splits)
  with a r(1) show ?thesis unfolding agreed_on_def Let_def by blast
qed

lemma agreed_run_append:
  "agreed_run E xs s s1 \<Longrightarrow> agreed_run E ys s1 s' \<Longrightarrow> agreed_run E (xs @ ys) s s'"
  by (induction E xs s s1 rule: agreed_run.induct) auto

lemma check_bindings_ok:
  "each_eff (check_binding E qid bracket_sql) bs s = (Inr u, s') \<Longrightarrow>
   agreed_run E (map (\<lambda>b. (qid, bracket_sql, b)) bs) s s'"
proof (induction bs arbitrary: s)
  case (Cons b bs)
  obtain s1 where s1: "check_binding E qid bracket_sql b s = (Inr (), s1)"
      "each_eff (check_binding E qid bracket_sql) bs s1 = (Inr u, s')"
    using Cons.prems by (auto simp: eff_simps split: prod.splits sum.splits)
  from check_binding_ok [OF s1(1)] Cons.IH [OF s1(2)] show ?case unfolding list.map agreed_run.simps by blast
qed (simp add: eff_simps)

definition item_work :: "check_item \<Rightarrow> (string \<times> string \<times> assignment) list" where
  "item_work x = (case x of (qid, bracket_sql, bs) \<Rightarrow> map (\<lambda>b. (qid, bracket_sql, b)) bs)"

lemma cross_check_ok:
  "cross_check_items E items s = (Inr u, s') \<Longrightarrow> agreed_run E (concat (map item_work items)) s s'"
  unfolding cross_check_items_def
proof (induction items arbitrary: s)
  case (Cons x xs)
  obtain q br bs where x: "x = (q, br, bs)" by (cases x)
  obtain s1 where s1: "each_eff (check_binding E q br) bs s = (Inr (), s1)"
      "each_eff (\<lambda>(qid, bracket_sql, bs). each_eff (check_binding E qid bracket_sql) bs) xs s1 = (Inr u, s')"
    using Cons.prems x by (auto simp: eff_simps split: prod.splits sum.splits)
  from agreed_run_append [OF check_bindings_ok [OF s1(1)] Cons.IH [OF s1(2)]] show ?case
    by (simp add: x item_work_def)
qed (simp add: eff_simps)

lemma ingest_frame:
  assumes "ingest H ts e m = (r, e', m')"
  shows "pe_hot e' = pe_hot e \<and> pe_workspace e' = pe_workspace e \<and> pe_proc e' = pe_proc e"
proof -
  have "pe_hot (fst (drop_snapshot e m)) = pe_hot e \<and> pe_workspace (fst (drop_snapshot e m)) = pe_workspace e \<and>
      pe_proc (fst (drop_snapshot e m)) = pe_proc e"
    by (simp add: drop_snapshot_def split: option.split)
  then show ?thesis
    using assms by (auto simp: ingest_def Let_def attach_snapshot_def split: prod.splits sum.splits dest!: stage_frame)
qed

lemma start_plane_ok:
  assumes "start_plane E ws bundle ts plane m = (Inr en, m')"
  shows "pe_hot en = (plane \<noteq> plane_parquet) \<and> pe_workspace en = ws"
  using assms
  by (auto simp: start_plane_def Let_def new_hot_engine_def new_process_engine_def
      split: if_splits option.splits prod.splits sum.splits dest!: ingest_frame)

lemma check_plane_ok:
  assumes "check_plane E ws bundle ts items plane m = (Inr u, m')"
  shows "plane_agreed E ws bundle ts (concat (map item_work items)) plane m m'"
proof -
  obtain en m1 s where "start_plane E ws bundle ts plane m = (Inr en, m1)"
    "cross_check_items E items (en, m1) = (Inr u, s)" "m' = snd (close_engine s)"
    using assms by (auto simp: check_plane_def split: prod.splits sum.splits)
  then show ?thesis using cross_check_ok start_plane_ok unfolding plane_agreed_def by blast
qed

lemma check_planes_ok:
  "each_eff (check_plane E ws bundle ts items) planes m = (Inr u, m') \<Longrightarrow>
   planes_agreed E ws bundle ts (concat (map item_work items)) planes m m'"
proof (induction planes arbitrary: m)
  case (Cons p ps)
  obtain m1 where s1: "check_plane E ws bundle ts items p m = (Inr (), m1)"
      "each_eff (check_plane E ws bundle ts items) ps m1 = (Inr u, m')"
    using Cons.prems by (auto simp: eff_simps split: prod.splits sum.splits)
  from check_plane_ok [OF s1(1)] Cons.IH [OF s1(2)] show ?case unfolding planes_agreed.simps by blast
qed (simp add: eff_simps)

text \<open>What a plan item is.\<close>

lemma holes_split: "holes s = map fst (snd (bracket_split s))"
  by (induction s rule: bracket_split.induct) (auto split: option.splits prod.splits)

lemma plan_query_ok:
  assumes "plan_query W dataset qid = Inr x"
  shows "fst x = qid \<and> samplable W qid \<and> x = (qid, the (lookup_template (wl_sqls W) qid), check_bindings W qid)"
proof -
  have "bracket_split t = (c, []) \<Longrightarrow> find_placeholders t = []" for t c
    using holes_split [of t] by (simp add: find_placeholders_def first_keys_def)
  with assms show ?thesis
    by (auto simp: plan_query_def check_bindings_def samplable_def Let_def prod_eq_iff split: option.splits if_splits)
qed

lemma plan_work:
  assumes "list_all2 (\<lambda>x y. plan_query W dataset x = Inr y) qids items"
  shows "concat (map item_work items) = check_work W qids" "map fst items = qids"
    "\<forall>qid\<in>set qids. samplable W qid"
  using assms
  by (induction rule: list_all2_induct) (auto simp: check_work_def item_work_def dest!: plan_query_ok)

lemma validate_ok:
  assumes "validate_engine_against_source E ws W qids planes bundle ts dataset sf m = (Inr r, m')"
  shows "rc_planes r = planes" "map vq_query_id (rc_queries r) = qids" "rc_build_ids r = engine_build_ids (op_files E ws m')"
    "rc_scale_factors r = (case sf of None \<Rightarrow> [] | Some x \<Rightarrow> [x])"
    "\<forall>qid\<in>set qids. samplable W qid"
    "planes_agreed E ws bundle ts (check_work W qids) planes m m'"
proof -
  obtain items where i: "traverse_e (plan_query W dataset) qids = Inr items"
    using assms by (auto simp: validate_engine_against_source_def split: sum.splits)
  then have e: "each_eff (check_plane E ws bundle ts items) planes m = (Inr (), m')"
    and r: "r = crosscheck_receipt E ws items planes dataset sf m'"
    using assms by (auto simp: validate_engine_against_source_def split: sum.splits prod.splits)
  have l: "list_all2 (\<lambda>x y. plan_query W dataset x = Inr y) qids items" using i by (simp add: traverse_e_Inr)
  show "map vq_query_id (rc_queries r) = qids"
    using plan_work(2) [OF l] by (simp add: r crosscheck_receipt_def comp_def case_prod_beta)
  show "rc_planes r = planes" "rc_build_ids r = engine_build_ids (op_files E ws m')"
    "rc_scale_factors r = (case sf of None \<Rightarrow> [] | Some x \<Rightarrow> [x])"
    by (simp_all add: r crosscheck_receipt_def)
  show "\<forall>qid\<in>set qids. samplable W qid"
    using plan_work(3) [OF l] .
  show "planes_agreed E ws bundle ts (check_work W qids) planes m m'"
    using check_planes_ok [OF e] plan_work(1) [OF l] by simp
qed

section \<open>No engine process is left behind\<close>

definition sound_engine :: "'w checked_state \<Rightarrow> bool" where
  "sound_engine s \<longleftrightarrow> engine_inv (fst s) \<and> handles_ok (fst s) (snd s)"

lemma on_source_frame:
  "on_source f m = (r, m') \<Longrightarrow> open_procs m' = open_procs m \<and> next_proc m' = next_proc m"
  by (auto simp: on_source_def split: prod.splits)

lemma check_binding_keeps:
  assumes "sound_engine s" "check_binding E qid bracket_sql b s = (r, s')"
  shows "sound_engine s'"
proof -
  let ?c = "substitute (value_fmt (op_host E)) bracket_sql b"
  obtain q m where o: "on_source (execute_arrow (op_session E) ?c NoParams) (snd s) = (q, m)"
    by (cases "on_source (execute_arrow (op_session E) ?c NoParams) (snd s)")
  have h: "engine_inv (fst s)" "handles_ok (fst s) m"
    using assms(1) on_source_frame [OF o] by (simp_all add: sound_engine_def handles_ok_def)
  obtain x e' m' where x: "run_engine (op_host E) qid b (fst s) m = (x, e', m')" by (metis prod_cases3)
  have "s' = (fst s, m) \<or> s' = (e', m')"
    using assms(2) o x by (auto simp: check_binding_def Let_def split: sum.splits prod.splits)
  then show ?thesis using h run_keeps [OF x h] by (auto simp: sound_engine_def)
qed

lemma cross_check_keeps:
  assumes "sound_engine s" "cross_check_items E items s = (r, s')"
  shows "sound_engine s'"
proof (rule each_eff_keeps [where I = sound_engine, OF _ assms(1) assms(2) [unfolded cross_check_items_def]])
  fix x :: check_item and t q t'
  assume t: "sound_engine t" and x: "(case x of (qid, bracket_sql, bs) \<Rightarrow> each_eff (check_binding E qid bracket_sql) bs) t = (q, t')"
  obtain qid br bs where "x = (qid, br, bs)" by (cases x)
  with x have e: "each_eff (check_binding E qid br) bs t = (q, t')" by simp
  show "sound_engine t'"
    by (rule each_eff_keeps [where I = sound_engine, OF check_binding_keeps t e])
qed

lemma start_plane_keeps:
  assumes "open_procs m = []" "start_plane E ws bundle ts plane m = (r, m')"
  shows "case r of Inl e \<Rightarrow> open_procs m' = [] | Inr en \<Rightarrow> sound_engine (en, m')"
proof (cases "plane = plane_parquet")
  case True
  then show ?thesis
    using assms by (auto simp: start_plane_def Let_def new_process_engine_def sound_engine_def engine_inv_def handles_ok_def split: option.splits)
next
  case False
  let ?e = "new_hot_engine (''optimize-validate-'' @ last_part ws) ws None []"
  obtain q m1 where o: "on_source (source_tables E ts) m = (q, m1)" by (cases "on_source (source_tables E ts) m")
  have m1: "open_procs m1 = []" using on_source_frame [OF o] assms(1) by simp
  have e: "engine_inv ?e" "handles_ok ?e m1" "pe_hot ?e" "pe_proc ?e = None"
    using m1 by (simp_all add: engine_inv_def handles_ok_def new_hot_engine_def new_process_engine_def)
  show ?thesis
  proof (cases q)
    case (Inr snapshot)
    obtain x en m2 where i: "ingest (op_host E) snapshot ?e m1 = (x, en, m2)" by (metis prod_cases3)
    have "engine_inv en \<and> handles_ok en m2" using ingest_keeps [OF i] e by blast
    moreover have "pe_proc en = None" using ingest_frame [OF i] e(4) by simp
    ultimately have "sound_engine (en, m2)" "open_procs m2 = []" by (auto simp: sound_engine_def handles_ok_def)
    moreover have "(r, m') = (case x of Inl e \<Rightarrow> (Inl e, m2) | Inr u \<Rightarrow> (Inr en, m2))"
      using assms(2) False o Inr i by (simp add: start_plane_def Let_def split: sum.splits)
    ultimately show ?thesis by (cases x) simp_all
  qed (use assms(2) False o m1 in \<open>auto simp: start_plane_def Let_def\<close>)
qed

lemma check_plane_closes:
  assumes "open_procs m = []" "check_plane E ws bundle ts items plane m = (r, m')"
  shows "open_procs m' = []"
proof -
  obtain q m1 where s: "start_plane E ws bundle ts plane m = (q, m1)" by (cases "start_plane E ws bundle ts plane m")
  show ?thesis
  proof (cases q)
    case (Inr en)
    obtain x t where c: "cross_check_items E items (en, m1) = (x, t)" by (cases "cross_check_items E items (en, m1)")
    have "sound_engine t" using cross_check_keeps [OF _ c] start_plane_keeps [OF assms(1) s] Inr by simp
    moreover obtain e' m2 where "close_engine (fst t, snd t) = (e', m2)" by (cases "close_engine (fst t, snd t)")
    ultimately have "open_procs (snd (close_engine t)) = []" using closed_engine [of "fst t" "snd t"] by (simp add: sound_engine_def)
    then show ?thesis using assms(2) s Inr c by (simp add: check_plane_def)
  qed (use assms s start_plane_keeps [OF assms(1) s] in \<open>simp add: check_plane_def\<close>)
qed

text \<open>
  C26. The cross-check leaves no engine process behind, however it ends: whether a plane cannot be
  started, an engine raises, an answer diverges or everything agrees, every subprocess that was
  started is closed when the validation returns or raises.
\<close>

theorem validation_leaves_no_process:
  assumes "open_procs m = []" "validate_engine_against_source E ws W qids planes bundle ts dataset sf m = (r, m')"
  shows "open_procs m' = []"
proof -
  have "open_procs k' = []" if "each_eff (check_plane E ws bundle ts items) planes m = (q, k')" for items q k'
    by (rule each_eff_keeps [where I = "\<lambda>m. open_procs m = []", OF check_plane_closes assms(1) that])
  then show ?thesis
    using assms by (auto simp: validate_engine_against_source_def split: sum.splits prod.splits)
qed

section \<open>The run up to the publish\<close>

text \<open>
  What a run does up to the cross-check, from its first state: the workload is the provider's for the
  resolved benchmark, the database is loaded and, if a snapshot is asked for, exported.
\<close>

definition loaded_run ::
  "('w, 'g) optimizer_env \<Rightarrow> optimize_args \<Rightarrow> 'w machine \<Rightarrow> 'g workload \<Rightarrow> (string \<times> column_spec list) list \<Rightarrow> string option
     \<Rightarrow> 'w machine \<Rightarrow> bool"
where
  "loaded_run E a m W expected bundle m0 \<longleftrightarrow> (\<exists>bench m1.
     op_benchmark E (oa_benchmark a) = Inr bench \<and> op_provider E bench (oa_database a) (oa_query_ids a) = Inr W \<and>
     prepare E a bench m = (Inr (W, expected), m1) \<and>
     (if oa_data_plane a \<in> {''parquet'', ''auto''} then
        (\<exists>d m2. on_source (op_mkdtemp E) m1 = (Inr d, m2) \<and> bundle = Some d \<and>
           export_tables_to_parquet E (map fst expected) d m2 = (Inr (), m0))
      else bundle = None \<and> m0 = m1))"

text \<open>
  The whole cross-check of a run passed: on each selected plane, one after the other, each requested
  query was run with each of its sampled bindings.
\<close>

definition cross_checked_run ::
  "('w, 'g) optimizer_env \<Rightarrow> optimize_args \<Rightarrow> 'w machine \<Rightarrow> 'g workload \<Rightarrow> 'w machine \<Rightarrow> bool" where
  "cross_checked_run E a m W m' \<longleftrightarrow> (\<exists>expected bundle m0. loaded_run E a m W expected bundle m0 \<and>
     (\<forall>qid\<in>set (oa_query_ids a). samplable W qid) \<and>
     planes_agreed E (oa_workspace a) bundle (map fst expected) (check_work W (oa_query_ids a))
       (selected_planes (oa_data_plane a)) m0 m')"

lemma check_and_publish_run:
  assumes "check_and_publish E OS getenv digest a target W expected snap s = (r, s')"
    and "snd s' \<noteq> snd s \<or> (\<exists>dest. r = Inr dest)"
  obtains rc m0 m' ts po where
    "(case snap of None \<Rightarrow> m0 = fst s | Some d \<Rightarrow> export_tables_to_parquet E (map fst expected) d (fst s) = (Inr (), m0))"
    "validate_engine_against_source E (oa_workspace a) W (oa_query_ids a) (selected_planes (oa_data_plane a)) snap
       (map fst expected) (wl_value W) (oa_scale_factor a) m0 = (Inr rc, m')"
    "fst s' = m'"
    "workload_templates (op_lang E) (value_fmt (op_host E)) (wl_sqls W) (wl_gen W) (wl_seed W) 3 (oa_query_ids a) = Inr ts"
    "po = publish_args a target (op_resolve E (oa_database a)) (map_option (\<lambda>d. op_files E d m') snap) expected"
    "publish_engine OS getenv digest (op_files E (oa_workspace a) m') ts (Receipt rc) po (snd s) =
       (case r of Inr dest \<Rightarrow> Inr (Some dest) | Inl e \<Rightarrow> fst (publish_engine OS getenv digest (op_files E (oa_workspace a) m') ts (Receipt rc) po (snd s)), snd s')"
proof -
  obtain m0 where e: "(case snap of None \<Rightarrow> return_eff () | Some d \<Rightarrow> on_machine (export_tables_to_parquet E (map fst expected) d)) s
      = (Inr (), m0, snd s)"
    using assms by (cases s; cases "snap")
      (auto simp: check_and_publish_def eff_simps on_machine_def split: prod.splits sum.splits)
  then have x: "case snap of None \<Rightarrow> m0 = fst s | Some d \<Rightarrow> export_tables_to_parquet E (map fst expected) d (fst s) = (Inr (), m0)"
    by (cases s) (auto simp: eff_simps on_machine_def split: option.splits prod.splits)
  obtain rc m' where v: "validate_engine_against_source E (oa_workspace a) W (oa_query_ids a) (selected_planes (oa_data_plane a)) snap
       (map fst expected) (wl_value W) (oa_scale_factor a) m0 = (Inr rc, m')"
    using assms e by (auto simp: check_and_publish_def eff_simps on_machine_def split: prod.splits sum.splits)
  define po where "po = publish_args a target (op_resolve E (oa_database a)) (map_option (\<lambda>d. op_files E d m') snap) expected"
  let ?pub = "publish_from_provider OS getenv digest (op_lang E) (value_fmt (op_host E)) (op_files E (oa_workspace a) m')
      (wl_sqls W) (wl_gen W) (wl_seed W) 3 (oa_query_ids a) (Receipt rc) po (snd s)"
  have r: "(r, s') = (case ?pub of
         (Inl e, p) \<Rightarrow> (Inl e, m', p)
       | (Inr None, p) \<Rightarrow> (Inl (RuntimeError ''publish produced no engine (no routable templates derived)''), m', p)
       | (Inr (Some dest), p) \<Rightarrow> (Inr dest, m', p))"
    using assms(1) [symmetric] e v
    by (simp add: check_and_publish_def eff_simps on_machine_def po_def split: prod.split sum.split option.split)
  have s': "snd s' = snd ?pub" "r = Inr dest \<Longrightarrow> fst ?pub = Inr (Some dest)" "fst s' = m'" for dest
    using r by (auto split: prod.splits sum.splits option.splits)
  moreover obtain ts where t: "workload_templates (op_lang E) (value_fmt (op_host E)) (wl_sqls W) (wl_gen W) (wl_seed W) 3 (oa_query_ids a) = Inr ts"
    using assms(2) r by (auto simp: publish_from_provider_def eff_simps split: sum.splits)
  moreover from this have "?pub = publish_engine OS getenv digest (op_files E (oa_workspace a) m') ts (Receipt rc) po (snd s)"
    by (simp add: publish_from_provider_def)
  ultimately show thesis
    by (intro that [OF x v s'(3) t po_def]) (cases r, auto simp: prod_eq_iff)
qed

lemma optimize_run:
  assumes "optimize_database E OS getenv digest a s = (r, s')" and "snd s' \<noteq> snd s \<or> (\<exists>dest. r = Inr dest)"
  obtains W expected snap m0 m' rc ts po where
    "oa_force a \<or> \<not> foreign_engine (engine_name a) (op_resolve E (oa_database a)) (pw_dir (snd s))"
    "loaded_run E a (fst s) W expected snap m0"
    "validate_engine_against_source E (oa_workspace a) W (oa_query_ids a) (selected_planes (oa_data_plane a)) snap
       (map fst expected) (wl_value W) (oa_scale_factor a) m0 = (Inr rc, m')"
    "workload_templates (op_lang E) (value_fmt (op_host E)) (wl_sqls W) (wl_gen W) (wl_seed W) 3 (oa_query_ids a) = Inr ts"
    "\<exists>target. po = publish_args a target (op_resolve E (oa_database a)) (map_option (\<lambda>d. op_files E d m') snap) expected"
    "publish_engine OS getenv digest (op_files E (oa_workspace a) m') ts (Receipt rc) po (snd s) =
       (case r of Inr dest \<Rightarrow> Inr (Some dest) | Inl e \<Rightarrow> fst (publish_engine OS getenv digest (op_files E (oa_workspace a) m') ts (Receipt rc) po (snd s)), snd s')"
proof -
  obtain bench target where b: "op_benchmark E (oa_benchmark a) = Inr bench"
    "oa_force a \<or> \<not> foreign_engine (engine_name a) (op_resolve E (oa_database a)) (pw_dir (snd s))"
    "optimize_body E OS getenv digest a target bench s = (r, s')"
    using assms by (auto simp: optimize_database_def split: if_splits option.splits sum.splits)
  obtain W expected m where p: "prepare E a bench (fst s) = (Inr (W, expected), m)"
    using b(3) assms(2) by (auto simp: optimize_body_def on_machine_def after_world_def split: prod.splits sum.splits)
  have w: "op_provider E bench (oa_database a) (oa_query_ids a) = Inr W"
    using p by (auto simp: prepare_def eff_simps Let_def split: prod.splits sum.splits if_splits)
  obtain snap m1 s2 where c: "check_and_publish E OS getenv digest a target W expected snap (m1, snd s) = (r, s2)"
    "snd s2 = snd s'" "if oa_data_plane a \<in> {''parquet'', ''auto''}
       then \<exists>d. on_source (op_mkdtemp E) m = (Inr d, m1) \<and> snap = Some d else snap = None \<and> m1 = m"
  proof (cases "oa_data_plane a \<in> {''parquet'', ''auto''}")
    case True
    then obtain d m1 s2 where "on_source (op_mkdtemp E) m = (Inr d, m1)"
      "check_and_publish E OS getenv digest a target W expected (Some d) (m1, snd s) = (r, s2)" "snd s2 = snd s'"
      using b(3) assms(2) p
      by (auto simp: optimize_body_def on_machine_def after_world_def split: prod.splits sum.splits)
    with True show thesis by (intro that [of "Some d" m1 s2]) auto
  next
    case False
    then obtain s2 where "check_and_publish E OS getenv digest a target W expected None (m, snd s) = (r, s2)" "snd s2 = snd s'"
      using b(3) p
      by (auto simp: optimize_body_def on_machine_def after_world_def split: prod.splits sum.splits)
    with False show thesis by (intro that [of None m s2]) auto
  qed
  then have "snd s2 \<noteq> snd (m1, snd s) \<or> (\<exists>dest. r = Inr dest)" using assms(2) by simp
  from check_and_publish_run [OF c(1) this] obtain rc m0 m' ts po where
    x: "case snap of None \<Rightarrow> m0 = m1 | Some d \<Rightarrow> export_tables_to_parquet E (map fst expected) d m1 = (Inr (), m0)" and
    v: "validate_engine_against_source E (oa_workspace a) W (oa_query_ids a) (selected_planes (oa_data_plane a)) snap
       (map fst expected) (wl_value W) (oa_scale_factor a) m0 = (Inr rc, m')"
    "workload_templates (op_lang E) (value_fmt (op_host E)) (wl_sqls W) (wl_gen W) (wl_seed W) 3 (oa_query_ids a) = Inr ts"
    "po = publish_args a target (op_resolve E (oa_database a)) (map_option (\<lambda>d. op_files E d m') snap) expected"
    "publish_engine OS getenv digest (op_files E (oa_workspace a) m') ts (Receipt rc) po (snd s) =
       (case r of Inr dest \<Rightarrow> Inr (Some dest) | Inl e \<Rightarrow> fst (publish_engine OS getenv digest (op_files E (oa_workspace a) m') ts (Receipt rc) po (snd s)), snd s')"
    unfolding fst_conv snd_conv c(2) .
  have "loaded_run E a (fst s) W expected snap m0"
    unfolding loaded_run_def
  proof (intro exI conjI)
    show "if oa_data_plane a \<in> {''parquet'', ''auto''}
        then \<exists>d m2. on_source (op_mkdtemp E) m = (Inr d, m2) \<and> snap = Some d \<and>
          export_tables_to_parquet E (map fst expected) d m2 = (Inr (), m0)
        else snap = None \<and> m0 = m"
    proof (cases "oa_data_plane a \<in> {''parquet'', ''auto''}")
      case True
      with c(3) obtain d where d: "on_source (op_mkdtemp E) m = (Inr d, m1)" "snap = Some d" by (simp only: if_True) blast
      with x True show ?thesis by (simp only: if_True option.case) blast
    next
      case False
      with c(3) have "snap = None \<and> m1 = m" by (simp only: if_False)
      with x False show ?thesis by (simp only: if_False) simp
    qed
  qed (rule b(1) w p)+
  then show thesis by (rule that [OF b(2) _ v(1,2) _ v(4)]) (use v(3) in blast)
qed

text \<open>A run on a database with one table and a constant query.\<close>

definition table_sqlglot :: sqlglot where
  "table_sqlglot = tiny_sqlglot\<lparr>find_all := (\<lambda>n c. if c = ''Table'' then [n] else [])\<rparr>"

definition sample_session :: "unit duck_session" where
  "sample_session = \<lparr>ds_execute = (\<lambda>q ps. return_eff ()), ds_arrow = return_eff one_row,
     ds_read_json = (\<lambda>p. return_eff None), ds_temp_name = (\<lambda>w. (''/tmp/p'', w)), ds_clock = (\<lambda>w. (0, w))\<rparr>"

definition sample_optimizer :: "(string \<Rightarrow> unit machine \<Rightarrow> (string \<times> string) list) \<Rightarrow> (unit, unit) optimizer_env" where
  "sample_optimizer files = \<lparr>op_session = sample_session, op_names = return_eff [''T''],
     op_columns = return_eff [(''n'', ''INTEGER'')], op_close = (\<lambda>w. w), op_mkdtemp = return_eff ''/tmp/snap'',
     op_rmtree = (\<lambda>d w. w), op_files = files, op_resolve = (\<lambda>p. p), op_host = demo_host, op_lang = table_sqlglot,
     op_benchmark = (\<lambda>b. Inr b),
     op_provider = (\<lambda>b p qs. Inr \<lparr>wl_value = b, wl_sqls = [(''Q1'', ''t'')], wl_gen = (\<lambda>q. return_eff []), wl_seed = ()\<rparr>)\<rparr>"

definition sample_args :: optimize_args where
  "sample_args = \<lparr>oa_database = ''/d/tpch.db'', oa_query_ids = [''1''], oa_workspace = ''/e'', oa_benchmark = ''tpch'',
     oa_engines_dir = Some ''engines'', oa_name = Some ''tpch'', oa_data_plane = ''parquet'', oa_scale_factor = None,
     oa_threads = None, oa_force = False\<rparr>"

definition sample_machine :: "unit machine" where
  "sample_machine = demo_machine\<lparr>entries := (''/d/tpch.db'', Data (Complete [] 1)) # entries demo_machine\<rparr>"

definition sample_fs :: "string \<Rightarrow> unit machine \<Rightarrow> (string \<times> string) list" where
  "sample_fs d m = (if d = ''/e'' then sample_workspace else [(''T.parquet'', ''PAR1'')])"

definition sample_run :: "(py_error + string) \<times> unit optimizer_state" where
  "sample_run = optimize_database (sample_optimizer sample_fs) quiet_os Map.empty (\<lambda>s. ''0a'') sample_args
     (sample_machine, sample_world)"

definition sample_workload :: "unit workload" where
  "sample_workload = \<lparr>wl_value = ''tpch'', wl_sqls = [(''Q1'', ''t'')], wl_gen = (\<lambda>q. return_eff []), wl_seed = ()\<rparr>"

definition sample_schema :: "(string \<times> column_spec list) list" where
  "sample_schema = [(''T'', [\<lparr>col_name = ''n'', col_type = ''INTEGER''\<rparr>])]"

lemma sample_prepare: "prepare (sample_optimizer files) sample_args ''tpch'' sample_machine = (Inr (sample_workload, sample_schema), sample_machine)"
proof -
  have l: "load_database_into_memory (sample_optimizer files) ''/d/tpch.db'' sample_machine = (Inr [''T''], sample_machine)"
    by code_simp
  have p: "present_tables [''T''] = [(''t'', ''T'')]" by code_simp
  have r: "referenced_tables table_sqlglot sample_workload [''1''] = [''t'']" by code_simp
  have c: "on_source (read_columns (sample_optimizer files) [(''t'', ''T'')] [''t''] []) sample_machine = (Inr sample_schema, sample_machine)"
    by code_simp
  show ?thesis
    using l p r c by (simp add: prepare_def eff_simps sample_args_def sample_optimizer_def sample_workload_def [symmetric] Let_def)
qed

lemma sample_checked:
  "fst (each_eff (check_plane (sample_optimizer files) ''/e'' (Some ''/tmp/snap'') [''T''] [(''1'', ''t'', [[]])]) [plane_parquet]
     (make_dir ''/tmp/snap'' sample_machine)) = Inr ()"
  by code_simp

lemma sample_plan: "traverse_e (plan_query sample_workload ''tpch'') [''1''] = Inr [(''1'', ''t'', [[]])]"
  by code_simp

lemma sample_templates: "workload_templates table_sqlglot plain_fmt [(''Q1'', ''t'')] (\<lambda>q. return_eff []) () 3 [''1'']
    = Inr [\<lparr>qt_query_id = ''1'', qt_sql_template = ''t'', qt_placeholders = []\<rparr>]"
  by code_simp

lemma sample_export:
  "export_tables_to_parquet (sample_optimizer files) [''T''] ''/tmp/snap'' sample_machine = (Inr (), make_dir ''/tmp/snap'' sample_machine)"
  by code_simp

lemma sample_validated:
  "\<exists>m'. validate_engine_against_source (sample_optimizer files) ''/e'' sample_workload [''1''] [plane_parquet] (Some ''/tmp/snap'')
      [''T''] ''tpch'' None (make_dir ''/tmp/snap'' sample_machine) =
    (Inr (crosscheck_receipt (sample_optimizer files) ''/e'' [(''1'', ''t'', [[]])] [plane_parquet] ''tpch'' None m'), m')"
  using sample_checked [of files] sample_plan
  by (auto simp: validate_engine_against_source_def split: prod.split sum.split)

theorem validation_leaves_no_process_witness:
  "\<exists>r m'. validate_engine_against_source (sample_optimizer sample_fs) ''/e'' sample_workload [''1''] [plane_parquet] (Some ''/tmp/snap'')
      [''T''] ''tpch'' None (make_dir ''/tmp/snap'' sample_machine) = (Inr r, m') \<and> open_procs m' = []"
proof -
  have o: "open_procs (make_dir ''/tmp/snap'' sample_machine) = []" by (simp add: sample_machine_def demo_machine_def)
  show ?thesis using sample_validated [of sample_fs] validation_leaves_no_process [OF o] by blast
qed

lemma sample_fields:
  "oa_workspace sample_args = ''/e''" "oa_query_ids sample_args = [''1'']" "oa_data_plane sample_args = ''parquet''"
  "oa_scale_factor sample_args = None" "oa_database sample_args = ''/d/tpch.db''" "engine_name sample_args = ''tpch''"
  "oa_engines_dir sample_args = Some ''engines''" "oa_force sample_args = False" "oa_benchmark sample_args = ''tpch''"
  "selected_planes ''parquet'' = [plane_parquet]" "map fst sample_schema = [''T'']"
  "wl_value sample_workload = ''tpch''" "wl_sqls sample_workload = [(''Q1'', ''t'')]" "wl_gen sample_workload = (\<lambda>q. return_eff [])"
  "op_lang (sample_optimizer files) = table_sqlglot" "value_fmt (op_host (sample_optimizer files)) = plain_fmt"
  "op_resolve (sample_optimizer files) x = x" "op_files (sample_optimizer files) = files"
  "op_benchmark (sample_optimizer files) b = Inr b" "op_mkdtemp (sample_optimizer files) = return_eff ''/tmp/snap''"
  by (simp_all add: sample_args_def selected_planes_def sample_schema_def sample_workload_def sample_optimizer_def
      demo_host_def engine_name_def)

lemma sample_run_ok: "fst sample_run = Inr ''tpch''"
proof -
  let ?E = "sample_optimizer sample_fs" let ?t = "\<lparr>qt_query_id = ''1'', qt_sql_template = ''t'', qt_placeholders = []\<rparr>"
  obtain m' where v: "validate_engine_against_source ?E ''/e'' sample_workload [''1''] [plane_parquet] (Some ''/tmp/snap'')
      [''T''] ''tpch'' None (make_dir ''/tmp/snap'' sample_machine) =
    (Inr (crosscheck_receipt ?E ''/e'' [(''1'', ''t'', [[]])] [plane_parquet] ''tpch'' None m'), m')"
    using sample_validated by blast
  let ?rc = "crosscheck_receipt ?E ''/e'' [(''1'', ''t'', [[]])] [plane_parquet] ''tpch'' None m'"
  let ?po = "publish_args sample_args ''engines'' ''/d/tpch.db'' (Some [(''T.parquet'', ''PAR1'')]) sample_schema"
  have po: "po_name ?po = Some ''tpch''" "po_scale_factor ?po = None" "serves_parquet ?po"
    "resolve_engines_dir (po_engines_dir ?po) Map.empty = Some ''engines''"
    by (simp_all add: publish_args_def sample_args_def engine_name_def serves_parquet_def resolve_engines_dir_def)
  have "verify_receipt_for_publish (Receipt ?rc) sample_workspace [''1''] None = Inr ?rc"
    by (simp add: verify_receipt_iff proven_def crosscheck_receipt_def sample_optimizer_def sample_fs_def sample_build_ids)
  moreover have "covers_plane ?rc plane_parquet" by (simp add: covers_plane_def crosscheck_receipt_def)
  moreover obtain p where "atomic_publish quiet_os sample_workspace (publish_manifest (\<lambda>s. ''0a'') sample_workspace [?t] ?rc ?po)
      (Some ''tpch'') (po_bundle ?po) sample_world = (Inr ''tpch'', p)"
    using atomic_faultless [OF quiet_os_plain quiet_os_ok [of "''tpch''"]] by fastforce
  ultimately have pub: "publish_engine quiet_os Map.empty (\<lambda>s. ''0a'') sample_workspace [?t] (Receipt ?rc) ?po sample_world = (Inr (Some ''tpch''), p)"
    using po by (simp add: publish_engine_def eff_simps)
  have f: "op_files ?E ''/e'' m' = sample_workspace" "op_files ?E ''/tmp/snap'' m' = [(''T.parquet'', ''PAR1'')]"
    by (simp_all add: sample_optimizer_def sample_fs_def)
  have c: "check_and_publish ?E quiet_os Map.empty (\<lambda>s. ''0a'') sample_args ''engines'' sample_workload sample_schema (Some ''/tmp/snap'')
      (sample_machine, sample_world) = (Inr ''tpch'', m', p)"
    using v sample_export [of sample_fs] sample_templates pub f
    by (simp add: check_and_publish_def eff_simps on_machine_def publish_from_provider_def sample_fields)
  have "exists_path ''/e/db'' sample_machine" "\<not> foreign_engine ''tpch'' ''/d/tpch.db'' (pw_dir sample_world)"
    by code_simp+
  moreover have "on_source (return_eff d) sample_machine = (Inr d, sample_machine)" for d :: string
    by (simp add: on_source_def eff_simps)
  ultimately show ?thesis
    using c sample_prepare [of sample_fs]
    by (simp add: sample_run_def optimize_database_def optimize_body_def sample_fields data_planes_def resolve_engines_dir_def
        on_machine_def)
qed

section \<open>What the checked templates route\<close>

lemma draw_samples_mono: "set (draw_samples gen q n w) \<subseteq> set (draw_samples gen q (Suc n) w)"
proof (induction n arbitrary: w)
  case (Suc n)
  obtain r w1 where g: "gen q w = (r, w1)" by (cases "gen q w")
  show ?case
  proof (cases r)
    case (Inr phs)
    have "set (draw_samples gen q n w1) \<subseteq> set (draw_samples gen q (Suc n) w1)" by (rule Suc.IH)
    moreover have "draw_samples gen q (Suc k) w = (if phs \<noteq> [] then [phs] else []) @ draw_samples gen q k w1" for k
      using g Inr by simp
    ultimately show ?thesis by auto
  qed (simp add: g)
qed simp

lemma draw_samples_nonempty: "b \<in> set (draw_samples gen q n w) \<Longrightarrow> b \<noteq> []"
  by (induction n arbitrary: w) (auto split: prod.splits sum.splits if_splits)

lemma update_subset: "set (AList.update k v xs) \<subseteq> insert (k, v) (set xs)"
  by (induction xs) auto

lemma known_queries_ok:
  assumes "(q, t) \<in> set (known_queries sqls qids)"
  shows "q \<in> set qids \<and> lookup_template sqls q = Some t \<and> t \<noteq> []"
  using assms unfolding known_queries_def
proof (induction qids rule: rev_induct)
  case (snoc x qids)
  then show ?case
    using update_subset [of x] by (fastforce split: option.splits if_splits)
qed simp


text \<open>
  The routed template of a query is the checked one: the statement it was checked with on binding
  \<open>b\<close> (without generator keys the template has no hole for) has the routed template's structural key,
  and binding it by the routed template gives the checked values back.
\<close>

definition routes_checked :: "sqlglot \<Rightarrow> py_fmt \<Rightarrow> string \<Rightarrow> query_template \<Rightarrow> assignment \<Rightarrow> bool" where
  "routes_checked L F bracket_sql q b \<longleftrightarrow>
     (let sample = keep_placeholders (find_placeholders bracket_sql) b; concrete = substitute F bracket_sql sample in
      normalize_sql L concrete \<noteq> None \<and> normalize_sql L concrete = normalize_sql L (qt_sql_template q) \<and>
      (if find_placeholders bracket_sql = [] then qt_sql_template q = bracket_sql \<and> qt_placeholders q = []
       else \<exists>bound. bind_template L F (qt_sql_template q) concrete (qt_placeholders q) = Some bound \<and>
         given_back F bound sample))"

lemma keep_placeholders_all: "fst ` set b \<subseteq> set names \<Longrightarrow> keep_placeholders names b = b"
  by (auto simp: keep_placeholders_def filter_id_conv)

lemma map_of_keyed: "k \<in> fst ` set xs \<Longrightarrow> map_of (map (\<lambda>(q, t). (q, g q)) xs) k = Some (g k)"
  by (induction xs) auto

lemma workload_templates_ok:
  assumes "workload_templates L F sqls gen seed 3 qids = Inr ts" "q \<in> set ts"
  shows "qt_query_id q \<in> set qids \<and> (\<exists>bracket_sql. lookup_template sqls (qt_query_id q) = Some bracket_sql \<and> bracket_sql \<noteq> [] \<and>
    (\<forall>b\<in>set (let bs = sample_assignments gen seed (qt_query_id q) 2 in if bs = [] then [[]] else bs).
       find_placeholders bracket_sql = [] \<or> b \<noteq> [] \<longrightarrow> routes_checked L F bracket_sql q b))"
proof -
  let ?asgs = "map (\<lambda>(q, t). (q, sample_assignments gen seed q 3)) (known_queries sqls qids)"
  obtain os where os: "traverse_e (template_for L F ?asgs) (known_queries sqls qids) = Inr os" "ts = List.map_filter (\<lambda>q. q) os"
    using assms(1) by (auto simp: workload_templates_def build_query_templates_def Let_def ebind_Inr_iff)
  then have "Some q \<in> set os" using assms(2) by (auto simp: map_filter_def)
  moreover have "list_all2 (\<lambda>x y. template_for L F ?asgs x = Inr y) (known_queries sqls qids) os"
    using os(1) by (simp add: traverse_e_Inr)
  ultimately obtain i where i: "i < length (known_queries sqls qids)" "template_for L F ?asgs (known_queries sqls qids ! i) = Inr (Some q)"
    by (auto simp: list_all2_conv_all_nth in_set_conv_nth)
  obtain qid t where t: "known_queries sqls qids ! i = (qid, t)" by (cases "known_queries sqls qids ! i")
  have k: "(qid, t) \<in> set (known_queries sqls qids)" "template_for L F ?asgs (qid, t) = Inr (Some q)"
    using i nth_mem [OF i(1)] t by simp_all
  note known = known_queries_ok [OF k(1)]
  show ?thesis
  proof (cases "find_placeholders t = []")
    case True
    with k(2) have q: "q = \<lparr>qt_query_id = qid, qt_sql_template = t, qt_placeholders = []\<rparr>" "normalize_sql L t \<noteq> None"
      by (auto simp: template_for_def split: if_splits)
    have "substitute F t [] = t" by (simp add: substitute_def)
    then have "routes_checked L F t q b" for b
      using q True by (simp add: routes_checked_def keep_placeholders_def)
    with known q(1) show ?thesis by auto
  next
    case False
    have "map_of ?asgs qid = Some (sample_assignments gen seed qid 3)"
      by (rule map_of_keyed) (use k(1) in force)
    with k(2) False obtain marker_sql specs where d: "derive_template L F t (sample_assignments gen seed qid 3) = Inr (Some (marker_sql, specs))"
      "q = \<lparr>qt_query_id = qid, qt_sql_template = marker_sql, qt_placeholders = specs\<rparr>"
      by (auto simp: template_for_def ebind_Inr_iff split: list.splits option.splits)
    have "routes_checked L F t q b" if b: "b \<in> set (sample_assignments gen seed qid 2)" for b
    proof -
      have "b \<in> set (sample_assignments gen seed qid 3)"
        using b draw_samples_mono [of gen "''Q'' @ qid" 2 seed] by (auto simp: sample_assignments_def numeral_eq_Suc)
      from derived_sample [OF d(1) this refl] show ?thesis
        using d(2) False unfolding routes_checked_def Let_def by (metis (no_types) option.distinct(1) query_template.select_convs(2,3))
    qed
    with known d(2) False show ?thesis by (auto simp: Let_def split: if_splits)
  qed
qed

section \<open>An optimized database\<close>

text \<open>
  C15. The engines directory is touched only after this run's whole cross-check has passed, and not
  over an engine of another database unless forced. Whenever a run changes it or returns, the run
  loaded the database, took the workload from the provider for the resolved benchmark, and then on
  each selected plane in turn started the built engine and, for each requested query in order and each
  of its sampled bindings, had DuckDB answer the query's own template with that binding and the engine
  answer the query with it, and the two tables compared equal. A run that stops before leaves the
  directory exactly as it was.
\<close>

theorem optimize_touches_only_checked:
  assumes "optimize_database E OS getenv digest a s = (r, s')" "snd s' \<noteq> snd s \<or> (\<exists>dest. r = Inr dest)"
  shows "(oa_force a \<or> \<not> foreign_engine (engine_name a) (op_resolve E (oa_database a)) (pw_dir (snd s))) \<and>
    (\<exists>W m'. cross_checked_run E a (fst s) W m')"
proof -
  obtain W expected snap m0 m' rc ts po where f:
    "oa_force a \<or> \<not> foreign_engine (engine_name a) (op_resolve E (oa_database a)) (pw_dir (snd s))"
    "loaded_run E a (fst s) W expected snap m0"
    "validate_engine_against_source E (oa_workspace a) W (oa_query_ids a) (selected_planes (oa_data_plane a)) snap
       (map fst expected) (wl_value W) (oa_scale_factor a) m0 = (Inr rc, m')"
    by (rule optimize_run [OF assms])
  have "cross_checked_run E a (fst s) W m'"
    unfolding cross_checked_run_def using f(2) validate_ok(5,6) [OF f(3)] by blast
  with f(1) show ?thesis by blast
qed

theorem optimize_touches_only_checked_witness:
  "\<exists>W m'. cross_checked_run (sample_optimizer sample_fs) sample_args sample_machine W m'"
proof -
  have r: "optimize_database (sample_optimizer sample_fs) quiet_os Map.empty (\<lambda>s. ''0a'') sample_args (sample_machine, sample_world)
      = (fst sample_run, snd sample_run)" by (simp add: sample_run_def)
  from optimize_touches_only_checked [OF r] sample_run_ok show ?thesis by simp
qed

text \<open>
  C2. What the optimizer publishes routes only what it checked. After a run that returns, the name leads
  to a package made for this database, with the build-ids the workspace had when the cross-check ended; its queries are the templates derived from the workload this
  run's cross-check passed on (\<open>cross_checked_run\<close>: on each plane the manifest offers, every requested
  query, its own template filled with each sampled binding, in DuckDB and in the engine); and each
  routed query is one of the requested ones whose routed template has the structural key of
  every statement it was checked with and binds the checked values back.
\<close>

theorem optimize_serves_checked:
  assumes "optimize_database E OS getenv digest a s = (Inr dest, s')"
    and "publisher_ok OS (engine_name a) mine" "pw_seen (snd s) = []"
    and "\<forall>v. node_of (pw_dir (snd s)) (engine_name a) = Some (VersionLink v) \<longrightarrow> own_version (engine_name a) v"
  shows "\<exists>W m' p m. cross_checked_run E a (fst s) W m' \<and>
    resolve_name (pw_dir (snd s')) (engine_name a) = Some p \<and> pk_manifest p = Some m \<and>
    mf_source_db m = Some (op_resolve E (oa_database a)) \<and>
    map_of (engine_build_ids (pk_files p)) = map_of (engine_build_ids (op_files E (oa_workspace a) m')) \<and>
    (mf_parquet_dir m \<noteq> None \<longrightarrow> plane_parquet \<in> set (selected_planes (oa_data_plane a))) \<and>
    (mf_shm_capable m \<longrightarrow> plane_shm \<in> set (selected_planes (oa_data_plane a))) \<and>
    (\<forall>q\<in>set (mf_queries m). qt_query_id q \<in> set (oa_query_ids a) \<and>
       (\<exists>bracket_sql. lookup_template (wl_sqls W) (qt_query_id q) = Some bracket_sql \<and>
          (\<forall>b\<in>set (check_bindings W (qt_query_id q)). (qt_query_id q, bracket_sql, b) \<in> set (check_work W (oa_query_ids a)) \<and>
             routes_checked (op_lang E) (value_fmt (op_host E)) bracket_sql q b)))"
proof -
  obtain W expected snap m0 m' rc0 ts po where
    ld: "loaded_run E a (fst s) W expected snap m0" and
    v: "validate_engine_against_source E (oa_workspace a) W (oa_query_ids a)
       (selected_planes (oa_data_plane a)) snap (map fst expected) (wl_value W) (oa_scale_factor a) m0 = (Inr rc0, m')" and
    ts: "workload_templates (op_lang E) (value_fmt (op_host E)) (wl_sqls W) (wl_gen W) (wl_seed W) 3 (oa_query_ids a) = Inr ts" and
    po: "\<exists>target. po = publish_args a target (op_resolve E (oa_database a)) (map_option (\<lambda>d. op_files E d m') snap) expected" and
    pub: "publish_engine OS getenv digest (op_files E (oa_workspace a) m') ts (Receipt rc0) po (snd s) = (Inr (Some dest), snd s')"
    by (rule optimize_run [OF assms(1)]) auto
  have chk: "cross_checked_run E a (fst s) W m'"
    unfolding cross_checked_run_def using ld validate_ok(5,6) [OF v] by blast
  have name: "po_name po = Some (engine_name a)" "po_source_db po = Some (op_resolve E (oa_database a))"
    using po by (auto simp: publish_args_def)
  obtain rc where p: "Receipt rc0 = Receipt rc" "proven rc (op_files E (oa_workspace a) m') (map qt_query_id ts) (po_scale_factor po)"
    "serves_parquet po \<longrightarrow> covers_plane rc plane_parquet"
    "resolve_name (pw_dir (snd s')) (engine_name a) =
      Some (full_package (op_files E (oa_workspace a) m') (po_bundle po) (publish_manifest digest (op_files E (oa_workspace a) m') ts rc po))"
    by (rule published_package [OF assms(2) name(1) assms(4,3) pub])
  define m where "m = publish_manifest digest (op_files E (oa_workspace a) m') ts rc po"
  note cov = manifest_covered [OF p(2,3) m_def]
  have planes: "rc_planes rc = selected_planes (oa_data_plane a)" using p(1) validate_ok(1) [OF v] by simp
  have "qt_query_id q \<in> set (oa_query_ids a) \<and> (\<exists>bracket_sql. lookup_template (wl_sqls W) (qt_query_id q) = Some bracket_sql \<and>
      (\<forall>b\<in>set (check_bindings W (qt_query_id q)). (qt_query_id q, bracket_sql, b) \<in> set (check_work W (oa_query_ids a)) \<and>
         routes_checked (op_lang E) (value_fmt (op_host E)) bracket_sql q b))" if "q \<in> set (mf_queries m)" for q
  proof -
    have q: "q \<in> set ts" using that cov(1) by simp
    obtain t where t: "qt_query_id q \<in> set (oa_query_ids a)" "lookup_template (wl_sqls W) (qt_query_id q) = Some t"
      "\<And>b. b \<in> set (check_bindings W (qt_query_id q)) \<Longrightarrow> find_placeholders t = [] \<or> b \<noteq> [] \<Longrightarrow>
        routes_checked (op_lang E) (value_fmt (op_host E)) t q b"
      using workload_templates_ok [OF ts q] unfolding check_bindings_def by blast
    have "find_placeholders t = [] \<or> b \<noteq> []" if "b \<in> set (check_bindings W (qt_query_id q))" for b
    proof -
      have "samplable W (qt_query_id q)" using validate_ok(5) [OF v] t(1) by blast
      then show ?thesis using that t(2) draw_samples_nonempty [of b "wl_gen W"]
        by (auto simp: samplable_def check_bindings_def sample_assignments_def Let_def split: if_splits)
    qed
    moreover have "(qt_query_id q, t, b) \<in> set (check_work W (oa_query_ids a))" if "b \<in> set (check_bindings W (qt_query_id q))" for b
      unfolding check_work_def using t(1,2) that by force
    ultimately show ?thesis using t by blast
  qed
  moreover have "mf_source_db m = Some (op_resolve E (oa_database a))"
    by (simp add: m_def publish_manifest_def build_manifest_def name(2))
  moreover have "map_of (engine_build_ids (pk_files (full_package (op_files E (oa_workspace a) m') (po_bundle po) m)))
      = map_of (engine_build_ids (op_files E (oa_workspace a) m'))"
    using p(2) by (simp add: packaged_build_ids)
  moreover have "pk_manifest (full_package ws x mf) = Some mf" for ws x mf by (simp add: full_package_def)
  ultimately show ?thesis using chk p(4) cov(2,3) planes
    by (intro exI [of _ W] exI [of _ m'] exI [of _ "full_package (op_files E (oa_workspace a) m') (po_bundle po) m"] exI [of _ m])
      (simp add: m_def [symmetric])
qed

theorem optimize_serves_checked_witness:
  "\<exists>W m' p m. cross_checked_run (sample_optimizer sample_fs) sample_args sample_machine W m' \<and>
     resolve_name (pw_dir (snd (snd sample_run))) ''tpch'' = Some p \<and> pk_manifest p = Some m \<and>
     mf_source_db m = Some ''/d/tpch.db'' \<and> list_all (\<lambda>q. qt_query_id q = ''1'') (mf_queries m)"
proof -
  have r: "optimize_database (sample_optimizer sample_fs) quiet_os Map.empty (\<lambda>s. ''0a'') sample_args (sample_machine, sample_world)
      = (Inr ''tpch'', snd sample_run)" using sample_run_ok by (simp add: sample_run_def prod_eq_iff)
  have "publisher_ok quiet_os (engine_name sample_args) made_up" using quiet_os_ok [of "''tpch''"] by (simp add: sample_fields)
  moreover have "pw_seen (snd (sample_machine, sample_world)) = []"
    "\<forall>v. node_of (pw_dir (snd (sample_machine, sample_world))) (engine_name sample_args) = Some (VersionLink v) \<longrightarrow> own_version (engine_name sample_args) v"
    by (simp_all add: sample_fields sample_world_def sample_dir_def node_of_def own_version_def py_startswith_def version_prefix_def)
  ultimately obtain W m' p m where "cross_checked_run (sample_optimizer sample_fs) sample_args (fst (sample_machine, sample_world)) W m'"
    "resolve_name (pw_dir (snd (snd sample_run))) (engine_name sample_args) = Some p" "pk_manifest p = Some m"
    "mf_source_db m = Some (op_resolve (sample_optimizer sample_fs) (oa_database sample_args))"
    "\<forall>q\<in>set (mf_queries m). qt_query_id q \<in> set (oa_query_ids sample_args)"
    using optimize_serves_checked [OF r] by blast
  then show ?thesis unfolding list_all_iff sample_fields fst_conv by auto
qed

end
