(* ===== verification/Spec2Isabelle.thy ===== *)
theory Spec2Isabelle
  imports Connection_Handles Query_Params Database_Optimizer
begin

text \<open>
  SynnoDB serves SQL of an analytical workload from C++ engines generated for it, behind a drop-in
  DuckDB connection. This library models the Python under \<open>src/src/synnodb\<close> that decides which
  answer a user gets, and which engines get there at all.

  \<^bold>\<open>How the parts interact.\<close> The factory side derives a routable template for each query of a
  workload, cross-checks the compiled engine against the source database and publishes it, through
  a gate, into the engines directory. A connection scans that directory, loads an engine (hot, from
  shared memory, or over its parquet snapshot), registers a binding per query and from then on sends
  each statement through the router: policy, structural key, guards, placeholder binding, engine
  call, cross-check against DuckDB, and DuckDB's own answer whenever any of it does not hold.

  \<^bold>\<open>Theories and the code they model.\<close>
  \<^item> \<open>Synno_Prelude\<close>, \<open>Py_Values\<close>, \<open>Py_Effects\<close>: Python strings, dictionaries, exceptions, values,
    floats as rationals with infinities and NaN, and computations that raise and act on a state.
  \<^item> \<open>Router_Policy\<close> (\<open>router/policy.py\<close>), \<open>Template_Registry\<close> (\<open>router/registry.py\<close>),
    \<open>Route_Trace\<close> (\<open>router/observe.py\<close>), \<open>Synno_Errors\<close> (\<open>errors.py\<close>), \<open>Routing_Guards\<close>
    (\<open>router/guards.py\<close>).
  \<^item> \<open>Sql_Text\<close>, \<open>Sql_Tree\<close>, \<open>Sql_Unify\<close>, \<open>Placeholder_Binding\<close> (\<open>router/normalize.py\<close>): scanning of the
    statement text, the structural key, the unification of a template with a statement, parameters
    packed in string literals. The sqlglot parser is the record \<open>sqlglot\<close>.
  \<^item> \<open>Row_Pairing\<close>, \<open>Bipartite_Match\<close>, \<open>Result_Compare\<close>, \<open>Result_Diff\<close> (\<open>router/adapt.py\<close>): the verdict
    of the cross-check, against one-to-one pairings of rows as its specification, and the report.
  \<^item> \<open>Query_Router\<close>, \<open>Router_Session\<close> (\<open>router/router.py\<close>): one routed statement, then sessions of
    them as an inductive step relation with its reachable states.
  \<^item> \<open>Live_Catalog\<close> (\<open>schema_fingerprint\<close>), \<open>Engine_Manifest\<close> (\<open>router/manifest.py\<close>),
    \<open>Engine_Registration\<close> (\<open>router/registration.py\<close>), \<open>Reference_Backend\<close> (\<open>router/backend.py\<close>).
  \<^item> \<open>Engine_Wire\<close> (\<open>workloads/workload_provider.py\<close>, request lines), \<open>Shm_Transport\<close>
    (\<open>router/shm_transport.py\<close>), \<open>Engine_Process\<close> (\<open>router/engine.py\<close>, \<open>router/process_engine.py\<close>),
    \<open>Engine_Discovery\<close> (\<open>duckdb_compat/discovery.py\<close>, \<open>utils/core_utils.py\<close>).
  \<^item> \<open>Result_Cursor\<close> (\<open>duckdb_compat/result.py\<close>), \<open>Synno_Connection\<close>, \<open>Connection_Handles\<close>
    (\<open>duckdb_compat/connection.py\<close>, \<open>duckdb_compat/__init__.py\<close>): the handle a user holds, the cursors
    that share its engines, and closing.
  \<^item> \<open>Query_Template\<close>, \<open>Query_Params\<close> (\<open>workloads/query_params.py\<close>): placeholders and substitution,
    the typed parameter space, its parser and its sampling.
  \<^item> \<open>Engine_Template\<close>, \<open>Engine_Store\<close> (\<open>workloads/engine_publish.py\<close>): template derivation with its
    self-check, and the engines directory as system calls that may fail, be interrupted and
    interleave with other publishers.
  \<^item> \<open>Build_Id\<close> (\<open>cpp_runner/hotpatch/elf_build_id.py\<close>), \<open>Publish_Gate\<close>
    (\<open>workloads/validation_receipt.py\<close> and the publishing entry points): the identity of a build, read
    from its ELF bytes, and what a receipt must prove.
  \<^item> \<open>Database_Optimizer\<close> (\<open>optimize.py\<close>, \<open>duckdb_compat/db_io.py\<close>): the cross-check of an engine over
    its planes and the whole publishing run.

  \<^bold>\<open>State and operations.\<close> A class is a record of its attributes and an operation a function from it to
  a result and the record it leaves; an exception is \<open>Inl\<close> of \<open>py_error\<close>, and keeps the effects made
  before it. Shared objects (the engines several handles use, the registry) live once, in the state of
  the site, and are referred to by index. DuckDB, pyarrow, the compiled engine and the operating
  system are records of functions on the rest of the world.

  \<^bold>\<open>What the lemmas show.\<close>
  \<^item> Trust: an answer of an engine is served only after an equal DuckDB answer or within the policy's
    sampling, a divergence or repeated failure takes the template out of service, and no routing
    error reaches the user (\<open>Query_Router\<close>, \<open>Router_Session\<close>, \<open>Synno_Connection\<close>).
  \<^item> The verdict: equality of results is exactly the existence of a one-to-one pairing of rows, the
    matchers are complete, and the search for candidates of a truncated ranking ends.
  \<^item> Engines: staging is all or nothing, a result belongs to the call that asked for it, packages that
    cannot be served leave nothing behind, closing the last handle releases every engine.
  \<^item> Templates: substitution is simultaneous, sampling respects the declared domains, and a derived
    template is one the router matches and binds back.
  \<^item> Publishing: the package under a name is at every moment the old or the complete new one, other
    engines are untouched, and what is published is the build the receipt proves; the optimizer's
    package serves only queries and planes that agreed with the source database.
  Contracts used by several parts are locales with their interpretations on the model: the registry
  as a finite map, the uncrossing of sorted pairings, the life of an engine handle, the row cursor and
  the others in the theories that provide them.

  \<^bold>\<open>Bounds and fuel.\<close> The augmenting path search of \<open>Bipartite_Match\<close> runs with one more unit of fuel
  than there are unseen columns and never runs out; the doubling search of \<open>Result_Compare\<close> runs with
  \<open>widen_fuel\<close> = 12 rounds, which its factor 1024 cannot exceed. Every other loop is structural or
  has a termination measure: the length of the rest of a text, or the bytes left of a note segment.

  \<^bold>\<open>Idealisations.\<close> Characters are ASCII where the source classifies them; floats are exact rationals,
  infinities and NaN; decimal arithmetic is not rounded to 28 digits; a lock makes the section it
  guards one step; a workspace does not change while it is published; messages of exceptions are
  shortened. JSON text, SHA-256 and the Arrow file format are parameters.

  \<^bold>\<open>Not modelled.\<close> The user interfaces and telemetry (\<open>observability\<close>), the clients of language models
  and their caches (\<open>llm\<close>), the conversations that generate engines and the framework and tools around
  them (\<open>conversations\<close>, \<open>synth_framework\<close>, \<open>tools\<close>), the compilation and hot patching of C++
  (\<open>cpp_runner\<close>, apart from the build-ids), the datasets and the instantiation of whole workloads, the
  PostgreSQL proxy and the command lines: they drive remote services, compilers and files, and their
  results reach the code above only through the interfaces that are modelled as parameters. In the
  modelled files the progress spinner, table rendering, logging and the relational API delegated to
  DuckDB are left out.
\<close>

end
